(* ===== verification/Prelude.thy ===== *)
theory Prelude
  imports Complex_Main "HOL-Library.Word"
begin

text \<open>
  The vocabulary every component shares.

  Machine types: \<open>u8\<close> \<dots> \<open>u64\<close> are words of that width (\<open>i64\<close> is the same bit pattern,
  read as two's complement), \<open>usize\<close> is a natural number below \<open>2 ^ 64\<close>, and the time types
  \<open>Instant\<close> and \<open>Duration\<close> of \<^verbatim>\<open>std::time\<close> are counts of nanoseconds, on which truncated
  subtraction is exactly \<^verbatim>\<open>saturating_duration_since\<close>.  Saturating arithmetic is written out.

  Errors: the enums of \<^verbatim>\<open>src/error.rs\<close>.  A \<^verbatim>\<open>Result<T, E>\<close> is \<open>'e + 'a\<close> with \<open>Inl\<close> the error.

  Codecs: a reader (\<^verbatim>\<open>impl Buf\<close>) is the list of bytes that remain, so a decoder maps the
  remaining bytes to an error or to a value and the bytes after it; an encoder yields an error
  or the bytes it appends to the writer (\<^verbatim>\<open>impl BufMut\<close>).  The trait \<^verbatim>\<open>RaknetCodec\<close> of
  \<^verbatim>\<open>src/protocol/codec.rs\<close> is the locale \<open>raknet_codec\<close>, with the laws its
  implementations promise; each implementation interprets it.
\<close>

unbundle bit_operations_syntax

section \<open>Machine types\<close>

type_synonym u8 = "8 word"
type_synonym u16 = "16 word"
type_synonym u32 = "32 word"
type_synonym u64 = "64 word"
type_synonym i64 = "64 word"
type_synonym bytes = "u8 list"
type_synonym usize = nat
type_synonym Instant = nat
type_synonym Duration = nat

named_theorems codec_simps \<open>evaluation rules of the codec combinators\<close>

definition U64_MAX :: nat where
  "U64_MAX = 2 ^ 64 - 1"

text \<open>\<^verbatim>\<open>saturating_add\<close> on \<^verbatim>\<open>u64\<close> and on the 64-bit \<^verbatim>\<open>usize\<close>.\<close>

definition sat_add :: "nat \<Rightarrow> nat \<Rightarrow> nat" where
  "sat_add a b = min (a + b) U64_MAX"

definition sat_mul :: "nat \<Rightarrow> nat \<Rightarrow> nat" where
  "sat_mul a b = min (a * b) U64_MAX"

text \<open>\<^verbatim>\<open>saturating_add\<close> on \<^verbatim>\<open>u32\<close>, for counters and scores kept as natural numbers.\<close>

definition u32_sat_add :: "nat \<Rightarrow> nat \<Rightarrow> nat" where
  "u32_sat_add a b = min (a + b) (2 ^ 32 - 1)"

definition millis :: "nat \<Rightarrow> Duration" where
  "millis n = n * 1000000"

definition secs :: "nat \<Rightarrow> Duration" where
  "secs n = n * 1000000000"

lemma sat_add_le [simp]: "sat_add a b \<le> U64_MAX"
  by (simp add: sat_add_def)

lemma sat_add_exact: "a + b \<le> U64_MAX \<Longrightarrow> sat_add a b = a + b"
  by (simp add: sat_add_def)

lemma sat_add_mono: "a \<le> U64_MAX \<Longrightarrow> a \<le> sat_add a b"
  by (simp add: sat_add_def)

lemma sat_add_le_sum: "sat_add a b \<le> a + b"
  by (simp add: sat_add_def)

lemma sat_add_0 [simp]: "a \<le> U64_MAX \<Longrightarrow> sat_add a 0 = a"
  by (simp add: sat_add_def)

lemma sat_add_le_iff: "m < U64_MAX \<Longrightarrow> sat_add a b \<le> m \<longleftrightarrow> a + b \<le> m"
  by (auto simp: sat_add_def)

section \<open>Errors\<close>

datatype EncodeError =
    MissingReliableIndex
  | MissingSequenceIndex
  | MissingOrderingIndex
  | MissingOrderingChannel
  | EncMissingSplitInfo
  | FrameBitLengthMismatch
  | AckRecordOverflow usize
  | InvalidMtu u16
  | OfflinePongMotdTooLong usize
  | EncInvalidDatagramFlags u8

datatype DecodeError =
    UnexpectedEof
  | UnknownReliability u8
  | InvalidFrameBitLength u16
  | InvalidAckPacket
  | InvalidDatagramFlags u8
  | InvalidOfflinePacketId u8
  | InvalidConnectedPacketId u8
  | InvalidMagic
  | InvalidAddrVersion u8
  | InvalidRequest2Layout
  | SplitIndexOutOfRange
  | SplitCountZero
  | MissingSplitInfo
  | SplitCountMismatch
  | SplitTooLarge
  | SplitBufferFull
  | InvalidAckRangeCount u16

record ConfigValidationError =
  cve_config :: string
  cve_field :: string
  cve_message :: string

section \<open>Encoders and decoders\<close>

type_synonym 'a decoder = "bytes \<Rightarrow> DecodeError + 'a \<times> bytes"
type_synonym encoded = "EncodeError + bytes"

definition dret :: "'a \<Rightarrow> 'a decoder" where
  "dret x src = Inr (x, src)"

definition dfail :: "DecodeError \<Rightarrow> 'a decoder" where
  "dfail e src = Inl e"

text \<open>Sequencing with the \<^verbatim>\<open>?\<close> operator: the first error ends the decoder.\<close>

definition dbind :: "'a decoder \<Rightarrow> ('a \<Rightarrow> 'b decoder) \<Rightarrow> 'b decoder" where
  "dbind p f src = (case p src of Inl e \<Rightarrow> Inl e | Inr (x, src') \<Rightarrow> f x src')"

definition dmap :: "('a \<Rightarrow> 'b) \<Rightarrow> 'a decoder \<Rightarrow> 'b decoder" where
  "dmap f p = dbind p (\<lambda>x. dret (f x))"

text \<open>Decoding a field only when a flag asks for it, as \<^verbatim>\<open>if c { Some(..?) } else { None }\<close>.\<close>

definition dopt :: "bool \<Rightarrow> 'a decoder \<Rightarrow> 'a option decoder" where
  "dopt c p = (if c then dmap Some p else dret None)"

text \<open>\<^verbatim>\<open>for _ in 0..n { out.push(decode(src)?) }\<close>\<close>

fun dtimes :: "nat \<Rightarrow> 'a decoder \<Rightarrow> 'a list decoder" where
  "dtimes 0 p = dret []"
| "dtimes (Suc n) p = dbind p (\<lambda>x. dbind (dtimes n p) (\<lambda>xs. dret (x # xs)))"

text \<open>\<^verbatim>\<open>copy_to_bytes(n)\<close> and \<^verbatim>\<open>copy_to_slice\<close>, after the caller's check of \<^verbatim>\<open>remaining()\<close>.\<close>

definition dtake :: "nat \<Rightarrow> bytes decoder" where
  "dtake n src = (if length src < n then Inl UnexpectedEof else Inr (take n src, drop n src))"

text \<open>A run of \<^verbatim>\<open>x.encode_raknet(dst)?;\<close> statements: what they append, or the first error.\<close>

fun put_all :: "encoded list \<Rightarrow> encoded" where
  "put_all [] = Inr []"
| "put_all (e # es) =
     (case e of Inl x \<Rightarrow> Inl x
      | Inr bs \<Rightarrow> (case put_all es of Inl x \<Rightarrow> Inl x | Inr bs' \<Rightarrow> Inr (bs @ bs')))"

text \<open>\<^verbatim>\<open>opt.ok_or(err)?.encode_raknet(dst)?\<close>\<close>

definition put_req :: "EncodeError \<Rightarrow> ('a \<Rightarrow> encoded) \<Rightarrow> 'a option \<Rightarrow> encoded" where
  "put_req err enc x = (case x of None \<Rightarrow> Inl err | Some v \<Rightarrow> enc v)"

lemma dret_simps [simp, codec_simps]: "dret x src = Inr (x, src)"
  by (simp add: dret_def)

lemma dfail_simps [simp, codec_simps]: "dfail e src = Inl e"
  by (simp add: dfail_def)

lemma dbind_Inr [codec_simps]: "p src = Inr (x, src') \<Longrightarrow> dbind p f src = f x src'"
  by (simp add: dbind_def)

lemma dbind_Inl [codec_simps]: "p src = Inl e \<Longrightarrow> dbind p f src = Inl e"
  by (simp add: dbind_def)

lemma dbind_eq_Inr:
  "dbind p f src = Inr r \<longleftrightarrow> (\<exists>x src'. p src = Inr (x, src') \<and> f x src' = Inr r)"
  by (auto simp: dbind_def split: sum.splits)

lemma dbind_dret [simp]: "dbind (dret x) f = f x"
  by (rule ext) (simp add: dbind_def)

lemma dbind_assoc: "dbind (dbind p f) g = dbind p (\<lambda>x. dbind (f x) g)"
  by (rule ext) (auto simp: dbind_def split: sum.splits)

lemma dmap_eq_Inr: "dmap f p src = Inr (y, r) \<longleftrightarrow> (\<exists>x. p src = Inr (x, r) \<and> y = f x)"
  by (auto simp: dmap_def dbind_eq_Inr)

lemma dmap_Inr [codec_simps]: "p src = Inr (x, r) \<Longrightarrow> dmap f p src = Inr (f x, r)"
  by (auto simp: dmap_eq_Inr)

lemma dopt_simps [simp]:
  "dopt True p = dmap Some p"
  "dopt False p = dret None"
  by (simp_all add: dopt_def)

lemma dtake_append [simp, codec_simps]: "length xs = n \<Longrightarrow> dtake n (xs @ rest) = Inr (xs, rest)"
  by (simp add: dtake_def)

lemma dtake_eq_Inr: "dtake n src = Inr (xs, rest) \<longleftrightarrow> src = xs @ rest \<and> length xs = n"
proof
  assume "dtake n src = Inr (xs, rest)"
  then have "\<not> length src < n" and "xs = take n src" and "rest = drop n src"
    by (auto simp: dtake_def split: if_splits)
  then show "src = xs @ rest \<and> length xs = n" by simp
next
  assume "src = xs @ rest \<and> length xs = n"
  then show "dtake n src = Inr (xs, rest)" by simp
qed

lemma put_all_Cons_eq_Inr:
  "put_all (e # es) = Inr bs \<longleftrightarrow> (\<exists>a b. e = Inr a \<and> put_all es = Inr b \<and> bs = a @ b)"
  by (auto split: sum.splits)

lemma put_all_append:
  "put_all (es @ es') = put_all [put_all es, put_all es']"
  by (induction es) (auto split: sum.splits)

lemma put_all_concat: "put_all (map Inr bss) = Inr (concat bss)"
  by (induction bss) auto

text \<open>Known widths of the parts give the width of the whole.\<close>

lemma put_all_length:
  "list_all2 (\<lambda>e n. \<forall>b. e = Inr b \<longrightarrow> length b = n) es ns \<Longrightarrow> put_all es = Inr bs \<Longrightarrow>
     length bs = sum_list ns"
  by (induction es ns arbitrary: bs rule: list_all2_induct) (auto split: sum.splits)

lemma put_req_eq_Inr [simp]:
  "put_req err enc x = Inr bs \<longleftrightarrow> (\<exists>v. x = Some v \<and> enc v = Inr bs)"
  by (simp add: put_req_def split: option.split)

section \<open>The contract of the trait RaknetCodec\<close>

text \<open>
  \<open>ok\<close> is the set of values the wire format can represent.  The round-trip law is stated
  with an arbitrary continuation, so that codecs compose; the consumption law says a
  successful decode reads a non-empty prefix and leaves the rest untouched.
\<close>

locale raknet_codec =
  fixes ok :: "'a \<Rightarrow> bool"
    and enc :: "'a \<Rightarrow> encoded"
    and dec :: "'a decoder"
  assumes enc_dec: "ok x \<Longrightarrow> enc x = Inr bs \<Longrightarrow> dec (bs @ rest) = Inr (x, rest)"
    and dec_consumes: "dec src = Inr (x, rest) \<Longrightarrow> \<exists>used. src = used @ rest \<and> used \<noteq> []"
begin

lemma dec_shorter: "dec src = Inr (x, rest) \<Longrightarrow> length rest < length src"
  using dec_consumes by fastforce

lemma enc_nonempty: "ok x \<Longrightarrow> enc x = Inr bs \<Longrightarrow> bs \<noteq> []"
  using dec_shorter [of "bs @ []"] enc_dec [of x bs "[]"] by fastforce

lemma enc_prefix_free:
  assumes "ok x" and "ok y" and "enc x = Inr bs" and "enc y = Inr (bs @ tl_bs)"
  shows "x = y \<and> tl_bs = []"
proof -
  have "dec (bs @ tl_bs) = Inr (x, tl_bs)" using assms(1,3) by (rule enc_dec)
  moreover have "dec (bs @ tl_bs) = Inr (y, [])" using enc_dec [OF assms(2,4), of "[]"] by simp
  ultimately show ?thesis by simp
qed

lemma enc_inj: "ok x \<Longrightarrow> ok y \<Longrightarrow> enc x = Inr bs \<Longrightarrow> enc y = Inr bs \<Longrightarrow> x = y"
  using enc_prefix_free [of x y bs "[]"] by simp

lemma enc_dbind:
  "ok x \<Longrightarrow> enc x = Inr bs \<Longrightarrow> dbind dec f (bs @ rest) = f x rest"
  by (simp add: dbind_Inr enc_dec)

lemma enc_dopt:
  "ok x \<Longrightarrow> enc x = Inr bs \<Longrightarrow> dopt True dec (bs @ rest) = Inr (Some x, rest)"
  by (simp add: dmap_Inr enc_dec)

lemma dtimes_enc:
  "list_all ok xs \<Longrightarrow> put_all (map enc xs) = Inr bs \<Longrightarrow>
     dtimes (length xs) dec (bs @ rest) = Inr (xs, rest)"
proof (induction xs arbitrary: bs)
  case Nil
  then show ?case by simp
next
  case (Cons x xs)
  then obtain a b where ab: "enc x = Inr a" "put_all (map enc xs) = Inr b" "bs = a @ b"
    by (auto split: sum.splits)
  with Cons have "dec (a @ b @ rest) = Inr (x, b @ rest)" by (simp add: enc_dec)
  with Cons ab show ?case by (simp add: dbind_Inr)
qed

lemma dtimes_consumes:
  "dtimes n dec src = Inr (xs, rest) \<Longrightarrow>
     length xs = n \<and> (\<exists>used. src = used @ rest \<and> n \<le> length used)"
proof (induction n arbitrary: src xs)
  case 0
  then show ?case by simp
next
  case (Suc n)
  then obtain x src' ys where x: "dec src = Inr (x, src')"
    and ys: "dtimes n dec src' = Inr (ys, rest)" and xs: "xs = x # ys"
    by (auto simp: dbind_eq_Inr)
  from dec_consumes [OF x] obtain u where "src = u @ src'" "u \<noteq> []" by blast
  moreover from Suc.IH [OF ys] obtain v where "length ys = n" "src' = v @ rest" "n \<le> length v"
    by blast
  ultimately show ?case
    by (intro conjI exI [of _ "u @ v"]) (auto simp: xs Suc_le_eq neq_Nil_conv)
qed

end

section \<open>Lists and finite runs\<close>

lemma sum_list_map_le: "x \<in> set xs \<Longrightarrow> (f x :: nat) \<le> sum_list (map f xs)"
  by (induction xs) auto

end
