(* ===== verification/HashMap.thy ===== *)
theory HashMap
  imports Prelude "HOL-Library.AList"
begin

text \<open>
  A \<^verbatim>\<open>HashMap\<close> of the transport is an association list with distinct keys, whose order stands for the
  unspecified order of iteration: \<open>AList.update\<close> is \<^verbatim>\<open>insert\<close>, \<open>AList.delete\<close> is \<^verbatim>\<open>remove\<close>, and a filter is
  \<^verbatim>\<open>retain\<close>.  These are the lemmas its users share.
\<close>

abbreviation keys_distinct :: "('k \<times> 'v) list \<Rightarrow> bool" where
  "keys_distinct m \<equiv> distinct (map fst m)"

abbreviation retain :: "('v \<Rightarrow> bool) \<Rightarrow> ('k \<times> 'v) list \<Rightarrow> ('k \<times> 'v) list" where
  "retain P m \<equiv> filter (\<lambda>(_, v). P v) m"

lemma keys_distinct_retain [simp]: "keys_distinct m \<Longrightarrow> keys_distinct (filter P m)"
  by (simp add: distinct_map_filter)

lemma map_of_retain:
  "keys_distinct m \<Longrightarrow> map_of (retain P m) k = (case map_of m k of Some v \<Rightarrow> if P v then Some v else None | None \<Rightarrow> None)"
  by (induction m) (auto simp: map_of_eq_None_iff rev_image_eqI split: option.splits)

lemma map_of_retain_subset: "keys_distinct m \<Longrightarrow> map_of (retain P m) k = Some v \<Longrightarrow> map_of m k = Some v \<and> P v"
  by (simp add: map_of_retain split: option.splits if_splits)

lemma update_map_of: "map_of (AList.update k v m) k' = (if k' = k then Some v else map_of m k')"
  by (simp add: update_conv')

lemma delete_map_of: "map_of (AList.delete k m) k' = (if k' = k then None else map_of m k')"
  by (simp add: delete_conv')

lemma keys_distinct_update [simp]: "keys_distinct m \<Longrightarrow> keys_distinct (AList.update k v m)"
  by (simp add: distinct_update)

lemma keys_distinct_delete [simp]: "keys_distinct m \<Longrightarrow> keys_distinct (AList.delete k m)"
  by (simp add: distinct_delete)

lemma length_update: "length (AList.update k v m) = (if map_of m k = None then Suc (length m) else length m)"
  by (induction m) auto

lemma length_delete: "length (AList.delete k m) \<le> length m"
  by (simp add: AList.delete_eq)

end
