(* ===== verification/Primitives.thy ===== *)
theory Primitives
  imports Prelude
begin

text \<open>
  \<^verbatim>\<open>src/protocol/primitives.rs\<close> and \<^verbatim>\<open>src/protocol/constants.rs\<close>: the codecs of the scalar
  fields (24-bit little-endian, booleans, big-endian integers of every width), of the 16-byte
  magic and of socket addresses, each an instance of the contract \<open>raknet_codec\<close>.
\<close>

section \<open>Constants\<close>

definition RAKNET_PROTOCOL_VERSION :: u8 where "RAKNET_PROTOCOL_VERSION = 11"
definition MINIMUM_MTU_SIZE :: u16 where "MINIMUM_MTU_SIZE = 576"
definition MAXIMUM_MTU_SIZE :: u16 where "MAXIMUM_MTU_SIZE = 1400"
definition MAX_ACK_SEQUENCES :: u16 where "MAX_ACK_SEQUENCES = 8192"
definition MAX_SPLIT_PARTS :: u32 where "MAX_SPLIT_PARTS = 8192"
definition SPLIT_REASSEMBLY_TTL_MS :: nat where "SPLIT_REASSEMBLY_TTL_MS = 30000"
definition MAX_INFLIGHT_SPLIT_COMPOUNDS_PER_PEER :: usize where
  "MAX_INFLIGHT_SPLIT_COMPOUNDS_PER_PEER = 256"
definition RAKNET_DATAGRAM_HEADER_SIZE :: usize where "RAKNET_DATAGRAM_HEADER_SIZE = 4"

type_synonym Magic = bytes

definition DEFAULT_UNCONNECTED_MAGIC :: Magic where
  "DEFAULT_UNCONNECTED_MAGIC =
     [0x00, 0xFF, 0xFF, 0x00, 0xFE, 0xFE, 0xFE, 0xFE,
      0xFD, 0xFD, 0xFD, 0xFD, 0x12, 0x34, 0x56, 0x78]"

section \<open>Big-endian integers\<close>

text \<open>\<^verbatim>\<open>put_uN\<close> / \<^verbatim>\<open>get_uN\<close> of the \<^verbatim>\<open>bytes\<close> buffers: most significant byte first.\<close>

fun be_bytes :: "nat \<Rightarrow> 'a::len word \<Rightarrow> bytes" where
  "be_bytes 0 w = []"
| "be_bytes (Suc n) w = be_bytes n (drop_bit 8 w) @ [ucast w]"

definition of_be :: "bytes \<Rightarrow> 'a::len word" where
  "of_be bs = foldl (\<lambda>acc b. push_bit 8 acc OR ucast b) 0 bs"

lemma length_be_bytes [simp]: "length (be_bytes n w) = n"
  by (induction n arbitrary: w) auto

lemma be_bytes_eq_Nil [simp]: "be_bytes n w = [] \<longleftrightarrow> n = 0"
  by (cases n) auto

lemma of_be_snoc: "of_be (bs @ [b]) = push_bit 8 (of_be bs) OR ucast b"
  by (simp add: of_be_def)

lemma of_be_be_bytes_take: "of_be (be_bytes n w) = take_bit (8 * n) w"
proof (induction n arbitrary: w)
  case 0
  then show ?case by (simp add: of_be_def)
next
  case (Suc n)
  have "push_bit 8 (take_bit (8 * n) (drop_bit 8 w)) OR ucast (ucast w :: u8) = take_bit (8 * Suc n) w"
    by (rule bit_word_eqI)
      (auto simp: bit_simps not_less)
  with Suc show ?case by (simp add: of_be_snoc)
qed

lemma of_be_be_bytes [simp]:
  "LENGTH('a) \<le> 8 * n \<Longrightarrow> of_be (be_bytes n (w :: 'a::len word)) = w"
  by (simp add: of_be_be_bytes_take take_bit_word_eq_self)

text \<open>\<^verbatim>\<open>impl_codec_be_int!\<close> for a type of \<open>n\<close> bytes.\<close>

definition be_encode :: "nat \<Rightarrow> 'a::len word \<Rightarrow> encoded" where
  "be_encode n w = Inr (be_bytes n w)"

definition be_decode :: "nat \<Rightarrow> 'a::len word decoder" where
  "be_decode n src =
     (if length src < n then Inl UnexpectedEof else Inr (of_be (take n src), drop n src))"

definition u8_encode :: "u8 \<Rightarrow> encoded" where "u8_encode = be_encode 1"
definition u8_decode :: "u8 decoder" where "u8_decode = be_decode 1"
definition u16_encode :: "u16 \<Rightarrow> encoded" where "u16_encode = be_encode 2"
definition u16_decode :: "u16 decoder" where "u16_decode = be_decode 2"
definition u32_encode :: "u32 \<Rightarrow> encoded" where "u32_encode = be_encode 4"
definition u32_decode :: "u32 decoder" where "u32_decode = be_decode 4"
definition u64_encode :: "u64 \<Rightarrow> encoded" where "u64_encode = be_encode 8"
definition u64_decode :: "u64 decoder" where "u64_decode = be_decode 8"
definition i64_encode :: "i64 \<Rightarrow> encoded" where "i64_encode = be_encode 8"
definition i64_decode :: "i64 decoder" where "i64_decode = be_decode 8"

lemmas int_codec_defs =
  u8_encode_def u8_decode_def u16_encode_def u16_decode_def u32_encode_def u32_decode_def
  u64_encode_def u64_decode_def i64_encode_def i64_decode_def

lemma be_codec:
  assumes "0 < n" and "LENGTH('a) \<le> 8 * n"
  shows "raknet_codec (\<lambda>_. True) (be_encode n :: 'a::len word \<Rightarrow> encoded) (be_decode n)"
proof
  fix x :: "'a word" and bs rest
  assume "be_encode n x = Inr bs"
  then have "bs = be_bytes n x" by (simp add: be_encode_def)
  then show "be_decode n (bs @ rest) = Inr (x, rest)"
    using assms(2) by (simp add: be_decode_def)
next
  fix src rest and x :: "'a word"
  assume "be_decode n src = Inr (x, rest)"
  then have "n \<le> length src" and "rest = drop n src"
    by (auto simp: be_decode_def split: if_splits)
  then show "\<exists>used. src = used @ rest \<and> used \<noteq> []"
    using assms(1) by (intro exI [of _ "take n src"]) auto
qed

interpretation u8c: raknet_codec "\<lambda>_. True" u8_encode u8_decode
  unfolding int_codec_defs by (rule be_codec) simp_all

interpretation u16c: raknet_codec "\<lambda>_. True" u16_encode u16_decode
  unfolding int_codec_defs by (rule be_codec) simp_all

interpretation u32c: raknet_codec "\<lambda>_. True" u32_encode u32_decode
  unfolding int_codec_defs by (rule be_codec) simp_all

interpretation u64c: raknet_codec "\<lambda>_. True" u64_encode u64_decode
  unfolding int_codec_defs by (rule be_codec) simp_all

interpretation i64c: raknet_codec "\<lambda>_. True" i64_encode i64_decode
  unfolding int_codec_defs by (rule be_codec) simp_all

lemma u8_encode_eq [simp, codec_simps]: "u8_encode b = Inr [b]"
  by (simp add: int_codec_defs be_encode_def numeral_eq_Suc)

lemma u8_decode_Cons [simp, codec_simps]: "u8_decode (b # rest) = Inr (b, rest)"
  using u8c.enc_dec [of b "[b]" rest] by simp

lemma u8_decode_Nil [simp, codec_simps]: "u8_decode [] = Inl UnexpectedEof"
  by (simp add: int_codec_defs be_decode_def)

text \<open>The bytes an integer field puts on the wire.\<close>

lemma int_encode_eq:
  "u16_encode a = Inr (be_bytes 2 a)"
  "u32_encode b = Inr (be_bytes 4 b)"
  "u64_encode c = Inr (be_bytes 8 c)"
  "i64_encode d = Inr (be_bytes 8 d)"
  by (simp_all add: int_codec_defs be_encode_def)

lemma int_decode_append [simp, codec_simps]:
  "u16_decode (be_bytes 2 a @ rest) = Inr (a, rest)"
  "u32_decode (be_bytes 4 b @ rest) = Inr (b, rest)"
  "u64_decode (be_bytes 8 c @ rest) = Inr (c, rest)"
  "i64_decode (be_bytes 8 d @ rest) = Inr (d, rest)"
  by (simp_all add: u16c.enc_dec u32c.enc_dec u64c.enc_dec i64c.enc_dec int_encode_eq)

section \<open>24-bit little-endian integers, booleans and the magic\<close>

definition u24le_encode :: "u32 \<Rightarrow> encoded" where
  "u24le_encode w =
     (let v = w AND 0x00FFFFFF
      in Inr [ucast (v AND 0xFF), ucast (drop_bit 8 v AND 0xFF), ucast (drop_bit 16 v AND 0xFF)])"

definition u24le_decode :: "u32 decoder" where
  "u24le_decode src =
     (if length src < 3 then Inl UnexpectedEof
      else Inr (ucast (src ! 0) OR push_bit 8 (ucast (src ! 1)) OR push_bit 16 (ucast (src ! 2)),
                drop 3 src))"

lemma u24le_roundtrip:
  fixes w :: u32
  defines "v \<equiv> w AND 0x00FFFFFF"
  shows "ucast (ucast (v AND 0xFF) :: u8) OR push_bit 8 (ucast (ucast (drop_bit 8 v AND 0xFF) :: u8))
         OR push_bit 16 (ucast (ucast (drop_bit 16 v AND 0xFF) :: u8)) = v"
proof (rule bit_word_eqI)
  fix n
  assume n: "n < LENGTH(32)"
  have m: "(0xFF :: u32) = mask 8" "(0x00FFFFFF :: u32) = mask 24"
    by (simp_all add: mask_eq_exp_minus_1)
  show "bit (ucast (ucast (v AND 0xFF) :: u8) OR push_bit 8 (ucast (ucast (drop_bit 8 v AND 0xFF) :: u8))
         OR push_bit 16 (ucast (ucast (drop_bit 16 v AND 0xFF) :: u8)) :: u32) n = bit v n"
    unfolding v_def m using n by (cases "n < 16") (auto simp: bit_simps not_less)
qed

interpretation u24c: raknet_codec "\<lambda>w. w AND 0x00FFFFFF = w" u24le_encode u24le_decode
proof
  fix x :: u32 and bs rest
  assume "x AND 0x00FFFFFF = x" "u24le_encode x = Inr bs"
  then show "u24le_decode (bs @ rest) = Inr (x, rest)"
    using u24le_roundtrip [of x] by (auto simp: u24le_encode_def u24le_decode_def Let_def)
next
  fix src rest and x :: u32
  assume "u24le_decode src = Inr (x, rest)"
  then have "3 \<le> length src" "rest = drop 3 src"
    by (auto simp: u24le_decode_def split: if_splits)
  then show "\<exists>used. src = used @ rest \<and> used \<noteq> []"
    by (intro exI [of _ "take 3 src"]) auto
qed

definition bool_encode :: "bool \<Rightarrow> encoded" where
  "bool_encode b = Inr [if b then 1 else 0]"

definition bool_decode :: "bool decoder" where
  "bool_decode src = (case src of [] \<Rightarrow> Inl UnexpectedEof | b # rest \<Rightarrow> Inr (b = 1, rest))"

interpretation boolc: raknet_codec "\<lambda>_. True" bool_encode bool_decode
  by unfold_locales (auto simp: bool_encode_def bool_decode_def split: list.splits if_splits)

lemma bool_decode_Cons [simp, codec_simps]: "bool_decode (b # rest) = Inr (b = 1, rest)"
  by (simp add: bool_decode_def)

definition magic_encode :: "Magic \<Rightarrow> encoded" where
  "magic_encode m = Inr m"

definition magic_decode :: "Magic decoder" where
  "magic_decode = dtake 16"

interpretation magicc: raknet_codec "\<lambda>m. length m = 16" magic_encode magic_decode
proof
  show "magic_decode (bs @ rest) = Inr (x, rest)"
    if "length x = 16" "magic_encode x = Inr bs" for x bs rest
    using that by (simp add: magic_encode_def magic_decode_def)
  show "\<exists>used. src = used @ rest \<and> used \<noteq> []" if "magic_decode src = Inr (x, rest)" for src x rest
    using that by (auto simp: magic_decode_def dtake_eq_Inr)
qed

section \<open>Socket addresses\<close>

text \<open>
  \<^verbatim>\<open>SocketAddr\<close>: four octets and a port, or sixteen octets, port, flow info and scope id.
\<close>

datatype SocketAddr =
    V4 u8 u8 u8 u8 u16
  | V6 bytes u16 u32 u32

fun addr_ok :: "SocketAddr \<Rightarrow> bool" where
  "addr_ok (V4 _ _ _ _ _) = True"
| "addr_ok (V6 ip _ _ _) = (length ip = 16)"

fun socket_addr_encode :: "SocketAddr \<Rightarrow> encoded" where
  "socket_addr_encode (V4 a b c d port) =
     Inr ([4, NOT a, NOT b, NOT c, NOT d] @ be_bytes 2 port)"
| "socket_addr_encode (V6 ip port flowinfo scope_id) =
     Inr ([6] @ [23, 0] @ be_bytes 2 port @ be_bytes 4 flowinfo @ ip @ be_bytes 4 scope_id)"

definition socket_addr_decode :: "SocketAddr decoder" where
  "socket_addr_decode src =
     (case src of
        [] \<Rightarrow> Inl UnexpectedEof
      | version # src \<Rightarrow>
          if version = 4 then
            (if length src < 6 then Inl UnexpectedEof
             else Inr (V4 (NOT (src ! 0)) (NOT (src ! 1)) (NOT (src ! 2)) (NOT (src ! 3))
                          (of_be (take 2 (drop 4 src))), drop 6 src))
          else if version = 6 then
            (if length src < 28 then Inl UnexpectedEof
             else Inr (V6 (take 16 (drop 8 src)) (of_be (take 2 (drop 2 src)))
                          (of_be (take 4 (drop 4 src))) (of_be (take 4 (drop 24 src))),
                       drop 28 src))
          else Inl (InvalidAddrVersion version))"

lemma socket_addr_enc_dec:
  "addr_ok x \<Longrightarrow> socket_addr_encode x = Inr bs \<Longrightarrow> socket_addr_decode (bs @ rest) = Inr (x, rest)"
  by (cases x) (auto simp: socket_addr_decode_def)

lemma socket_addr_dec_used:
  assumes "socket_addr_decode src = Inr (x, rest)"
  shows "\<exists>used. src = used @ rest \<and> length used = (case x of V4 _ _ _ _ _ \<Rightarrow> 7 | V6 _ _ _ _ \<Rightarrow> 29)
           \<and> addr_ok x"
proof -
  from assms obtain version s where src: "src = version # s"
    by (auto simp: socket_addr_decode_def split: list.splits)
  have "\<exists>n. rest = drop n s \<and> n \<le> length s \<and> Suc n = (case x of V4 _ _ _ _ _ \<Rightarrow> 7 | V6 _ _ _ _ \<Rightarrow> 29)
          \<and> addr_ok x"
    using assms by (auto simp: socket_addr_decode_def src split: if_splits)
  then obtain n where "rest = drop n s" "n \<le> length s"
    "Suc n = (case x of V4 _ _ _ _ _ \<Rightarrow> 7 | V6 _ _ _ _ \<Rightarrow> 29)" "addr_ok x" by blast
  then show ?thesis
    by (intro exI [of _ "version # take n s"]) (auto simp: src)
qed

interpretation addrc: raknet_codec addr_ok socket_addr_encode socket_addr_decode
proof
  show "socket_addr_decode (bs @ rest) = Inr (x, rest)"
    if "addr_ok x" "socket_addr_encode x = Inr bs" for x bs rest
    using that by (rule socket_addr_enc_dec)
  show "\<exists>used. src = used @ rest \<and> used \<noteq> []"
    if "socket_addr_decode src = Inr (x, rest)" for src x rest
    using socket_addr_dec_used [OF that] by (fastforce split: SocketAddr.splits)
qed

lemma socket_addr_encode_length:
  "addr_ok x \<Longrightarrow> socket_addr_encode x = Inr bs \<Longrightarrow>
     length bs = (case x of V4 _ _ _ _ _ \<Rightarrow> 7 | V6 _ _ _ _ \<Rightarrow> 29)"
  by (cases x) auto

lemma socket_addr_encode_total: "\<exists>bs. socket_addr_encode x = Inr bs"
  by (cases x) auto

end
