(* ===== verification/Tunables.thy ===== *)
theory Tunables
  imports Primitives
begin

text \<open>
  \<^verbatim>\<open>src/session/tunables.rs\<close>: the tuning parameters of a session, the profiles that override them and
  their validation.  A configured \<^verbatim>\<open>f64\<close> is a real number, an infinity or NaN, with the comparisons
  of IEEE 754, so that the validation is modelled for every value a caller can pass.
\<close>

section \<open>Configured floating-point values\<close>

datatype f64 = Fin real | PosInf | NegInf | NaN

fun f_is_finite :: "f64 \<Rightarrow> bool" where
  "f_is_finite (Fin _) = True"
| "f_is_finite _ = False"

fun f_lt :: "f64 \<Rightarrow> f64 \<Rightarrow> bool" where
  "f_lt (Fin a) (Fin b) = (a < b)"
| "f_lt (Fin a) PosInf = True"
| "f_lt NegInf (Fin b) = True"
| "f_lt NegInf PosInf = True"
| "f_lt _ _ = False"

definition f_le :: "f64 \<Rightarrow> f64 \<Rightarrow> bool" where
  "f_le a b \<longleftrightarrow> f_lt a b \<or> (a = b \<and> a \<noteq> NaN)"

section \<open>Profiles and parameters\<close>

datatype AckNackFlushProfile = LowLatency | Balanced | Throughput | CustomFlush
datatype AckNackPriority = NackFirst | AckFirst
datatype BackpressureMode = Delay | Shed | Disconnect
datatype CongestionProfile = Conservative | HighLatency | CustomCongestion

record AckNackFlushSettings =
  af_ack_flush_interval :: Duration
  af_nack_flush_interval :: Duration
  af_ack_max_ranges_per_datagram :: usize
  af_nack_max_ranges_per_datagram :: usize
  af_ack_nack_priority :: AckNackPriority

record CongestionSettings =
  cg_resend_rto :: Duration
  cg_min_resend_rto :: Duration
  cg_max_resend_rto :: Duration
  cg_initial_congestion_window :: f64
  cg_min_congestion_window :: f64
  cg_max_congestion_window :: f64
  cg_slow_start_threshold :: f64
  cg_additive_gain :: f64
  cg_multiplicative_decrease_nack :: f64
  cg_multiplicative_decrease_timeout :: f64
  cg_high_rtt_threshold_ms :: f64
  cg_high_rtt_additive_scale :: f64
  cg_nack_backoff_cooldown :: Duration

fun flush_profile_settings :: "AckNackFlushProfile \<Rightarrow> AckNackFlushSettings" where
  "flush_profile_settings LowLatency =
     \<lparr>af_ack_flush_interval = millis 4, af_nack_flush_interval = millis 1,
      af_ack_max_ranges_per_datagram = 24, af_nack_max_ranges_per_datagram = 64,
      af_ack_nack_priority = NackFirst\<rparr>"
| "flush_profile_settings Balanced =
     \<lparr>af_ack_flush_interval = millis 10, af_nack_flush_interval = millis 2,
      af_ack_max_ranges_per_datagram = 48, af_nack_max_ranges_per_datagram = 96,
      af_ack_nack_priority = NackFirst\<rparr>"
| "flush_profile_settings Throughput =
     \<lparr>af_ack_flush_interval = millis 24, af_nack_flush_interval = millis 4,
      af_ack_max_ranges_per_datagram = 96, af_nack_max_ranges_per_datagram = 128,
      af_ack_nack_priority = NackFirst\<rparr>"
| "flush_profile_settings CustomFlush =
     \<lparr>af_ack_flush_interval = millis 10, af_nack_flush_interval = millis 2,
      af_ack_max_ranges_per_datagram = 48, af_nack_max_ranges_per_datagram = 96,
      af_ack_nack_priority = NackFirst\<rparr>"

fun congestion_profile_settings :: "CongestionProfile \<Rightarrow> CongestionSettings" where
  "congestion_profile_settings HighLatency =
     \<lparr>cg_resend_rto = millis 350, cg_min_resend_rto = millis 120, cg_max_resend_rto = millis 3000,
      cg_initial_congestion_window = Fin 48, cg_min_congestion_window = Fin 8,
      cg_max_congestion_window = Fin 768, cg_slow_start_threshold = Fin 96,
      cg_additive_gain = Fin 0.85, cg_multiplicative_decrease_nack = Fin 0.92,
      cg_multiplicative_decrease_timeout = Fin 0.75, cg_high_rtt_threshold_ms = Fin 140,
      cg_high_rtt_additive_scale = Fin 0.85, cg_nack_backoff_cooldown = millis 100\<rparr>"
| "congestion_profile_settings _ =
     \<lparr>cg_resend_rto = millis 250, cg_min_resend_rto = millis 80, cg_max_resend_rto = millis 2000,
      cg_initial_congestion_window = Fin 64, cg_min_congestion_window = Fin 8,
      cg_max_congestion_window = Fin 1024, cg_slow_start_threshold = Fin 128,
      cg_additive_gain = Fin 1, cg_multiplicative_decrease_nack = Fin 0.85,
      cg_multiplicative_decrease_timeout = Fin 0.6, cg_high_rtt_threshold_ms = Fin 180,
      cg_high_rtt_additive_scale = Fin 0.6, cg_nack_backoff_cooldown = millis 50\<rparr>"

record SessionTunables =
  tun_ack_nack_flush_profile :: AckNackFlushProfile
  tun_congestion_profile :: CongestionProfile
  tun_ack_flush_interval :: Duration
  tun_nack_flush_interval :: Duration
  tun_ack_max_ranges_per_datagram :: usize
  tun_nack_max_ranges_per_datagram :: usize
  tun_ack_nack_priority :: AckNackPriority
  tun_ack_queue_capacity :: usize
  tun_backpressure_mode :: BackpressureMode
  tun_reliable_window :: usize
  tun_split_ttl :: Duration
  tun_max_split_parts :: u32
  tun_max_concurrent_splits :: usize
  tun_max_ordering_channels :: usize
  tun_max_ordered_pending_per_channel :: usize
  tun_max_order_gap :: u32
  tun_resend_rto :: Duration
  tun_min_resend_rto :: Duration
  tun_max_resend_rto :: Duration
  tun_initial_congestion_window :: f64
  tun_min_congestion_window :: f64
  tun_max_congestion_window :: f64
  tun_slow_start_threshold :: f64
  tun_additive_gain :: f64
  tun_multiplicative_decrease_nack :: f64
  tun_multiplicative_decrease_timeout :: f64
  tun_high_rtt_threshold_ms :: f64
  tun_high_rtt_additive_scale :: f64
  tun_nack_backoff_cooldown :: Duration
  tun_pacing_enabled :: bool
  tun_pacing_start_full :: bool
  tun_pacing_gain :: f64
  tun_pacing_min_rate_bytes_per_sec :: f64
  tun_pacing_max_rate_bytes_per_sec :: f64
  tun_pacing_max_burst_bytes :: usize
  tun_outgoing_queue_max_frames :: usize
  tun_outgoing_queue_max_bytes :: usize
  tun_outgoing_queue_soft_ratio :: f64
  tun_best_effort_zeroize_dropped_payloads :: bool

definition tunables_default :: SessionTunables where
  "tunables_default =
     (let af = flush_profile_settings Balanced; cg = congestion_profile_settings Conservative
      in \<lparr>tun_ack_nack_flush_profile = Balanced,
          tun_congestion_profile = Conservative,
          tun_ack_flush_interval = af_ack_flush_interval af,
          tun_nack_flush_interval = af_nack_flush_interval af,
          tun_ack_max_ranges_per_datagram = af_ack_max_ranges_per_datagram af,
          tun_nack_max_ranges_per_datagram = af_nack_max_ranges_per_datagram af,
          tun_ack_nack_priority = af_ack_nack_priority af,
          tun_ack_queue_capacity = 1024,
          tun_backpressure_mode = Shed,
          tun_reliable_window = unat MAX_ACK_SEQUENCES,
          tun_split_ttl = millis SPLIT_REASSEMBLY_TTL_MS,
          tun_max_split_parts = MAX_SPLIT_PARTS,
          tun_max_concurrent_splits = MAX_INFLIGHT_SPLIT_COMPOUNDS_PER_PEER,
          tun_max_ordering_channels = 16,
          tun_max_ordered_pending_per_channel = 2048,
          tun_max_order_gap = ucast MAX_ACK_SEQUENCES,
          tun_resend_rto = cg_resend_rto cg,
          tun_min_resend_rto = cg_min_resend_rto cg,
          tun_max_resend_rto = cg_max_resend_rto cg,
          tun_initial_congestion_window = cg_initial_congestion_window cg,
          tun_min_congestion_window = cg_min_congestion_window cg,
          tun_max_congestion_window = cg_max_congestion_window cg,
          tun_slow_start_threshold = cg_slow_start_threshold cg,
          tun_additive_gain = cg_additive_gain cg,
          tun_multiplicative_decrease_nack = cg_multiplicative_decrease_nack cg,
          tun_multiplicative_decrease_timeout = cg_multiplicative_decrease_timeout cg,
          tun_high_rtt_threshold_ms = cg_high_rtt_threshold_ms cg,
          tun_high_rtt_additive_scale = cg_high_rtt_additive_scale cg,
          tun_nack_backoff_cooldown = cg_nack_backoff_cooldown cg,
          tun_pacing_enabled = True,
          tun_pacing_start_full = True,
          tun_pacing_gain = Fin 1,
          tun_pacing_min_rate_bytes_per_sec = Fin (24 * 1024),
          tun_pacing_max_rate_bytes_per_sec = Fin (32 * 1024 * 1024),
          tun_pacing_max_burst_bytes = 128 * 1024,
          tun_outgoing_queue_max_frames = 8192,
          tun_outgoing_queue_max_bytes = 8 * 1024 * 1024,
          tun_outgoing_queue_soft_ratio = Fin 0.85,
          tun_best_effort_zeroize_dropped_payloads = False\<rparr>)"

definition resolved_ack_nack_flush_settings :: "SessionTunables \<Rightarrow> AckNackFlushSettings" where
  "resolved_ack_nack_flush_settings t =
     (case tun_ack_nack_flush_profile t of
        CustomFlush \<Rightarrow>
          \<lparr>af_ack_flush_interval = tun_ack_flush_interval t,
           af_nack_flush_interval = tun_nack_flush_interval t,
           af_ack_max_ranges_per_datagram = tun_ack_max_ranges_per_datagram t,
           af_nack_max_ranges_per_datagram = tun_nack_max_ranges_per_datagram t,
           af_ack_nack_priority = tun_ack_nack_priority t\<rparr>
      | p \<Rightarrow> flush_profile_settings p)"

definition resolved_congestion_settings :: "SessionTunables \<Rightarrow> CongestionSettings" where
  "resolved_congestion_settings t =
     (case tun_congestion_profile t of
        CustomCongestion \<Rightarrow>
          \<lparr>cg_resend_rto = tun_resend_rto t, cg_min_resend_rto = tun_min_resend_rto t,
           cg_max_resend_rto = tun_max_resend_rto t,
           cg_initial_congestion_window = tun_initial_congestion_window t,
           cg_min_congestion_window = tun_min_congestion_window t,
           cg_max_congestion_window = tun_max_congestion_window t,
           cg_slow_start_threshold = tun_slow_start_threshold t,
           cg_additive_gain = tun_additive_gain t,
           cg_multiplicative_decrease_nack = tun_multiplicative_decrease_nack t,
           cg_multiplicative_decrease_timeout = tun_multiplicative_decrease_timeout t,
           cg_high_rtt_threshold_ms = tun_high_rtt_threshold_ms t,
           cg_high_rtt_additive_scale = tun_high_rtt_additive_scale t,
           cg_nack_backoff_cooldown = tun_nack_backoff_cooldown t\<rparr>
      | p \<Rightarrow> congestion_profile_settings p)"

section \<open>Validation\<close>

text \<open>
  \<^verbatim>\<open>validate\<close> is a run of \<^verbatim>\<open>if bad { return Err(..) }\<close>: a list of the conditions with the field and
  the message they report, of which the first that holds is the error.
\<close>

type_synonym check = "bool \<times> string \<times> string"

fun first_failure :: "string \<Rightarrow> check list \<Rightarrow> ConfigValidationError + unit" where
  "first_failure config [] = Inr ()"
| "first_failure config ((bad, field, message) # checks) =
     (if bad then Inl \<lparr>cve_config = config, cve_field = field, cve_message = message\<rparr>
      else first_failure config checks)"

definition validate_positive_f64 :: "f64 \<Rightarrow> string \<Rightarrow> check" where
  "validate_positive_f64 v field = (\<not> f_is_finite v \<or> f_le v (Fin 0), field, ''must be finite and > 0'')"

definition validate_fraction :: "f64 \<Rightarrow> string \<Rightarrow> check" where
  "validate_fraction v field =
     (\<not> f_is_finite v \<or> f_le v (Fin 0) \<or> f_le (Fin 1) v, field, ''must be finite and within (0, 1)'')"

definition flush_checks :: "AckNackFlushSettings \<Rightarrow> check list" where
  "flush_checks af =
      [(af_ack_flush_interval af = 0, ''ack_flush_interval'', ''must be > 0''),
       (af_nack_flush_interval af = 0, ''nack_flush_interval'', ''must be > 0''),
       (af_ack_max_ranges_per_datagram af = 0, ''ack_max_ranges_per_datagram'', ''must be >= 1''),
       (af_nack_max_ranges_per_datagram af = 0, ''nack_max_ranges_per_datagram'', ''must be >= 1'')]"

definition window_checks :: "SessionTunables \<Rightarrow> check list" where
  "window_checks t =
      [(tun_ack_queue_capacity t = 0, ''ack_queue_capacity'', ''must be >= 1''),
       (tun_reliable_window t = 0, ''reliable_window'', ''must be >= 1''),
       (tun_split_ttl t = 0, ''split_ttl'', ''must be > 0''),
       (tun_max_split_parts t = 0, ''max_split_parts'', ''must be >= 1''),
       (tun_max_concurrent_splits t = 0, ''max_concurrent_splits'', ''must be >= 1''),
       (tun_max_ordering_channels t = 0, ''max_ordering_channels'', ''must be >= 1''),
       (tun_max_ordered_pending_per_channel t = 0, ''max_ordered_pending_per_channel'', ''must be >= 1''),
       (tun_max_order_gap t = 0, ''max_order_gap'', ''must be >= 1'')]"

definition congestion_checks :: "CongestionSettings \<Rightarrow> check list" where
  "congestion_checks cg =
      [(cg_min_resend_rto cg = 0, ''min_resend_rto'', ''must be > 0''),
       (cg_max_resend_rto cg = 0, ''max_resend_rto'', ''must be > 0''),
       (cg_min_resend_rto cg > cg_max_resend_rto cg, ''min_resend_rto'', ''must be <= max_resend_rto''),
       (cg_resend_rto cg < cg_min_resend_rto cg \<or> cg_resend_rto cg > cg_max_resend_rto cg,
        ''resend_rto'', ''must be within [min_resend_rto, max_resend_rto]''),
       validate_positive_f64 (cg_initial_congestion_window cg) ''initial_congestion_window'',
       validate_positive_f64 (cg_min_congestion_window cg) ''min_congestion_window'',
       validate_positive_f64 (cg_max_congestion_window cg) ''max_congestion_window'',
       (f_lt (cg_max_congestion_window cg) (cg_min_congestion_window cg),
        ''min_congestion_window'', ''must be <= max_congestion_window''),
       (f_lt (cg_initial_congestion_window cg) (cg_min_congestion_window cg)
          \<or> f_lt (cg_max_congestion_window cg) (cg_initial_congestion_window cg),
        ''initial_congestion_window'', ''must be within [min_congestion_window, max_congestion_window]''),
       (f_lt (cg_slow_start_threshold cg) (cg_min_congestion_window cg)
          \<or> f_lt (cg_max_congestion_window cg) (cg_slow_start_threshold cg),
        ''congestion_slow_start_threshold'', ''must be within [min_congestion_window, max_congestion_window]''),
       validate_positive_f64 (cg_additive_gain cg) ''congestion_additive_gain'',
       validate_fraction (cg_multiplicative_decrease_nack cg) ''congestion_multiplicative_decrease_nack'',
       validate_fraction (cg_multiplicative_decrease_timeout cg) ''congestion_multiplicative_decrease_timeout'',
       validate_positive_f64 (cg_high_rtt_threshold_ms cg) ''congestion_high_rtt_threshold_ms'',
       (\<not> f_is_finite (cg_high_rtt_additive_scale cg) \<or> f_le (cg_high_rtt_additive_scale cg) (Fin 0)
          \<or> f_lt (Fin 1) (cg_high_rtt_additive_scale cg),
        ''congestion_high_rtt_additive_scale'', ''must be finite and within (0, 1]''),
       (cg_nack_backoff_cooldown cg = 0, ''congestion_nack_backoff_cooldown'', ''must be > 0'')]"

definition pacing_queue_checks :: "SessionTunables \<Rightarrow> check list" where
  "pacing_queue_checks t =
      [validate_positive_f64 (tun_pacing_gain t) ''pacing_gain'',
       validate_positive_f64 (tun_pacing_min_rate_bytes_per_sec t) ''pacing_min_rate_bytes_per_sec'',
       validate_positive_f64 (tun_pacing_max_rate_bytes_per_sec t) ''pacing_max_rate_bytes_per_sec'',
       (f_lt (tun_pacing_max_rate_bytes_per_sec t) (tun_pacing_min_rate_bytes_per_sec t),
        ''pacing_min_rate_bytes_per_sec'', ''must be <= pacing_max_rate_bytes_per_sec''),
       (tun_pacing_max_burst_bytes t = 0, ''pacing_max_burst_bytes'', ''must be >= 1''),
       (tun_outgoing_queue_max_frames t = 0, ''outgoing_queue_max_frames'', ''must be >= 1''),
       (tun_outgoing_queue_max_bytes t = 0, ''outgoing_queue_max_bytes'', ''must be >= 1''),
       (\<not> f_is_finite (tun_outgoing_queue_soft_ratio t) \<or> f_le (tun_outgoing_queue_soft_ratio t) (Fin 0)
          \<or> f_le (Fin 1) (tun_outgoing_queue_soft_ratio t),
        ''outgoing_queue_soft_ratio'', ''must be finite and within (0, 1)'')]"

definition tunables_checks :: "SessionTunables \<Rightarrow> check list" where
  "tunables_checks t =
     flush_checks (resolved_ack_nack_flush_settings t) @ window_checks t
       @ congestion_checks (resolved_congestion_settings t) @ pacing_queue_checks t"

lemmas tunables_checks_defs = tunables_checks_def flush_checks_def window_checks_def congestion_checks_def
  pacing_queue_checks_def validate_positive_f64_def validate_fraction_def

definition tunables_validate :: "SessionTunables \<Rightarrow> ConfigValidationError + unit" where
  "tunables_validate t = first_failure ''SessionTunables'' (tunables_checks t)"

lemma first_failure_Inr: "first_failure c checks = Inr () \<longleftrightarrow> list_all (\<lambda>ch. \<not> fst ch) checks"
  by (induction c checks rule: first_failure.induct) auto

text \<open>The error reported is the first failing check, and it names the configuration it was given.\<close>

lemma first_failure_Inl:
  "first_failure c checks = Inl e \<longleftrightarrow>
     (\<exists>pre field message post. checks = pre @ (True, field, message) # post
        \<and> list_all (\<lambda>ch. \<not> fst ch) pre \<and> e = \<lparr>cve_config = c, cve_field = field, cve_message = message\<rparr>)"
proof (induction checks)
  case (Cons ch checks)
  obtain bad field message where ch: "ch = (bad, field, message)" by (cases ch)
  show ?case
  proof (cases bad)
    case True
    have "ch # checks = [] @ (True, field, message) # checks" using True by (simp add: ch)
    then show ?thesis using True by (fastforce simp: ch Cons_eq_append_conv)
  next
    case False
    have "(\<exists>pre f m post. ch # checks = pre @ (True, f, m) # post \<and> list_all (\<lambda>ch. \<not> fst ch) pre
            \<and> e = \<lparr>cve_config = c, cve_field = f, cve_message = m\<rparr>) \<longleftrightarrow>
          (\<exists>pre f m post. checks = pre @ (True, f, m) # post \<and> list_all (\<lambda>ch. \<not> fst ch) pre
            \<and> e = \<lparr>cve_config = c, cve_field = f, cve_message = m\<rparr>)"
      using False by (fastforce simp: ch Cons_eq_append_conv)
    with False Cons show ?thesis by (simp add: ch)
  qed
qed simp

lemma tunables_default_valid: "tunables_validate tunables_default = Inr ()"
  by (simp add: tunables_validate_def first_failure_Inr tunables_checks_defs tunables_default_def Let_def
      resolved_ack_nack_flush_settings_def resolved_congestion_settings_def f_le_def millis_def MAX_ACK_SEQUENCES_def SPLIT_REASSEMBLY_TTL_MS_def
      MAX_SPLIT_PARTS_def MAX_INFLIGHT_SPLIT_COMPOUNDS_PER_PEER_def)

lemma tunables_valid_iff: "tunables_validate t = Inr () \<longleftrightarrow> list_all (\<lambda>ch. \<not> fst ch) (tunables_checks t)"
  by (simp add: tunables_validate_def first_failure_Inr)

text \<open>The validation does not look at whether the slow-start threshold is a number: with NaN in its
  place every valid set of tunables stays valid.\<close>

theorem nan_threshold_accepted:
  assumes "tunables_validate t = Inr ()"
  shows "tunables_validate (t\<lparr>tun_slow_start_threshold := NaN\<rparr>) = Inr ()"
proof -
  let ?t = "t\<lparr>tun_slow_start_threshold := NaN\<rparr>"
  have same: "resolved_ack_nack_flush_settings ?t = resolved_ack_nack_flush_settings t"
    "window_checks ?t = window_checks t" "pacing_queue_checks ?t = pacing_queue_checks t"
    by (simp_all add: resolved_ack_nack_flush_settings_def window_checks_def pacing_queue_checks_def
        split: AckNackFlushProfile.splits)
  have "list_all (\<lambda>ch. \<not> fst ch) (congestion_checks (resolved_congestion_settings ?t))"
  proof (cases "tun_congestion_profile t = CustomCongestion")
    case True
    then have "resolved_congestion_settings ?t = (resolved_congestion_settings t)\<lparr>cg_slow_start_threshold := NaN\<rparr>"
      by (simp add: resolved_congestion_settings_def)
    with assms show ?thesis
      by (simp add: tunables_valid_iff tunables_checks_def congestion_checks_def validate_positive_f64_def validate_fraction_def)
  next
    case False
    then have "resolved_congestion_settings ?t = resolved_congestion_settings t"
      by (auto simp: resolved_congestion_settings_def split: CongestionProfile.splits)
    with assms show ?thesis by (simp add: tunables_valid_iff tunables_checks_def)
  qed
  with assms same show ?thesis by (simp add: tunables_valid_iff tunables_checks_def)
qed

theorem nan_threshold_accepted_witness:
  "tunables_validate (tunables_default\<lparr>tun_slow_start_threshold := NaN\<rparr>) = Inr ()"
  by (rule nan_threshold_accepted) (rule tunables_default_valid)

end
