(* ===== verification/Handshake.thy ===== *)
theory Handshake
  imports Primitives
begin

text \<open>
  \<^verbatim>\<open>src/handshake/\<close>: the packets exchanged before a session exists (pings, the two rounds of the
  open-connection exchange and the refusals), their wire format and the magic that marks them.
  The lemmas show that every packet the encoder accepts decodes to itself, that nothing is
  accepted without the expected magic, and that the two strict layouts of the second request
  exclude each other.
\<close>

section \<open>Packets\<close>

definition ID_UNCONNECTED_PING :: u8 where "ID_UNCONNECTED_PING = 0x01"
definition ID_UNCONNECTED_PING_OPEN_CONNECTIONS :: u8 where "ID_UNCONNECTED_PING_OPEN_CONNECTIONS = 0x02"
definition ID_UNCONNECTED_PONG :: u8 where "ID_UNCONNECTED_PONG = 0x1C"
definition ID_OPEN_CONNECTION_REQUEST_1 :: u8 where "ID_OPEN_CONNECTION_REQUEST_1 = 0x05"
definition ID_OPEN_CONNECTION_REPLY_1 :: u8 where "ID_OPEN_CONNECTION_REPLY_1 = 0x06"
definition ID_OPEN_CONNECTION_REQUEST_2 :: u8 where "ID_OPEN_CONNECTION_REQUEST_2 = 0x07"
definition ID_OPEN_CONNECTION_REPLY_2 :: u8 where "ID_OPEN_CONNECTION_REPLY_2 = 0x08"
definition ID_CONNECTION_REQUEST_FAILED :: u8 where "ID_CONNECTION_REQUEST_FAILED = 0x11"
definition ID_ALREADY_CONNECTED :: u8 where "ID_ALREADY_CONNECTED = 0x12"
definition ID_NO_FREE_INCOMING_CONNECTIONS :: u8 where "ID_NO_FREE_INCOMING_CONNECTIONS = 0x14"
definition ID_CONNECTION_BANNED :: u8 where "ID_CONNECTION_BANNED = 0x17"
definition ID_INCOMPATIBLE_PROTOCOL_VERSION :: u8 where "ID_INCOMPATIBLE_PROTOCOL_VERSION = 0x19"
definition ID_IP_RECENTLY_CONNECTED :: u8 where "ID_IP_RECENTLY_CONNECTED = 0x1A"

lemmas offline_id_defs =
  ID_UNCONNECTED_PING_def ID_UNCONNECTED_PING_OPEN_CONNECTIONS_def ID_UNCONNECTED_PONG_def
  ID_OPEN_CONNECTION_REQUEST_1_def ID_OPEN_CONNECTION_REPLY_1_def ID_OPEN_CONNECTION_REQUEST_2_def
  ID_OPEN_CONNECTION_REPLY_2_def ID_CONNECTION_REQUEST_FAILED_def ID_ALREADY_CONNECTED_def
  ID_NO_FREE_INCOMING_CONNECTIONS_def ID_CONNECTION_BANNED_def ID_INCOMPATIBLE_PROTOCOL_VERSION_def
  ID_IP_RECENTLY_CONNECTED_def

record UnconnectedPing =
  up_ping_time :: i64
  up_client_guid :: u64
  up_magic :: Magic

record UnconnectedPong =
  upo_ping_time :: i64
  upo_server_guid :: u64
  upo_magic :: Magic
  upo_motd :: bytes

record OpenConnectionRequest1 =
  rq1_protocol_version :: u8
  rq1_mtu :: u16
  rq1_magic :: Magic

record OpenConnectionReply1 =
  rp1_server_guid :: u64
  rp1_mtu :: u16
  rp1_cookie :: "u32 option"
  rp1_magic :: Magic

datatype Request2ParsePath =
  StrictNoCookie | StrictWithCookie | AmbiguousPreferredNoCookie | AmbiguousPreferredWithCookie | LegacyHeuristic

record OpenConnectionRequest2 =
  rq2_server_addr :: SocketAddr
  rq2_mtu :: u16
  rq2_client_guid :: u64
  rq2_cookie :: "u32 option"
  rq2_client_proof :: bool
  rq2_parse_path :: Request2ParsePath
  rq2_magic :: Magic

record OpenConnectionReply2 =
  rp2_server_guid :: u64
  rp2_server_addr :: SocketAddr
  rp2_mtu :: u16
  rp2_use_encryption :: bool
  rp2_magic :: Magic

record IncompatibleProtocolVersion =
  ipv_protocol_version :: u8
  ipv_server_guid :: u64
  ipv_magic :: Magic

text \<open>The five refusals have the same two fields.\<close>

record RejectPacket =
  rj_server_guid :: u64
  rj_magic :: Magic

datatype OfflinePacket =
    PUnconnectedPing UnconnectedPing
  | PUnconnectedPingOpenConnections UnconnectedPing
  | PUnconnectedPong UnconnectedPong
  | POpenConnectionRequest1 OpenConnectionRequest1
  | POpenConnectionReply1 OpenConnectionReply1
  | POpenConnectionRequest2 OpenConnectionRequest2
  | POpenConnectionReply2 OpenConnectionReply2
  | PIncompatibleProtocolVersion IncompatibleProtocolVersion
  | PConnectionRequestFailed RejectPacket
  | PAlreadyConnected RejectPacket
  | PNoFreeIncomingConnections RejectPacket
  | PConnectionBanned RejectPacket
  | PIpRecentlyConnected RejectPacket

fun offline_packet_id :: "OfflinePacket \<Rightarrow> u8" where
  "offline_packet_id (PUnconnectedPing _) = ID_UNCONNECTED_PING"
| "offline_packet_id (PUnconnectedPingOpenConnections _) = ID_UNCONNECTED_PING_OPEN_CONNECTIONS"
| "offline_packet_id (PUnconnectedPong _) = ID_UNCONNECTED_PONG"
| "offline_packet_id (POpenConnectionRequest1 _) = ID_OPEN_CONNECTION_REQUEST_1"
| "offline_packet_id (POpenConnectionReply1 _) = ID_OPEN_CONNECTION_REPLY_1"
| "offline_packet_id (POpenConnectionRequest2 _) = ID_OPEN_CONNECTION_REQUEST_2"
| "offline_packet_id (POpenConnectionReply2 _) = ID_OPEN_CONNECTION_REPLY_2"
| "offline_packet_id (PIncompatibleProtocolVersion _) = ID_INCOMPATIBLE_PROTOCOL_VERSION"
| "offline_packet_id (PConnectionRequestFailed _) = ID_CONNECTION_REQUEST_FAILED"
| "offline_packet_id (PAlreadyConnected _) = ID_ALREADY_CONNECTED"
| "offline_packet_id (PNoFreeIncomingConnections _) = ID_NO_FREE_INCOMING_CONNECTIONS"
| "offline_packet_id (PConnectionBanned _) = ID_CONNECTION_BANNED"
| "offline_packet_id (PIpRecentlyConnected _) = ID_IP_RECENTLY_CONNECTED"

section \<open>Encoding\<close>

definition MAX_UNCONNECTED_PONG_MOTD_BYTES :: usize where "MAX_UNCONNECTED_PONG_MOTD_BYTES = 32767"

definition validate_mtu :: "u16 \<Rightarrow> EncodeError + unit" where
  "validate_mtu mtu = (if \<not> (MINIMUM_MTU_SIZE \<le> mtu \<and> mtu \<le> MAXIMUM_MTU_SIZE) then Inl (InvalidMtu mtu) else Inr ())"

definition validate_unconnected_pong_motd_len :: "usize \<Rightarrow> EncodeError + unit" where
  "validate_unconnected_pong_motd_len len =
     (if len > MAX_UNCONNECTED_PONG_MOTD_BYTES then Inl (OfflinePongMotdTooLong len) else Inr ())"

text \<open>A check between two writes: it writes nothing, or it fails.\<close>

definition put_check :: "EncodeError + unit \<Rightarrow> encoded" where
  "put_check r = (case r of Inl e \<Rightarrow> Inl e | Inr _ \<Rightarrow> Inr [])"

text \<open>\<^verbatim>\<open>u16::try_from(len)\<close>, mapped to the same error as the length check before it.\<close>

definition put_motd_len :: "usize \<Rightarrow> encoded" where
  "put_motd_len len = (if len < 65536 then u16_encode (of_nat len) else Inl (OfflinePongMotdTooLong len))"

fun offline_body :: "OfflinePacket \<Rightarrow> encoded list" where
  "offline_body (PUnconnectedPing p) = [i64_encode (up_ping_time p), magic_encode (up_magic p), u64_encode (up_client_guid p)]"
| "offline_body (PUnconnectedPingOpenConnections p) =
     [i64_encode (up_ping_time p), magic_encode (up_magic p), u64_encode (up_client_guid p)]"
| "offline_body (PUnconnectedPong p) =
     [i64_encode (upo_ping_time p), u64_encode (upo_server_guid p), magic_encode (upo_magic p),
      put_check (validate_unconnected_pong_motd_len (length (upo_motd p))),
      put_motd_len (length (upo_motd p)), Inr (upo_motd p)]"
| "offline_body (POpenConnectionRequest1 p) =
     [put_check (validate_mtu (rq1_mtu p)), magic_encode (rq1_magic p), u8_encode (rq1_protocol_version p),
      Inr (replicate (unat (rq1_mtu p) - 18) 0)]"
| "offline_body (POpenConnectionReply1 p) =
     [put_check (validate_mtu (rp1_mtu p)), magic_encode (rp1_magic p), u64_encode (rp1_server_guid p),
      bool_encode (rp1_cookie p \<noteq> None)]
     @ (case rp1_cookie p of Some cookie \<Rightarrow> [u32_encode cookie] | None \<Rightarrow> [])
     @ [u16_encode (rp1_mtu p)]"
| "offline_body (POpenConnectionRequest2 p) =
     [put_check (validate_mtu (rq2_mtu p)), magic_encode (rq2_magic p)]
     @ (case rq2_cookie p of Some cookie \<Rightarrow> [u32_encode cookie, bool_encode (rq2_client_proof p)] | None \<Rightarrow> [])
     @ [socket_addr_encode (rq2_server_addr p), u16_encode (rq2_mtu p), u64_encode (rq2_client_guid p)]"
| "offline_body (POpenConnectionReply2 p) =
     [put_check (validate_mtu (rp2_mtu p)), magic_encode (rp2_magic p), u64_encode (rp2_server_guid p),
      socket_addr_encode (rp2_server_addr p), u16_encode (rp2_mtu p), bool_encode (rp2_use_encryption p)]"
| "offline_body (PIncompatibleProtocolVersion p) =
     [u8_encode (ipv_protocol_version p), magic_encode (ipv_magic p), u64_encode (ipv_server_guid p)]"
| "offline_body (PConnectionRequestFailed p) = [magic_encode (rj_magic p), u64_encode (rj_server_guid p)]"
| "offline_body (PAlreadyConnected p) = [magic_encode (rj_magic p), u64_encode (rj_server_guid p)]"
| "offline_body (PNoFreeIncomingConnections p) = [magic_encode (rj_magic p), u64_encode (rj_server_guid p)]"
| "offline_body (PConnectionBanned p) = [magic_encode (rj_magic p), u64_encode (rj_server_guid p)]"
| "offline_body (PIpRecentlyConnected p) = [magic_encode (rj_magic p), u64_encode (rj_server_guid p)]"

definition offline_encode :: "OfflinePacket \<Rightarrow> encoded" where
  "offline_encode p = put_all (u8_encode (offline_packet_id p) # offline_body p)"

section \<open>Decoding\<close>

definition validate_magic :: "Magic \<Rightarrow> Magic \<Rightarrow> DecodeError + Magic" where
  "validate_magic magic expected_magic = (if magic \<noteq> expected_magic then Inl InvalidMagic else Inr magic)"

text \<open>\<^verbatim>\<open>super::validate_magic(Magic::decode_raknet(src)?, expected_magic)?\<close>\<close>

definition expect_magic :: "Magic \<Rightarrow> Magic decoder" where
  "expect_magic expected =
     dbind magic_decode (\<lambda>m. case validate_magic m expected of Inl e \<Rightarrow> dfail e | Inr m' \<Rightarrow> dret m')"

definition decode_ping :: "Magic \<Rightarrow> UnconnectedPing decoder" where
  "decode_ping expected =
     dbind i64_decode (\<lambda>ping_time. dbind (expect_magic expected) (\<lambda>magic. dbind u64_decode (\<lambda>client_guid.
       dret \<lparr>up_ping_time = ping_time, up_client_guid = client_guid, up_magic = magic\<rparr>)))"

definition decode_pong :: "Magic \<Rightarrow> UnconnectedPong decoder" where
  "decode_pong expected =
     dbind i64_decode (\<lambda>ping_time. dbind u64_decode (\<lambda>server_guid. dbind (expect_magic expected) (\<lambda>magic.
     dbind u16_decode (\<lambda>motd_len. dbind (dtake (unat motd_len)) (\<lambda>motd.
       dret \<lparr>upo_ping_time = ping_time, upo_server_guid = server_guid, upo_magic = magic, upo_motd = motd\<rparr>)))))"

definition decode_request_1 :: "Magic \<Rightarrow> OpenConnectionRequest1 decoder" where
  "decode_request_1 expected =
     dbind (expect_magic expected) (\<lambda>magic. dbind u8_decode (\<lambda>protocol_version. (\<lambda>src.
       let padding_len = length src; mtu = of_nat (padding_len + 18)
       in Inr (\<lparr>rq1_protocol_version = protocol_version, rq1_mtu = mtu, rq1_magic = magic\<rparr>, []))))"

definition decode_reply_1 :: "Magic \<Rightarrow> OpenConnectionReply1 decoder" where
  "decode_reply_1 expected =
     dbind (expect_magic expected) (\<lambda>magic. dbind u64_decode (\<lambda>server_guid. dbind bool_decode (\<lambda>has_cookie.
     dbind (dopt has_cookie u32_decode) (\<lambda>cookie. dbind u16_decode (\<lambda>mtu.
       dret \<lparr>rp1_server_guid = server_guid, rp1_mtu = mtu, rp1_cookie = cookie, rp1_magic = magic\<rparr>)))))"

record Request2Candidate =
  rc_server_addr :: SocketAddr
  rc_mtu :: u16
  rc_client_guid :: u64
  rc_cookie :: "u32 option"
  rc_client_proof :: bool

definition into_request :: "Request2Candidate \<Rightarrow> Magic \<Rightarrow> Request2ParsePath \<Rightarrow> OpenConnectionRequest2" where
  "into_request c magic parse_path =
     \<lparr>rq2_server_addr = rc_server_addr c, rq2_mtu = rc_mtu c, rq2_client_guid = rc_client_guid c,
      rq2_cookie = rc_cookie c, rq2_client_proof = rc_client_proof c, rq2_parse_path = parse_path, rq2_magic = magic\<rparr>"

text \<open>The fields after the cookie, which must end the body.\<close>

definition parse_request_2_tail :: "bytes \<Rightarrow> u32 option \<Rightarrow> bool \<Rightarrow> DecodeError + Request2Candidate" where
  "parse_request_2_tail body cookie client_proof =
     (case dbind socket_addr_decode (\<lambda>a. dbind u16_decode (\<lambda>m. dbind u64_decode (\<lambda>g. dret (a, m, g)))) body of
        Inl e \<Rightarrow> Inl e
      | Inr ((server_addr, mtu, client_guid), rest) \<Rightarrow>
          if rest \<noteq> [] then Inl InvalidRequest2Layout
          else Inr \<lparr>rc_server_addr = server_addr, rc_mtu = mtu, rc_client_guid = client_guid,
                    rc_cookie = cookie, rc_client_proof = client_proof\<rparr>)"

definition parse_request_2_candidate :: "bytes \<Rightarrow> bool \<Rightarrow> bool \<Rightarrow> DecodeError + Request2Candidate" where
  "parse_request_2_candidate body with_cookie strict_bool =
     (if with_cookie then
        (if length body < 5 then Inl UnexpectedEof
         else let cookie = of_be (take 4 body); raw_proof = body ! 4
              in if strict_bool \<and> raw_proof > 1 then Inl InvalidRequest2Layout
                 else parse_request_2_tail (drop 5 body) (Some cookie) (raw_proof = 1))
      else parse_request_2_tail body None False)"

definition parse_request_2_legacy :: "bytes \<Rightarrow> DecodeError + Request2Candidate" where
  "parse_request_2_legacy body =
     (let with_cookie = (case body of first # _ \<Rightarrow> first \<noteq> 4 \<and> first \<noteq> 6 | [] \<Rightarrow> False)
      in parse_request_2_candidate body with_cookie False)"

definition decode_request_2 :: "Magic \<Rightarrow> OpenConnectionRequest2 decoder" where
  "decode_request_2 expected =
     dbind (expect_magic expected) (\<lambda>magic body.
       let strict_no_cookie = parse_request_2_candidate body False True;
           strict_with_cookie = parse_request_2_candidate body True True
       in case (strict_no_cookie, strict_with_cookie) of
            (Inr candidate, Inl _) \<Rightarrow> Inr (into_request candidate magic StrictNoCookie, [])
          | (Inl _, Inr candidate) \<Rightarrow> Inr (into_request candidate magic StrictWithCookie, [])
          | (Inr no_cookie, Inr with_cookie) \<Rightarrow>
              (let first_is_version = (case body of first # _ \<Rightarrow> first = 4 \<or> first = 6 | [] \<Rightarrow> False)
               in if first_is_version
                  then Inr (into_request no_cookie magic AmbiguousPreferredNoCookie, [])
                  else Inr (into_request with_cookie magic AmbiguousPreferredWithCookie, []))
          | (Inl _, Inl _) \<Rightarrow>
              (case parse_request_2_legacy body of
                 Inl e \<Rightarrow> Inl e | Inr legacy \<Rightarrow> Inr (into_request legacy magic LegacyHeuristic, [])))"

definition decode_reply_2 :: "Magic \<Rightarrow> OpenConnectionReply2 decoder" where
  "decode_reply_2 expected =
     dbind (expect_magic expected) (\<lambda>magic. dbind u64_decode (\<lambda>server_guid. dbind socket_addr_decode (\<lambda>server_addr.
     dbind u16_decode (\<lambda>mtu. dbind bool_decode (\<lambda>use_encryption.
       dret \<lparr>rp2_server_guid = server_guid, rp2_server_addr = server_addr, rp2_mtu = mtu,
             rp2_use_encryption = use_encryption, rp2_magic = magic\<rparr>)))))"

definition decode_incompatible :: "Magic \<Rightarrow> IncompatibleProtocolVersion decoder" where
  "decode_incompatible expected =
     dbind u8_decode (\<lambda>protocol_version. dbind (expect_magic expected) (\<lambda>magic. dbind u64_decode (\<lambda>server_guid.
       dret \<lparr>ipv_protocol_version = protocol_version, ipv_server_guid = server_guid, ipv_magic = magic\<rparr>)))"

definition decode_reject_packet :: "Magic \<Rightarrow> (Magic \<times> u64) decoder" where
  "decode_reject_packet expected =
     dbind (expect_magic expected) (\<lambda>magic. dbind u64_decode (\<lambda>server_guid. dret (magic, server_guid)))"

definition reject_with :: "(RejectPacket \<Rightarrow> OfflinePacket) \<Rightarrow> Magic \<times> u64 \<Rightarrow> OfflinePacket" where
  "reject_with variant = (\<lambda>(magic, server_guid). variant \<lparr>rj_server_guid = server_guid, rj_magic = magic\<rparr>)"

definition decode_offline_packet_with_registry :: "u8 \<Rightarrow> Magic \<Rightarrow> OfflinePacket decoder" where
  "decode_offline_packet_with_registry pid expected =
     (if pid = ID_UNCONNECTED_PING then dmap PUnconnectedPing (decode_ping expected)
      else if pid = ID_UNCONNECTED_PING_OPEN_CONNECTIONS then dmap PUnconnectedPingOpenConnections (decode_ping expected)
      else if pid = ID_UNCONNECTED_PONG then dmap PUnconnectedPong (decode_pong expected)
      else if pid = ID_OPEN_CONNECTION_REQUEST_1 then dmap POpenConnectionRequest1 (decode_request_1 expected)
      else if pid = ID_OPEN_CONNECTION_REPLY_1 then dmap POpenConnectionReply1 (decode_reply_1 expected)
      else if pid = ID_OPEN_CONNECTION_REQUEST_2 then dmap POpenConnectionRequest2 (decode_request_2 expected)
      else if pid = ID_OPEN_CONNECTION_REPLY_2 then dmap POpenConnectionReply2 (decode_reply_2 expected)
      else if pid = ID_INCOMPATIBLE_PROTOCOL_VERSION then dmap PIncompatibleProtocolVersion (decode_incompatible expected)
      else if pid = ID_CONNECTION_REQUEST_FAILED then dmap (reject_with PConnectionRequestFailed) (decode_reject_packet expected)
      else if pid = ID_ALREADY_CONNECTED then dmap (reject_with PAlreadyConnected) (decode_reject_packet expected)
      else if pid = ID_NO_FREE_INCOMING_CONNECTIONS then dmap (reject_with PNoFreeIncomingConnections) (decode_reject_packet expected)
      else if pid = ID_CONNECTION_BANNED then dmap (reject_with PConnectionBanned) (decode_reject_packet expected)
      else if pid = ID_IP_RECENTLY_CONNECTED then dmap (reject_with PIpRecentlyConnected) (decode_reject_packet expected)
      else dfail (InvalidOfflinePacketId pid))"

definition offline_decode_with_magic :: "Magic \<Rightarrow> OfflinePacket decoder" where
  "offline_decode_with_magic expected =
     dbind u8_decode (\<lambda>pid. decode_offline_packet_with_registry pid expected)"

definition offline_decode :: "OfflinePacket decoder" where
  "offline_decode = offline_decode_with_magic DEFAULT_UNCONNECTED_MAGIC"

section \<open>What the decoder accepts\<close>

fun offline_magic :: "OfflinePacket \<Rightarrow> Magic" where
  "offline_magic (PUnconnectedPing p) = up_magic p"
| "offline_magic (PUnconnectedPingOpenConnections p) = up_magic p"
| "offline_magic (PUnconnectedPong p) = upo_magic p"
| "offline_magic (POpenConnectionRequest1 p) = rq1_magic p"
| "offline_magic (POpenConnectionReply1 p) = rp1_magic p"
| "offline_magic (POpenConnectionRequest2 p) = rq2_magic p"
| "offline_magic (POpenConnectionReply2 p) = rp2_magic p"
| "offline_magic (PIncompatibleProtocolVersion p) = ipv_magic p"
| "offline_magic (PConnectionRequestFailed p) = rj_magic p"
| "offline_magic (PAlreadyConnected p) = rj_magic p"
| "offline_magic (PNoFreeIncomingConnections p) = rj_magic p"
| "offline_magic (PConnectionBanned p) = rj_magic p"
| "offline_magic (PIpRecentlyConnected p) = rj_magic p"

lemma expect_magic_Inr: "expect_magic m src = Inr (x, rest) \<longleftrightarrow> src = m @ rest \<and> x = m \<and> length m = 16"
  by (auto simp: expect_magic_def validate_magic_def dbind_eq_Inr magic_decode_def dtake_eq_Inr split: if_splits)

lemma expect_magic_append [codec_simps]: "length m = 16 \<Longrightarrow> expect_magic m (m @ rest) = Inr (m, rest)"
  by (simp add: expect_magic_Inr)

text \<open>The body of the second request has one of four lengths, no two of them shared by the layouts.\<close>

lemma be_decode_used: "be_decode n src = Inr (x, rest) \<Longrightarrow> length src = n + length rest"
  by (auto simp: be_decode_def split: if_splits)

lemma parse_request_2_tail_length:
  assumes "parse_request_2_tail body cookie proof = Inr c"
  shows "length body \<in> {17, 39}"
proof -
  from assms obtain a r1 m r2 g where d: "socket_addr_decode body = Inr (a, r1)"
    "u16_decode r1 = Inr (m, r2)" "u64_decode r2 = Inr (g, [])"
    by (auto simp: parse_request_2_tail_def dbind_eq_Inr split: sum.splits if_splits)
  from d(2,3) have "length r1 = 10"
    by (auto simp: int_codec_defs dest!: be_decode_used)
  with socket_addr_dec_used [OF d(1)] show ?thesis
    by (auto split: SocketAddr.splits)
qed

lemma parse_request_2_candidate_length:
  "parse_request_2_candidate body True strict = Inr c \<Longrightarrow> length body \<in> {22, 44}"
  "parse_request_2_candidate body False strict = Inr c \<Longrightarrow> length body \<in> {17, 39}"
  by (auto simp: parse_request_2_candidate_def Let_def split: if_splits dest!: parse_request_2_tail_length)

lemma strict_layouts_exclusive:
  "parse_request_2_candidate body False strict = Inr c \<Longrightarrow> parse_request_2_candidate body True strict' \<noteq> Inr c'"
  using parse_request_2_candidate_length [of body] by fastforce

definition request_2_body :: "Magic \<Rightarrow> bytes \<Rightarrow> OpenConnectionRequest2 \<Rightarrow> bool" where
  "request_2_body m body p \<longleftrightarrow>
     (\<exists>c. parse_request_2_candidate body False True = Inr c \<and> p = into_request c m StrictNoCookie) \<or>
     (\<exists>c. parse_request_2_candidate body True True = Inr c \<and> p = into_request c m StrictWithCookie) \<or>
     (\<exists>c e e'. parse_request_2_candidate body False True = Inl e \<and> parse_request_2_candidate body True True = Inl e'
        \<and> parse_request_2_legacy body = Inr c \<and> p = into_request c m LegacyHeuristic)"

lemma decode_request_2_append:
  assumes "length m = 16"
  shows "decode_request_2 m (m @ body) = Inr (p, rest) \<longleftrightarrow> rest = [] \<and> request_2_body m body p"
proof (cases "parse_request_2_candidate body False True")
  case (Inl e)
  then show ?thesis
    by (cases "parse_request_2_candidate body True True")
      (auto simp: decode_request_2_def request_2_body_def dbind_def expect_magic_append [OF assms]
        split: sum.splits)
next
  case (Inr c)
  moreover obtain e where "parse_request_2_candidate body True True = Inl e"
    using strict_layouts_exclusive [OF Inr] by (cases "parse_request_2_candidate body True True") auto
  ultimately show ?thesis
    by (auto simp: decode_request_2_def request_2_body_def dbind_def expect_magic_append [OF assms])
qed

lemma decode_request_2_eq:
  "decode_request_2 m src = Inr (p, rest) \<longleftrightarrow>
     rest = [] \<and> length m = 16 \<and> (\<exists>body. src = m @ body \<and> request_2_body m body p)"
proof -
  have "decode_request_2 m src = Inr (p, rest) \<Longrightarrow> length m = 16 \<and> (\<exists>body. src = m @ body)"
    by (auto simp: decode_request_2_def dbind_eq_Inr expect_magic_Inr)
  then show ?thesis by (metis decode_request_2_append)
qed

text \<open>
  The lenient path is reached only by a body laid out with a cookie whose proof byte is neither 0
  nor 1; the proof then counts as absent.
\<close>

lemma parse_request_2_legacy_cases:
  assumes "parse_request_2_legacy body = Inr c" and "parse_request_2_candidate body False True = Inl e"
    and "parse_request_2_candidate body True True = Inl e'"
  shows "length body \<in> {22, 44} \<and> body ! 0 \<notin> {4, 6} \<and> body ! 4 > 1
     \<and> rc_cookie c = Some (of_be (take 4 body)) \<and> \<not> rc_client_proof c"
proof -
  have strict_irrelevant: "parse_request_2_candidate body False False = parse_request_2_candidate body False True"
    by (simp add: parse_request_2_candidate_def)
  obtain b bs where body: "body = b # bs" "b \<noteq> 4" "b \<noteq> 6"
    and c: "parse_request_2_candidate body True False = Inr c"
    using assms(1,2) strict_irrelevant
    by (cases body; cases "hd body \<in> {4, 6}") (auto simp: parse_request_2_legacy_def Let_def)
  have "body ! 4 > 1"
    using c assms(3) by (auto simp: parse_request_2_candidate_def Let_def split: if_splits)
  moreover have "rc_cookie c = Some (of_be (take 4 body)) \<and> rc_client_proof c = (body ! 4 = 1)"
    using c by (auto simp: parse_request_2_candidate_def parse_request_2_tail_def Let_def split: if_splits sum.splits)
  ultimately show ?thesis
    using parse_request_2_candidate_length(1) [OF c] body by auto
qed

section \<open>Round trip\<close>

text \<open>
  Packets a sender can build: sixteen bytes of the agreed magic, well-formed addresses, and for the
  second request the fields that only the receiver sets in the form a strict parse gives them.
\<close>

fun offline_ok :: "Magic \<Rightarrow> OfflinePacket \<Rightarrow> bool" where
  "offline_ok m (POpenConnectionRequest2 p) =
     (rq2_magic p = m \<and> length m = 16 \<and> addr_ok (rq2_server_addr p) \<and>
      (case rq2_cookie p of
         None \<Rightarrow> \<not> rq2_client_proof p \<and> rq2_parse_path p = StrictNoCookie
       | Some _ \<Rightarrow> rq2_parse_path p = StrictWithCookie))"
| "offline_ok m (POpenConnectionReply2 p) = (rp2_magic p = m \<and> length m = 16 \<and> addr_ok (rp2_server_addr p))"
| "offline_ok m p = (offline_magic p = m \<and> length m = 16)"

definition mtu_ok :: "u16 \<Rightarrow> bool" where
  "mtu_ok mtu \<longleftrightarrow> MINIMUM_MTU_SIZE \<le> mtu \<and> mtu \<le> MAXIMUM_MTU_SIZE"

fun offline_valid :: "OfflinePacket \<Rightarrow> bool" where
  "offline_valid (PUnconnectedPong p) = (length (upo_motd p) \<le> MAX_UNCONNECTED_PONG_MOTD_BYTES)"
| "offline_valid (POpenConnectionRequest1 p) = mtu_ok (rq1_mtu p)"
| "offline_valid (POpenConnectionReply1 p) = mtu_ok (rp1_mtu p)"
| "offline_valid (POpenConnectionRequest2 p) = mtu_ok (rq2_mtu p)"
| "offline_valid (POpenConnectionReply2 p) = mtu_ok (rp2_mtu p)"
| "offline_valid _ = True"

lemma put_check_simps [simp]:
  "put_check (Inl e) = Inl e" "put_check (Inr u) = Inr []"
  by (simp_all add: put_check_def)

lemma put_check_mtu: "put_check (validate_mtu m) = (if mtu_ok m then Inr [] else Inl (InvalidMtu m))"
  by (simp add: validate_mtu_def mtu_ok_def)

lemma put_motd:
  "put_check (validate_unconnected_pong_motd_len n) =
     (if n \<le> MAX_UNCONNECTED_PONG_MOTD_BYTES then Inr [] else Inl (OfflinePongMotdTooLong n))"
  "n \<le> MAX_UNCONNECTED_PONG_MOTD_BYTES \<Longrightarrow> put_motd_len n = Inr (be_bytes 2 (of_nat n :: u16))"
  by (auto simp: validate_unconnected_pong_motd_len_def put_motd_len_def MAX_UNCONNECTED_PONG_MOTD_BYTES_def int_encode_eq)

lemmas offline_codec =
  offline_encode_def int_encode_eq bool_encode_def magic_encode_def put_check_mtu put_motd

lemma offline_encode_iff: "(\<exists>bs. offline_encode p = Inr bs) \<longleftrightarrow> offline_valid p"
proof (cases p)
  case (POpenConnectionRequest2 q)
  then show ?thesis using socket_addr_encode_total [of "rq2_server_addr q"]
    by (auto simp: offline_codec split: option.splits)
next
  case (POpenConnectionReply2 q)
  then show ?thesis using socket_addr_encode_total [of "rp2_server_addr q"]
    by (auto simp: offline_codec)
qed (auto simp: offline_codec split: option.splits)


text \<open>The second request, whose receiver has to find out which layout it was sent.\<close>

lemma parse_request_2_tail_enc:
  assumes "addr_ok a" and "socket_addr_encode a = Inr ab"
  shows "parse_request_2_tail (ab @ be_bytes 2 mtu @ be_bytes 8 g) cookie proof =
     Inr \<lparr>rc_server_addr = a, rc_mtu = mtu, rc_client_guid = g, rc_cookie = cookie, rc_client_proof = proof\<rparr>"
  using addrc.enc_dec [OF assms] u64c.enc_dec [of g "be_bytes 8 g" "[]"]
  by (simp add: parse_request_2_tail_def dbind_Inr int_encode_eq)

lemma request_2_enc_dec:
  assumes ok: "offline_ok m (POpenConnectionRequest2 p)" and enc: "offline_encode (POpenConnectionRequest2 p) = Inr bs"
  shows "offline_decode_with_magic m bs = Inr (POpenConnectionRequest2 p, [])"
proof -
  let ?a = "rq2_server_addr p"
  obtain ab where a: "socket_addr_encode ?a = Inr ab" using socket_addr_encode_total by blast
  have ok': "addr_ok ?a" "length m = 16" "rq2_magic p = m" using ok by simp_all
  define body where "body = (case rq2_cookie p of None \<Rightarrow> [] | Some c \<Rightarrow> be_bytes 4 c @ [if rq2_client_proof p then 1 else 0])
     @ ab @ be_bytes 2 (rq2_mtu p) @ be_bytes 8 (rq2_client_guid p)"
  have bs: "bs = ID_OPEN_CONNECTION_REQUEST_2 # m @ body"
    using enc a ok'(3) by (auto simp: offline_codec body_def split: option.splits if_splits)
  have "request_2_body m body p"
  proof (cases "rq2_cookie p")
    case None
    then have "p = into_request \<lparr>rc_server_addr = ?a, rc_mtu = rq2_mtu p, rc_client_guid = rq2_client_guid p,
        rc_cookie = None, rc_client_proof = False\<rparr> m StrictNoCookie"
      using ok by (simp add: into_request_def)
    then show ?thesis
      using parse_request_2_tail_enc [OF ok'(1) a, of "rq2_mtu p" "rq2_client_guid p" None False] None
      unfolding request_2_body_def body_def by (auto simp: parse_request_2_candidate_def)
  next
    case (Some c)
    then have "p = into_request \<lparr>rc_server_addr = ?a, rc_mtu = rq2_mtu p, rc_client_guid = rq2_client_guid p,
        rc_cookie = Some c, rc_client_proof = rq2_client_proof p\<rparr> m StrictWithCookie"
      using ok by (simp add: into_request_def)
    then show ?thesis
      using parse_request_2_tail_enc [OF ok'(1) a, of "rq2_mtu p" "rq2_client_guid p" "Some c" "rq2_client_proof p"] Some
      unfolding request_2_body_def body_def
      by (auto simp: parse_request_2_candidate_def nth_append Let_def)
  qed
  then have "decode_request_2 m (m @ body) = Inr (p, [])"
    using decode_request_2_append [OF ok'(2)] by simp
  then show ?thesis
    by (simp add: bs offline_decode_with_magic_def dbind_Inr decode_offline_packet_with_registry_def
        offline_id_defs dmap_Inr)
qed

lemmas offline_decoders =
  offline_decode_with_magic_def decode_offline_packet_with_registry_def decode_ping_def decode_pong_def
  decode_request_1_def decode_reply_1_def decode_reply_2_def decode_incompatible_def decode_reject_packet_def reject_with_def

lemma u64_decode_end: "u64_decode (be_bytes 8 g) = Inr (g, [])"
  using int_decode_append(3) [of g "[]"] by simp

lemma u16_decode_end: "u16_decode (be_bytes 2 g) = Inr (g, [])"
  using int_decode_append(1) [of g "[]"] by simp

lemma offline_enc_dec:
  assumes ok: "offline_ok m p" and enc: "offline_encode p = Inr bs"
  shows "offline_decode_with_magic m bs = Inr (p, [])"
proof (cases p)
  case (POpenConnectionRequest2 q)
  with request_2_enc_dec [of m q bs] assms show ?thesis by simp
next
  case (PUnconnectedPong q)
  then have "length (upo_motd q) \<le> 32767"
    using enc offline_encode_iff [of p] by (auto simp: MAX_UNCONNECTED_PONG_MOTD_BYTES_def)
  then have "unat (of_nat (length (upo_motd q)) :: u16) = length (upo_motd q)"
    by (simp add: unat_of_nat take_bit_eq_mod)
  with PUnconnectedPong ok enc show ?thesis
    by (auto simp: offline_codec offline_decoders dbind_Inr dmap_Inr expect_magic_append offline_id_defs
        dtake_def split: if_splits)
next
  case (POpenConnectionRequest1 q)
  then have "mtu_ok (rq1_mtu q)" using enc offline_encode_iff [of p] by auto
  then have "18 \<le> unat (rq1_mtu q)"
    by (auto simp: mtu_ok_def MINIMUM_MTU_SIZE_def word_le_nat_alt)
  with POpenConnectionRequest1 ok enc show ?thesis
    by (auto simp: offline_codec offline_decoders dbind_Inr dmap_Inr expect_magic_append offline_id_defs
        split: if_splits)
next
  case (POpenConnectionReply2 q)
  obtain ab where a: "socket_addr_encode (rp2_server_addr q) = Inr ab" using socket_addr_encode_total by blast
  have "addr_ok (rp2_server_addr q)" using ok POpenConnectionReply2 by simp
  note d = addrc.enc_dec [OF this a]
  from POpenConnectionReply2 ok enc show ?thesis
    by (auto simp: offline_codec offline_decoders a d dbind_Inr dmap_Inr expect_magic_append offline_id_defs
        split: if_splits)
next
  case (POpenConnectionReply1 q)
  with ok enc show ?thesis
    by (cases "rp1_cookie q")
      (auto simp: offline_codec offline_decoders dbind_def dmap_def expect_magic_append offline_id_defs
        u16_decode_end split: if_splits)
qed (use assms in \<open>auto simp: offline_codec offline_decoders dbind_Inr dmap_Inr expect_magic_append
       offline_id_defs u64_decode_end u16_decode_end split: if_splits option.splits\<close>)

lemma offline_decode_magic:
  "offline_decode_with_magic m src = Inr (p, rest) \<Longrightarrow> offline_magic p = m"
  unfolding offline_decode_with_magic_def decode_offline_packet_with_registry_def
  by (auto simp: dbind_eq_Inr dmap_eq_Inr decode_request_2_eq request_2_body_def into_request_def expect_magic_Inr
      decode_ping_def decode_pong_def decode_request_1_def decode_reply_1_def decode_reply_2_def
      decode_incompatible_def decode_reject_packet_def reject_with_def Let_def split: if_splits)

text \<open>C20: every offline packet that passes the checks of the encoder (MTU between the two limits, pong
  message of at most 32767 bytes) has an encoding, and a peer that expects its magic decodes the
  same packet from it, the second request with the parse path that matches its cookie.\<close>

theorem offline_roundtrip:
  assumes "offline_ok m p" and "offline_valid p"
  shows "\<exists>bs. offline_encode p = Inr bs \<and> offline_decode_with_magic m bs = Inr (p, [])"
  using assms offline_encode_iff [of p] offline_enc_dec [of m p] by blast

definition sample_request_2 :: OfflinePacket where
  "sample_request_2 = POpenConnectionRequest2
     \<lparr>rq2_server_addr = V4 10 0 0 1 19132, rq2_mtu = 1200, rq2_client_guid = 77, rq2_cookie = Some 0x04112233,
      rq2_client_proof = True, rq2_parse_path = StrictWithCookie, rq2_magic = DEFAULT_UNCONNECTED_MAGIC\<rparr>"

theorem offline_roundtrip_witness:
  "\<exists>bs. offline_encode sample_request_2 = Inr bs
     \<and> offline_decode_with_magic DEFAULT_UNCONNECTED_MAGIC bs = Inr (sample_request_2, [])"
  by (rule offline_roundtrip; code_simp)

lemma expect_magic_other:
  "length m = 16 \<Longrightarrow> m' \<noteq> m \<Longrightarrow> expect_magic m' (m @ rest) = Inl InvalidMagic"
  by (simp add: expect_magic_def validate_magic_def dbind_def magic_decode_def)

fun before_magic :: "OfflinePacket \<Rightarrow> bytes" where
  "before_magic (PUnconnectedPing p) = be_bytes 8 (up_ping_time p)"
| "before_magic (PUnconnectedPingOpenConnections p) = be_bytes 8 (up_ping_time p)"
| "before_magic (PUnconnectedPong p) = be_bytes 8 (upo_ping_time p) @ be_bytes 8 (upo_server_guid p)"
| "before_magic (PIncompatibleProtocolVersion p) = [ipv_protocol_version p]"
| "before_magic _ = []"

lemma offline_encode_magic:
  assumes "offline_encode p = Inr bs"
  shows "\<exists>rest. bs = offline_packet_id p # before_magic p @ offline_magic p @ rest"
  using assms by (cases p) (auto simp: offline_codec split: if_splits sum.splits)

text \<open>C32: a peer that expects another magic refuses every offline packet with \<open>InvalidMagic\<close>, for all
  thirteen packets and wherever the magic stands in them.\<close>

theorem offline_foreign_magic:
  assumes ok: "offline_ok m p" and enc: "offline_encode p = Inr bs" and m': "m' \<noteq> m"
  shows "offline_decode_with_magic m' bs = Inl InvalidMagic"
proof -
  have m: "length m = 16" "offline_magic p = m" using ok by (cases p; simp)+
  obtain rest where bs: "bs = offline_packet_id p # before_magic p @ m @ rest"
    using offline_encode_magic [OF enc] m(2) by blast
  show ?thesis
    using expect_magic_other [OF m(1) m']
    by (cases p)
      (simp_all add: bs offline_decoders decode_request_2_def dbind_def dmap_def offline_id_defs)
qed

theorem offline_foreign_magic_witness:
  "offline_decode_with_magic (replicate 16 0)
     ([ID_ALREADY_CONNECTED] @ DEFAULT_UNCONNECTED_MAGIC @ be_bytes 8 (7 :: u64)) = Inl InvalidMagic"
  by (rule offline_foreign_magic [of DEFAULT_UNCONNECTED_MAGIC
        "PAlreadyConnected \<lparr>rj_server_guid = 7, rj_magic = DEFAULT_UNCONNECTED_MAGIC\<rparr>"]) code_simp+

text \<open>The MTU read from a first open-connection request is the length of the datagram, as a 16-bit
  number, and the decoder consumes all of it.\<close>

theorem request_1_mtu:
  assumes "offline_decode_with_magic m src = Inr (POpenConnectionRequest1 p, rest)"
  shows "rq1_mtu p = of_nat (length src) \<and> rest = []"
  using assms unfolding offline_decode_with_magic_def decode_offline_packet_with_registry_def
  by (auto simp: dbind_eq_Inr dmap_eq_Inr decode_request_1_def expect_magic_Inr Let_def int_codec_defs reject_with_def
      dest!: be_decode_used split: if_splits)

theorem request_1_mtu_witness:
  "rq1_mtu \<lparr>rq1_protocol_version = 11, rq1_mtu = 20, rq1_magic = replicate 16 7\<rparr> =
     of_nat (length ([ID_OPEN_CONNECTION_REQUEST_1] @ replicate 16 7 @ [11, 0, 0])) \<and> ([] :: bytes) = []"
  by (rule request_1_mtu [of "replicate 16 7"]) code_simp

text \<open>The parse of a second open-connection request is never ambiguous: the two ambiguous paths are
  never taken, a request without cookie is one without cookie in the strict layout, and the lenient
  path is taken only for a cookie that does not start with 4 or 6 and a proof byte above 1, which
  then counts as no proof.\<close>

theorem request_2_unambiguous:
  assumes "decode_request_2 m src = Inr (p, rest)"
  shows "rq2_parse_path p \<noteq> AmbiguousPreferredNoCookie \<and> rq2_parse_path p \<noteq> AmbiguousPreferredWithCookie
     \<and> (rq2_parse_path p = StrictNoCookie \<longleftrightarrow> rq2_cookie p = None)
     \<and> (rq2_parse_path p = LegacyHeuristic \<longrightarrow> \<not> rq2_client_proof p \<and> src ! 16 \<noteq> 4 \<and> src ! 16 \<noteq> 6 \<and> src ! 20 > 1)"
proof -
  from assms obtain body where src: "src = m @ body" "length m = 16" and b: "request_2_body m body p"
    by (auto simp: decode_request_2_eq)
  have cookie: "parse_request_2_candidate body True st = Inr c \<Longrightarrow> \<exists>y. rc_cookie c = Some y"
    "parse_request_2_candidate body False st = Inr c \<Longrightarrow> rc_cookie c = None" for st c
    by (auto simp: parse_request_2_candidate_def parse_request_2_tail_def Let_def split: if_splits sum.splits)
  from b show ?thesis unfolding request_2_body_def
  proof (elim disjE exE conjE)
    fix c e e'
    assume "parse_request_2_candidate body False True = Inl e" "parse_request_2_candidate body True True = Inl e'"
      "parse_request_2_legacy body = Inr c" and p: "p = into_request c m LegacyHeuristic"
    from parse_request_2_legacy_cases [OF this(3,1,2)] show ?thesis
      using src by (auto simp: p into_request_def nth_append)
  qed (auto simp: into_request_def dest: cookie)
qed

theorem request_2_unambiguous_witness:
  "\<exists>p. decode_request_2 DEFAULT_UNCONNECTED_MAGIC
         (DEFAULT_UNCONNECTED_MAGIC @ [1, 2, 3, 4, 9, 4, 1, 2, 3, 4] @ be_bytes 2 (80 :: u16) @ be_bytes 2 (1200 :: u16) @ be_bytes 8 (5 :: u64))
       = Inr (p, []) \<and> rq2_parse_path p = LegacyHeuristic \<and> \<not> rq2_client_proof p"
proof -
  let ?src = "DEFAULT_UNCONNECTED_MAGIC @ [1, 2, 3, 4, 9, 4, 1, 2, 3, 4] @ be_bytes 2 (80 :: u16) @ be_bytes 2 (1200 :: u16) @ be_bytes 8 (5 :: u64)"
  let ?p = "\<lparr>rq2_server_addr = V4 254 253 252 251 80, rq2_mtu = 1200, rq2_client_guid = 5, rq2_cookie = Some 0x01020304,
      rq2_client_proof = False, rq2_parse_path = LegacyHeuristic, rq2_magic = DEFAULT_UNCONNECTED_MAGIC\<rparr>"
  have d: "decode_request_2 DEFAULT_UNCONNECTED_MAGIC ?src = Inr (?p, [])" by code_simp
  from request_2_unambiguous [OF d] show ?thesis using d by auto
qed

end
