(* ===== verification/TransportConfig.thy ===== *)
theory TransportConfig
  imports Tunables Handshake
begin

text \<open>
  \<^verbatim>\<open>src/transport/config.rs\<close> and \<^verbatim>\<open>src/transport/proxy.rs\<close>: the configuration of the transport server,
  its defaults and its validation, and the routes a proxy may choose.

  An \<^verbatim>\<open>IpAddr\<close> is the address part of a \<open>SocketAddr\<close>.  The advertisement, a \<^verbatim>\<open>String\<close>, is the list of
  its bytes.  The \<^verbatim>\<open>u32\<close> fields (scores, thresholds, units per second) are natural numbers; the code only
  compares them and adds them with \<^verbatim>\<open>saturating_add\<close>, which is written out.  Validation is written as in \<open>Tunables\<close>: lists of conditions with the field and the
  message they report, joined where the code validates a part with \<^verbatim>\<open>?\<close>.
\<close>

section \<open>Addresses\<close>

datatype IpAddr = IpV4 u8 u8 u8 u8 | IpV6 bytes

fun addr_ip :: "SocketAddr \<Rightarrow> IpAddr" where
  "addr_ip (V4 a b c d _) = IpV4 a b c d"
| "addr_ip (V6 ip _ _ _) = IpV6 ip"

fun addr_port :: "SocketAddr \<Rightarrow> u16" where
  "addr_port (V4 _ _ _ _ port) = port"
| "addr_port (V6 _ port _ _) = port"

definition is_unspecified :: "IpAddr \<Rightarrow> bool" where
  "is_unspecified ip \<longleftrightarrow> ip = IpV4 0 0 0 0 \<or> ip = IpV6 (replicate 16 0)"

section \<open>The configuration of a transport server\<close>

record HandshakeHeuristicsConfig =
  hh_enabled :: bool
  hh_event_window :: Duration
  hh_block_duration :: Duration
  hh_score_threshold :: nat
  hh_req1_req2_timeout_score :: nat
  hh_reply2_connect_timeout_score :: nat
  hh_missing_req1_score :: nat
  hh_cookie_mismatch_score :: nat
  hh_parse_anomaly_score :: nat

definition heuristics_default :: HandshakeHeuristicsConfig where
  "heuristics_default =
     \<lparr>hh_enabled = True, hh_event_window = secs 30, hh_block_duration = secs 30, hh_score_threshold = 16,
      hh_req1_req2_timeout_score = 4, hh_reply2_connect_timeout_score = 4, hh_missing_req1_score = 3,
      hh_cookie_mismatch_score = 6, hh_parse_anomaly_score = 2\<rparr>"

record CookieMismatchGuardConfig =
  cm_enabled :: bool
  cm_event_window :: Duration
  cm_mismatch_threshold :: nat
  cm_block_duration :: Duration

definition guard_default :: CookieMismatchGuardConfig where
  "guard_default = \<lparr>cm_enabled = True, cm_event_window = secs 20, cm_mismatch_threshold = 3, cm_block_duration = secs 30\<rparr>"

record ProcessingBudgetConfig =
  pc_enabled :: bool
  pc_per_ip_refill_units_per_sec :: nat
  pc_per_ip_burst_units :: nat
  pc_global_refill_units_per_sec :: nat
  pc_global_burst_units :: nat
  pc_bucket_idle_ttl :: Duration

definition budget_default :: ProcessingBudgetConfig where
  "budget_default =
     \<lparr>pc_enabled = True, pc_per_ip_refill_units_per_sec = 3000000, pc_per_ip_burst_units = 1500000,
      pc_global_refill_units_per_sec = 128000000, pc_global_burst_units = 32000000, pc_bucket_idle_ttl = secs 30\<rparr>"

record TransportSocketTuning =
  st_recv_buffer_size :: "usize option"
  st_send_buffer_size :: "usize option"
  st_ipv4_ttl :: "nat option"
  st_ipv4_tos :: "nat option"
  st_ipv6_unicast_hops :: "nat option"
  st_disable_ip_fragmentation :: bool

definition socket_tuning_default :: TransportSocketTuning where
  "socket_tuning_default =
     \<lparr>st_recv_buffer_size = None, st_send_buffer_size = None, st_ipv4_ttl = None, st_ipv4_tos = None,
      st_ipv6_unicast_hops = None, st_disable_ip_fragmentation = False\<rparr>"

datatype Request2ServerAddrPolicy = PolicyDisabled | PortOnly | Exact

record TransportConfig =
  tc_bind_addr :: SocketAddr
  tc_mtu :: usize
  tc_reuse_port :: bool
  tc_split_ipv4_ipv6_bind :: bool
  tc_ipv6_only :: bool
  tc_socket_tuning :: TransportSocketTuning
  tc_unconnected_magic :: Magic
  tc_server_guid :: u64
  tc_advertisement :: bytes
  tc_send_cookie :: bool
  tc_handshake_timeout :: Duration
  tc_handshake_req1_req2_timeout :: Duration
  tc_handshake_reply2_connect_timeout :: Duration
  tc_ip_recently_connected_window :: Duration
  tc_request2_server_addr_policy :: Request2ServerAddrPolicy
  tc_cookie_rotation_interval :: Duration
  tc_cookie_mismatch_guard :: CookieMismatchGuardConfig
  tc_allow_legacy_request2_fallback :: bool
  tc_reject_ambiguous_request2 :: bool
  tc_per_ip_packet_limit :: usize
  tc_global_packet_limit :: usize
  tc_rate_window :: Duration
  tc_block_duration :: Duration
  tc_processing_budget :: ProcessingBudgetConfig
  tc_max_sessions :: usize
  tc_session_idle_timeout :: Duration
  tc_session_keepalive_interval :: Duration
  tc_unhandled_queue_max_frames :: usize
  tc_unhandled_queue_max_bytes :: usize
  tc_handshake_heuristics :: HandshakeHeuristicsConfig
  tc_session_tunables :: SessionTunables
  tc_rate_limit_exceptions :: "IpAddr list"
  tc_supported_protocols :: "u8 list"

definition transport_config_default :: TransportConfig where
  "transport_config_default =
     \<lparr>tc_bind_addr = V4 0 0 0 0 19132, tc_mtu = unat MAXIMUM_MTU_SIZE, tc_reuse_port = True,
      tc_split_ipv4_ipv6_bind = False, tc_ipv6_only = True, tc_socket_tuning = socket_tuning_default,
      tc_unconnected_magic = DEFAULT_UNCONNECTED_MAGIC, tc_server_guid = 0xC0DECAFE12345678,
      tc_advertisement = map of_char ''MCBE Rust Engine'', tc_send_cookie = True,
      tc_handshake_timeout = secs 10, tc_handshake_req1_req2_timeout = secs 10,
      tc_handshake_reply2_connect_timeout = secs 10, tc_ip_recently_connected_window = 0,
      tc_request2_server_addr_policy = PortOnly, tc_cookie_rotation_interval = secs 120,
      tc_cookie_mismatch_guard = guard_default, tc_allow_legacy_request2_fallback = True,
      tc_reject_ambiguous_request2 = False, tc_per_ip_packet_limit = 120, tc_global_packet_limit = 100000,
      tc_rate_window = millis 10, tc_block_duration = secs 10, tc_processing_budget = budget_default,
      tc_max_sessions = 20000, tc_session_idle_timeout = secs 30, tc_session_keepalive_interval = secs 10,
      tc_unhandled_queue_max_frames = 512, tc_unhandled_queue_max_bytes = 512 * 1024,
      tc_handshake_heuristics = heuristics_default, tc_session_tunables = tunables_default,
      tc_rate_limit_exceptions = [], tc_supported_protocols = [RAKNET_PROTOCOL_VERSION]\<rparr>"

definition handshake_req1_req2_timeout :: "TransportConfig \<Rightarrow> Duration" where
  "handshake_req1_req2_timeout c =
     (if tc_handshake_req1_req2_timeout c = 0 then tc_handshake_timeout c else tc_handshake_req1_req2_timeout c)"

definition handshake_reply2_connect_timeout :: "TransportConfig \<Rightarrow> Duration" where
  "handshake_reply2_connect_timeout c =
     (if tc_handshake_reply2_connect_timeout c = 0 then tc_handshake_timeout c
      else tc_handshake_reply2_connect_timeout c)"

section \<open>Validation\<close>

text \<open>A natural number in decimal, as \<^verbatim>\<open>format!\<close> prints it.\<close>

fun show_nat :: "nat \<Rightarrow> string" where
  "show_nat n = (if n < 10 then [char_of (48 + n)] else show_nat (n div 10) @ [char_of (48 + n mod 10)])"

declare show_nat.simps [simp del]

fun and_then :: "ConfigValidationError + unit \<Rightarrow> ConfigValidationError + unit \<Rightarrow> ConfigValidationError + unit" where
  "and_then (Inl e) r = Inl e"
| "and_then (Inr _) r = r"

definition heuristics_checks :: "HandshakeHeuristicsConfig \<Rightarrow> check list" where
  "heuristics_checks h =
     [(hh_event_window h = 0, ''event_window'', ''must be > 0 when enabled''),
      (hh_block_duration h = 0, ''block_duration'', ''must be > 0 when enabled''),
      (hh_score_threshold h = 0, ''score_threshold'', ''must be >= 1 when enabled''),
      (u32_sat_add (u32_sat_add (u32_sat_add (u32_sat_add (hh_req1_req2_timeout_score h)
          (hh_reply2_connect_timeout_score h)) (hh_missing_req1_score h)) (hh_cookie_mismatch_score h))
          (hh_parse_anomaly_score h) = 0,
       ''req1_req2_timeout_score'', ''at least one heuristic score must be > 0 when enabled'')]"

definition heuristics_validate :: "HandshakeHeuristicsConfig \<Rightarrow> ConfigValidationError + unit" where
  "heuristics_validate h =
     (if \<not> hh_enabled h then Inr () else first_failure ''HandshakeHeuristicsConfig'' (heuristics_checks h))"

definition guard_validate :: "CookieMismatchGuardConfig \<Rightarrow> ConfigValidationError + unit" where
  "guard_validate g =
     (if \<not> cm_enabled g then Inr ()
      else first_failure ''CookieMismatchGuardConfig''
        [(cm_event_window g = 0, ''event_window'', ''must be > 0 when enabled''),
         (cm_mismatch_threshold g = 0, ''mismatch_threshold'', ''must be >= 1 when enabled''),
         (cm_block_duration g = 0, ''block_duration'', ''must be > 0 when enabled'')])"

definition budget_validate :: "ProcessingBudgetConfig \<Rightarrow> ConfigValidationError + unit" where
  "budget_validate b =
     (if \<not> pc_enabled b then Inr ()
      else first_failure ''ProcessingBudgetConfig''
        [(pc_per_ip_refill_units_per_sec b = 0, ''per_ip_refill_units_per_sec'', ''must be >= 1 when enabled''),
         (pc_per_ip_burst_units b = 0, ''per_ip_burst_units'', ''must be >= 1 when enabled''),
         (pc_global_refill_units_per_sec b = 0, ''global_refill_units_per_sec'', ''must be >= 1 when enabled''),
         (pc_global_burst_units b = 0, ''global_burst_units'', ''must be >= 1 when enabled''),
         (pc_bucket_idle_ttl b = 0, ''bucket_idle_ttl'', ''must be > 0 when enabled'')])"

fun some_and :: "'a option \<Rightarrow> ('a \<Rightarrow> bool) \<Rightarrow> bool" where
  "some_and None P = False"
| "some_and (Some x) P = P x"

definition socket_tuning_validate :: "TransportSocketTuning \<Rightarrow> ConfigValidationError + unit" where
  "socket_tuning_validate t =
     first_failure ''TransportSocketTuning''
       [(some_and (st_recv_buffer_size t) (\<lambda>n. n = 0), ''recv_buffer_size'', ''must be >= 1 when set''),
        (some_and (st_send_buffer_size t) (\<lambda>n. n = 0), ''send_buffer_size'', ''must be >= 1 when set''),
        (some_and (st_ipv4_ttl t) (\<lambda>ttl. ttl = 0 \<or> ttl > 255), ''ipv4_ttl'', ''must be within [1, 255] when set''),
        (some_and (st_ipv4_tos t) (\<lambda>tos. tos > 255), ''ipv4_tos'', ''must be within [0, 255] when set''),
        (some_and (st_ipv6_unicast_hops t) (\<lambda>hops. hops = 0 \<or> hops > 255), ''ipv6_unicast_hops'',
         ''must be within [1, 255] when set'')]"

definition network_checks :: "TransportConfig \<Rightarrow> check list" where
  "network_checks c =
     [(tc_mtu c < unat MINIMUM_MTU_SIZE \<or> tc_mtu c > unat MAXIMUM_MTU_SIZE, ''mtu'',
       ''must be within ['' @ show_nat (unat MINIMUM_MTU_SIZE) @ '', '' @ show_nat (unat MAXIMUM_MTU_SIZE)
         @ ''], got '' @ show_nat (tc_mtu c)),
      (handshake_req1_req2_timeout c = 0, ''handshake_req1_req2_timeout'', ''must be > 0''),
      (handshake_reply2_connect_timeout c = 0, ''handshake_reply2_connect_timeout'', ''must be > 0''),
      (tc_split_ipv4_ipv6_bind c \<and> \<not> is_unspecified (addr_ip (tc_bind_addr c)), ''split_ipv4_ipv6_bind'',
       ''requires bind_addr IP to be unspecified (0.0.0.0 or ::)''),
      (tc_split_ipv4_ipv6_bind c \<and> \<not> tc_ipv6_only c, ''ipv6_only'',
       ''must be true when split_ipv4_ipv6_bind is enabled''),
      (tc_rate_window c = 0, ''rate_window'', ''must be > 0''),
      (tc_block_duration c = 0, ''block_duration'', ''must be > 0'')]"

definition limit_checks :: "TransportConfig \<Rightarrow> check list" where
  "limit_checks c =
     [(tc_max_sessions c = 0, ''max_sessions'', ''must be >= 1''),
      (tc_session_idle_timeout c = 0, ''session_idle_timeout'', ''must be > 0''),
      (tc_session_keepalive_interval c = 0, ''session_keepalive_interval'', ''must be > 0''),
      (tc_per_ip_packet_limit c = 0, ''per_ip_packet_limit'', ''must be >= 1''),
      (tc_global_packet_limit c = 0, ''global_packet_limit'', ''must be >= 1''),
      (tc_unhandled_queue_max_frames c = 0, ''unhandled_queue_max_frames'', ''must be >= 1''),
      (tc_unhandled_queue_max_bytes c < tc_mtu c, ''unhandled_queue_max_bytes'',
       ''must be >= mtu ('' @ show_nat (tc_mtu c) @ ''), got '' @ show_nat (tc_unhandled_queue_max_bytes c)),
      (tc_supported_protocols c = [], ''supported_protocols'', ''must not be empty''),
      (length (tc_advertisement c) > MAX_UNCONNECTED_PONG_MOTD_BYTES, ''advertisement'',
       ''must be <= '' @ show_nat MAX_UNCONNECTED_PONG_MOTD_BYTES @ '' bytes, got '' @ show_nat (length (tc_advertisement c)))]"

definition config_validate :: "TransportConfig \<Rightarrow> ConfigValidationError + unit" where
  "config_validate c =
     and_then (first_failure ''TransportConfig'' (network_checks c))
      (and_then (budget_validate (tc_processing_budget c))
       (and_then (first_failure ''TransportConfig'' (limit_checks c))
        (and_then (socket_tuning_validate (tc_socket_tuning c))
         (and_then (heuristics_validate (tc_handshake_heuristics c))
          (and_then (guard_validate (tc_cookie_mismatch_guard c))
            (tunables_validate (tc_session_tunables c)))))))"

section \<open>Proxy routes\<close>

datatype InboundProxyRoute = Local SocketAddr | InboundDrop

datatype OutboundProxyRoute = Send SocketAddr | OutboundDrop

text \<open>The trait \<^verbatim>\<open>ProxyRouter\<close>; \<^verbatim>\<open>identity_router\<close> has the default methods.\<close>

record ProxyRouter =
  route_inbound :: "SocketAddr \<Rightarrow> SocketAddr \<Rightarrow> InboundProxyRoute"
  route_outbound :: "SocketAddr \<Rightarrow> SocketAddr \<Rightarrow> OutboundProxyRoute"

definition identity_router :: ProxyRouter where
  "identity_router = \<lparr>route_inbound = (\<lambda>observed_src _. Local observed_src),
     route_outbound = (\<lambda>session_addr _. Send session_addr)\<rparr>"

section \<open>What a valid configuration gives\<close>

lemma and_then_Inr [simp]: "and_then r r' = Inr () \<longleftrightarrow> r = Inr () \<and> r' = Inr ()"
  by (cases r) auto

lemmas config_checks_defs = network_checks_def limit_checks_def budget_validate_def
  socket_tuning_validate_def heuristics_validate_def heuristics_checks_def guard_validate_def

lemma config_valid_iff:
  "config_validate c = Inr () \<longleftrightarrow>
     list_all (\<lambda>ch. \<not> fst ch) (network_checks c) \<and> budget_validate (tc_processing_budget c) = Inr () \<and>
     list_all (\<lambda>ch. \<not> fst ch) (limit_checks c) \<and> socket_tuning_validate (tc_socket_tuning c) = Inr () \<and>
     heuristics_validate (tc_handshake_heuristics c) = Inr () \<and> guard_validate (tc_cookie_mismatch_guard c) = Inr () \<and>
     tunables_validate (tc_session_tunables c) = Inr ()"
  by (simp add: config_validate_def first_failure_Inr)

lemma config_valid_mtu:
  assumes "config_validate c = Inr ()"
  shows "unat MINIMUM_MTU_SIZE \<le> tc_mtu c" "tc_mtu c \<le> unat MAXIMUM_MTU_SIZE"
  using assms by (auto simp: config_valid_iff network_checks_def)

lemma config_valid_limits:
  assumes "config_validate c = Inr ()"
  shows "tc_max_sessions c \<noteq> 0" "tc_session_idle_timeout c \<noteq> 0" "length (tc_advertisement c) \<le> MAX_UNCONNECTED_PONG_MOTD_BYTES"
    "tunables_validate (tc_session_tunables c) = Inr ()"
  using assms by (auto simp: config_valid_iff limit_checks_def)

lemma transport_config_default_valid: "config_validate transport_config_default = Inr ()"
  by (simp add: config_valid_iff config_checks_defs transport_config_default_def tunables_default_valid
      MINIMUM_MTU_SIZE_def MAXIMUM_MTU_SIZE_def handshake_req1_req2_timeout_def handshake_reply2_connect_timeout_def
      secs_def millis_def budget_default_def socket_tuning_default_def heuristics_default_def guard_default_def
      MAX_UNCONNECTED_PONG_MOTD_BYTES_def u32_sat_add_def)

end
