(* ===== verification/Sequence24.thy ===== *)
theory Sequence24
  imports Primitives
begin

text \<open>
  \<^verbatim>\<open>src/protocol/sequence24.rs\<close>.  The struct \<^verbatim>\<open>Sequence24(u32)\<close> keeps its field private and every
  constructor goes through \<^verbatim>\<open>new\<close>, which masks to 24 bits; its values are therefore the
  24-bit words.  The operations are written on the 32-bit value, as in the source, and the
  lemmas give their closed forms modulo \<open>2 ^ 24\<close>.
\<close>

type_synonym Sequence24 = "24 word"

definition MODULO :: u32 where "MODULO = push_bit 24 1"
definition MASK :: u32 where "MASK = MODULO - 1"
definition HALF :: u32 where "HALF = MODULO div 2"

definition seq_new :: "u32 \<Rightarrow> Sequence24" where
  "seq_new v = ucast (v AND MASK)"

definition seq_value :: "Sequence24 \<Rightarrow> u32" where
  "seq_value s = ucast s AND MASK"

definition seq_next :: "Sequence24 \<Rightarrow> Sequence24" where
  "seq_next s = seq_new (seq_value s + 1)"

definition seq_prev :: "Sequence24 \<Rightarrow> Sequence24" where
  "seq_prev s = (if seq_value s = 0 then seq_new MASK else seq_new (seq_value s - 1))"

definition distance_to :: "Sequence24 \<Rightarrow> Sequence24 \<Rightarrow> u32" where
  "distance_to s newer =
     (let cur = seq_value s; target = seq_value newer
      in if target \<ge> cur then target - cur else MODULO - cur + target)"

datatype Ordering = Less | Equal | Greater

text \<open>\<^verbatim>\<open>impl Ord\<close>: both values as \<^verbatim>\<open>i32\<close>, the difference with \<^verbatim>\<open>wrapping_sub\<close>, signed tests.\<close>

definition seq_cmp :: "Sequence24 \<Rightarrow> Sequence24 \<Rightarrow> Ordering" where
  "seq_cmp a b =
     (let delta = sint (seq_value a - seq_value b); half = sint HALF
      in if delta = 0 then Equal
         else if (delta > 0 \<and> delta < half) \<or> (delta < 0 \<and> delta < - half) then Greater
         else Less)"

text \<open>The comparison operators and \<^verbatim>\<open>std::cmp::{min, max}\<close> that \<^verbatim>\<open>Ord\<close> provides.\<close>

definition seq_lt :: "Sequence24 \<Rightarrow> Sequence24 \<Rightarrow> bool" where
  "seq_lt a b \<longleftrightarrow> seq_cmp a b = Less"
definition seq_gt :: "Sequence24 \<Rightarrow> Sequence24 \<Rightarrow> bool" where
  "seq_gt a b \<longleftrightarrow> seq_cmp a b = Greater"
definition seq_ge :: "Sequence24 \<Rightarrow> Sequence24 \<Rightarrow> bool" where
  "seq_ge a b \<longleftrightarrow> seq_cmp a b = Greater \<or> seq_cmp a b = Equal"
definition seq_min :: "Sequence24 \<Rightarrow> Sequence24 \<Rightarrow> Sequence24" where
  "seq_min a b = (if seq_lt b a then b else a)"
definition seq_max :: "Sequence24 \<Rightarrow> Sequence24 \<Rightarrow> Sequence24" where
  "seq_max a b = (if seq_lt b a then a else b)"

definition seq_add :: "Sequence24 \<Rightarrow> Sequence24 \<Rightarrow> Sequence24" where
  "seq_add a b = seq_new ((seq_value a + seq_value b) mod MODULO)"

text \<open>\<^verbatim>\<open>impl Add<i32>\<close>: \<^verbatim>\<open>%\<close> truncates towards zero, then a negative remainder is shifted up.\<close>

definition seq_add_i32 :: "Sequence24 \<Rightarrow> u32 \<Rightarrow> Sequence24" where
  "seq_add_i32 a rhs =
     (let v = sint (seq_value a + rhs); m = sint MODULO;
          r = sgn v * (\<bar>v\<bar> mod m);
          r' = (if r < 0 then r + m else r)
      in seq_new (word_of_int r'))"

definition seq_encode :: "Sequence24 \<Rightarrow> encoded" where
  "seq_encode s = u24le_encode (seq_value s)"

definition seq_decode :: "Sequence24 decoder" where
  "seq_decode = dmap seq_new u24le_decode"

section \<open>Closed forms\<close>

lemma MODULO_eq: "MODULO = 0x1000000"
  by (simp add: MODULO_def)

lemma MASK_eq: "MASK = 0x00FFFFFF"
  by (simp add: MASK_def MODULO_eq)

lemma MASK_mask: "MASK = mask 24"
  by (simp add: MASK_eq mask_eq_exp_minus_1)

lemma HALF_eq: "HALF = 0x800000"
  by (simp add: HALF_def MODULO_eq)

lemma seq_value_eq: "seq_value s = ucast s"
  unfolding seq_value_def MASK_mask
  by (rule bit_word_eqI) (auto simp: bit_simps dest: bit_imp_le_length)

lemma seq_new_eq: "seq_new v = ucast v"
  unfolding seq_new_def MASK_mask by (rule bit_word_eqI) (auto simp: bit_simps)

lemma seq_new_value [simp]: "seq_new (seq_value s) = s"
  by (simp add: seq_new_eq seq_value_eq ucast_up_ucast_id is_up)

lemma seq_value_masked [simp]: "seq_value s AND MASK = seq_value s"
  by (simp add: seq_value_def and.assoc)

lemma unat_seq_bound [simp]: "unat (s :: Sequence24) < 16777216"
  using unsigned_less [of s, where ?'a = nat] by simp

lemma uint_seq_bound: "uint (s :: Sequence24) < 16777216" "0 \<le> uint s"
  using unsigned_less [of s, where ?'a = int] by simp_all

lemma unat_seq_value [simp]: "unat (seq_value s) = unat s"
  by (simp add: seq_value_eq unsigned_ucast_eq take_bit_nat_eq_self)
    (simp add: take_bit_nat_eq_self order.strict_trans [OF unat_seq_bound])

lemma uint_seq_value [simp]: "uint (seq_value s) = uint s"
  by (metis uint_nat unat_seq_value)

lemma seq_value_0 [simp]: "seq_value s = 0 \<longleftrightarrow> s = 0"
  by (metis unat_0_iff unat_seq_value)

lemma seq_value_inject [simp]: "seq_value a = seq_value b \<longleftrightarrow> a = b"
  by (metis seq_new_value)

lemma unat_seq_new: "unat (seq_new v) = unat v mod 16777216"
  by (simp add: seq_new_eq unsigned_ucast_eq take_bit_eq_mod)

lemma seq_next_eq: "seq_next s = s + 1"
  by (simp add: word_unat_eq_iff seq_next_def unat_seq_new unat_word_ariths mod_mod_cancel)

lemma seq_prev_eq: "seq_prev s = s - 1"
proof (cases "s = 0")
  case True
  then show ?thesis by (simp add: seq_prev_def seq_new_eq MASK_eq)
next
  case False
  then have "0 < unat s" by (simp add: unat_gt_0)
  with False show ?thesis
    by (simp add: word_unat_eq_iff seq_prev_def unat_seq_new unat_minus_one order.strict_trans1 [OF diff_le_self])
qed

lemma unat_distance_to [simp]: "unat (distance_to a b) = unat (b - a)"
  using unat_seq_bound [of a] unat_seq_bound [of b]
  by (simp add: distance_to_def Let_def word_le_nat_alt unat_sub_if' unat_plus_if' MODULO_eq, arith)

lemma distance_to_0 [simp]: "distance_to a b = 0 \<longleftrightarrow> a = b"
  by (metis eq_iff_diff_eq_0 unat_0_iff unat_distance_to)

lemma sint_seq_diff: "sint (seq_value a - seq_value b) = uint a - uint b"
proof -
  have s: "sint (seq_value x) = uint x" for x
  proof -
    have "\<not> bit (seq_value x) 31"
      by (auto simp: seq_value_eq bit_simps dest: bit_imp_le_length)
    then have "sint (seq_value x) = uint (seq_value x)"
      using uint_seq_bound [of x]
      by (simp add: sint_uint signed_take_bit_def bit_uint_iff take_bit_int_eq_self)
    then show ?thesis by simp
  qed
  have "sint (seq_value a - seq_value b) = signed_take_bit 31 (sint (seq_value a) - sint (seq_value b))"
    by (simp add: sint_word_ariths)
  also have "\<dots> = uint a - uint b"
    unfolding s
  proof (rule signed_take_bit_int_eq_self)
    have p: "(2 :: int) ^ 31 = 2147483648" by simp
    show "- (2 ^ 31) \<le> uint a - uint b" and "uint a - uint b < 2 ^ 31"
      unfolding p using uint_seq_bound [of a] uint_seq_bound [of b] by linarith+
  qed
  finally show ?thesis .
qed

text \<open>The order is the sign of the difference modulo \<open>2 ^ 24\<close>; at exactly half it is \<open>Less\<close>.\<close>

lemma unat_seq_sub:
  "unat (a - b :: Sequence24) =
     (if unat b \<le> unat a then unat a - unat b else unat a + 16777216 - unat b)"
  by (simp add: unat_sub_if')

lemma seq_cmp_eq:
  "seq_cmp a b = (if a = b then Equal else if unat (a - b) < 8388608 then Greater else Less)"
proof -
  have h: "sint HALF = 8388608" by (simp add: HALF_eq)
  have u: "uint x = int (unat x)" for x :: Sequence24 by simp
  have eq: "a = b \<longleftrightarrow> unat a = unat b" by (simp add: word_unat_eq_iff)
  have cmp: "(if int m - int n = 0 then Equal
        else if (int m - int n > 0 \<and> int m - int n < 8388608)
          \<or> (int m - int n < 0 \<and> int m - int n < - 8388608) then Greater else Less) =
      (if m = n then Equal
       else if (if n \<le> m then m - n else m + 16777216 - n) < 8388608 then Greater else Less)"
    if "m < 16777216" and "n < 16777216" for m n :: nat
    using that by auto
  show ?thesis
    unfolding seq_cmp_def Let_def sint_seq_diff h u unat_seq_sub eq
    by (rule cmp) simp_all
qed

lemma seq_lt_iff: "seq_lt a b \<longleftrightarrow> a \<noteq> b \<and> 8388608 \<le> unat (a - b)"
  by (auto simp: seq_lt_def seq_cmp_eq)

lemma seq_gt_iff: "seq_gt a b \<longleftrightarrow> a \<noteq> b \<and> unat (a - b) < 8388608"
  by (auto simp: seq_gt_def seq_cmp_eq)

lemma seq_ge_iff: "seq_ge a b \<longleftrightarrow> unat (a - b) < 8388608"
  by (auto simp: seq_ge_def seq_cmp_eq)

lemma seq_cmp_Equal [simp]: "seq_cmp a b = Equal \<longleftrightarrow> a = b"
  by (simp add: seq_cmp_eq)

lemma unat_seq_minus: "a \<noteq> b \<Longrightarrow> unat (b - a) = 16777216 - unat (a - (b :: Sequence24))"
  using unat_seq_bound [of a] unat_seq_bound [of b]
  by (simp add: unat_seq_sub word_unat_eq_iff del: unat_seq_bound, arith)

lemma seq_add_eq: "seq_add a b = a + b"
  by (simp add: word_unat_eq_iff seq_add_def unat_seq_new unat_mod MODULO_eq unat_word_ariths
      mod_mod_cancel)

lemma seq_add_i32_eq: "seq_add_i32 a rhs = a + ucast rhs"
proof -
  define v where "v = sint (seq_value a + rhs)"
  have m: "sint MODULO = 16777216" by (simp add: MODULO_eq)
  have r: "(let r = sgn v * (\<bar>v\<bar> mod 16777216) in if r < 0 then r + 16777216 else r) = v mod 16777216"
    by (cases "v < 0") (auto simp: Let_def sgn_if zmod_zminus1_eq_if)
  have "seq_add_i32 a rhs = ucast (word_of_int (take_bit 24 v) :: u32)"
    using r by (simp add: seq_add_i32_def Let_def v_def m seq_new_eq take_bit_eq_mod)
  also have "\<dots> = ucast (seq_value a + rhs)"
    unfolding v_def by (rule bit_word_eqI) (auto simp: bit_simps)
  also have "\<dots> = a + ucast rhs"
    by (simp add: word_unat_eq_iff unsigned_ucast_eq take_bit_eq_mod unat_word_ariths
        mod_mod_cancel mod_add_eq)
      (simp add: mod_simps)
  finally show ?thesis .
qed

interpretation seqc: raknet_codec "\<lambda>_. True" seq_encode seq_decode
proof
  show "seq_decode (bs @ rest) = Inr (x, rest)" if "seq_encode x = Inr bs" for x bs rest
  proof -
    have "u24le_decode (bs @ rest) = Inr (seq_value x, rest)"
      using that by (intro u24c.enc_dec) (simp_all add: seq_encode_def flip: MASK_eq)
    then show ?thesis by (simp add: seq_decode_def dmap_Inr)
  qed
  show "\<exists>used. src = used @ rest \<and> used \<noteq> []" if "seq_decode src = Inr (x, rest)" for src x rest
    using that u24c.dec_consumes by (fastforce simp: seq_decode_def dmap_eq_Inr)
qed

definition seq_bytes :: "Sequence24 \<Rightarrow> bytes" where
  "seq_bytes s = [ucast (seq_value s AND 0xFF), ucast (drop_bit 8 (seq_value s) AND 0xFF),
                  ucast (drop_bit 16 (seq_value s) AND 0xFF)]"

lemma seq_encode_eq [simp]: "seq_encode s = Inr (seq_bytes s)"
  using seq_value_masked [of s] by (simp add: seq_encode_def u24le_encode_def seq_bytes_def MASK_eq Let_def)

lemma length_seq_bytes [simp]: "length (seq_bytes s) = 3"
  by (simp add: seq_bytes_def)

lemma seq_decode_append [simp, codec_simps]: "seq_decode (seq_bytes s @ rest) = Inr (s, rest)"
  by (simp add: seqc.enc_dec)

section \<open>Windows\<close>

text \<open>
  The offset of a number from a base.  Within a window of at most half the space, the wrapping
  order is the order of offsets; this is what the session relies on when it sorts and compares
  sequence numbers.
\<close>

abbreviation offset :: "Sequence24 \<Rightarrow> Sequence24 \<Rightarrow> nat" where
  "offset base s \<equiv> unat (s - base)"

lemma offset_next: "offset base s < 16777215 \<Longrightarrow> offset base (s + 1) = Suc (offset base s)"
  unfolding add_diff_eq [symmetric] add.commute [of s] by (simp add: unat_plus_if')

lemma seq_cmp_window:
  assumes "offset base a < 8388608" and "offset base b < 8388608"
  shows "seq_cmp a b =
    (if offset base a < offset base b then Less
     else if offset base a = offset base b then Equal else Greater)"
proof -
  have ab: "a - b = (a - base) - (b - base)" by simp
  have eq: "a = b \<longleftrightarrow> offset base a = offset base b"
    by (metis diff_add_cancel unsigned_word_eqI)
  show ?thesis
    using assms unfolding seq_cmp_eq ab eq unat_seq_sub [of "a - base"] by auto
qed

text \<open>Offsets of unbounded indices reduced to 24 bits.\<close>

lemma unat_of_nat_seq [simp]: "m < 16777216 \<Longrightarrow> unat (of_nat m :: Sequence24) = m"
  by (simp add: unat_of_nat take_bit_nat_eq_self)

lemma offset_of_nat: "B \<le> n \<Longrightarrow> n < B + 16777216 \<Longrightarrow> offset (of_nat B) (of_nat n) = n - B"
  by (simp flip: of_nat_diff)

lemma offset_of_nat_below:
  assumes "n < B" and "B < n + 16777216"
  shows "offset (of_nat B) (of_nat n) = n + 16777216 - B"
proof -
  have "(of_nat (16777216 :: nat) :: Sequence24) = 0" by simp
  then have "(of_nat n - of_nat B :: Sequence24) = of_nat (n + 16777216) - of_nat B" by simp
  also have "\<dots> = of_nat (n + 16777216 - B)" using assms by (simp add: of_nat_diff)
  finally have e: "(of_nat n - of_nat B :: Sequence24) = of_nat (n + 16777216 - B)" .
  show ?thesis unfolding e using assms by (intro unat_of_nat_seq) auto
qed

lemma offset_advance:
  assumes "j \<le> offset a b"
  shows "offset (a + of_nat j) b = offset a b - j"
proof -
  have "offset a b < 16777216" by simp
  then have u: "unat (of_nat j :: Sequence24) = j" using assms by (intro unat_of_nat_seq) linarith
  have e: "b - (a + of_nat j) = (b - a) - of_nat j" by simp
  show ?thesis unfolding e using assms u by (simp only: unat_sub_if') simp
qed

lemma offset_zero_iff: "offset a b = 0 \<longleftrightarrow> a = b"
  by (metis eq_iff_diff_eq_0 unat_0_iff)

fun ord_reverse :: "Ordering \<Rightarrow> Ordering" where
  "ord_reverse Less = Greater" | "ord_reverse Equal = Equal" | "ord_reverse Greater = Less"

lemma unat_eq_iff_seq: "(s :: Sequence24) = numeral n \<longleftrightarrow> unat s = unat (numeral n :: Sequence24)"
  by (rule word_unat_eq_iff)

text \<open>Comparing two sequence numbers the other way round reverses the answer, except for numbers
  exactly half the circle apart, where each is smaller than the other.\<close>

theorem seq_cmp_antisymmetric:
  "seq_cmp b a = ord_reverse (seq_cmp a b) \<longleftrightarrow> a - b \<noteq> 0x800000"
proof -
  have u: "a - b = 0x800000 \<longleftrightarrow> unat (a - b) = 8388608"
    by (simp add: unat_eq_iff_seq)
  show ?thesis
    unfolding u using unat_seq_minus [of a b] unat_seq_bound [of "a - b"] by (auto simp: seq_cmp_eq)
qed

end
