(* ===== verification/Framing.thy ===== *)
theory Framing
  imports Sequence24
begin

text \<open>
  \<^verbatim>\<open>src/protocol/reliability.rs\<close>, \<^verbatim>\<open>src/protocol/frame_header.rs\<close> and \<^verbatim>\<open>src/protocol/frame.rs\<close>:
  the reliability classes with their property table, the one-byte frame header and the frame.
  \<open>frame_ok\<close> is the set of frames the wire format represents; decoding always lands in it, every
  frame of it encodes, and the two are inverse on it.
\<close>

section \<open>Reliability\<close>

datatype Reliability =
    Unreliable
  | UnreliableSequenced
  | Reliable
  | ReliableOrdered
  | ReliableSequenced
  | UnreliableWithAckReceipt
  | ReliableWithAckReceipt
  | ReliableOrderedWithAckReceipt

fun rel_as_nat :: "Reliability \<Rightarrow> nat" where
  "rel_as_nat Unreliable = 0"
| "rel_as_nat UnreliableSequenced = 1"
| "rel_as_nat Reliable = 2"
| "rel_as_nat ReliableOrdered = 3"
| "rel_as_nat ReliableSequenced = 4"
| "rel_as_nat UnreliableWithAckReceipt = 5"
| "rel_as_nat ReliableWithAckReceipt = 6"
| "rel_as_nat ReliableOrderedWithAckReceipt = 7"

record ReliabilityProps =
  rp_reliable :: bool
  rp_ordered :: bool
  rp_sequenced :: bool
  rp_with_ack_receipt :: bool

definition RELIABILITY_PROPS :: "ReliabilityProps list" where
  "RELIABILITY_PROPS =
     [\<lparr>rp_reliable = False, rp_ordered = False, rp_sequenced = False, rp_with_ack_receipt = False\<rparr>,
      \<lparr>rp_reliable = False, rp_ordered = False, rp_sequenced = True, rp_with_ack_receipt = False\<rparr>,
      \<lparr>rp_reliable = True, rp_ordered = False, rp_sequenced = False, rp_with_ack_receipt = False\<rparr>,
      \<lparr>rp_reliable = True, rp_ordered = True, rp_sequenced = False, rp_with_ack_receipt = False\<rparr>,
      \<lparr>rp_reliable = True, rp_ordered = False, rp_sequenced = True, rp_with_ack_receipt = False\<rparr>,
      \<lparr>rp_reliable = False, rp_ordered = False, rp_sequenced = False, rp_with_ack_receipt = True\<rparr>,
      \<lparr>rp_reliable = True, rp_ordered = False, rp_sequenced = False, rp_with_ack_receipt = True\<rparr>,
      \<lparr>rp_reliable = True, rp_ordered = True, rp_sequenced = False, rp_with_ack_receipt = True\<rparr>]"

definition rel_props :: "Reliability \<Rightarrow> ReliabilityProps" where
  "rel_props r = RELIABILITY_PROPS ! rel_as_nat r"

definition is_reliable :: "Reliability \<Rightarrow> bool" where
  "is_reliable r = rp_reliable (rel_props r)"
definition is_ordered :: "Reliability \<Rightarrow> bool" where
  "is_ordered r = rp_ordered (rel_props r)"
definition is_sequenced :: "Reliability \<Rightarrow> bool" where
  "is_sequenced r = rp_sequenced (rel_props r)"
definition is_with_ack_receipt :: "Reliability \<Rightarrow> bool" where
  "is_with_ack_receipt r = rp_with_ack_receipt (rel_props r)"

definition reliability_try_from :: "u8 \<Rightarrow> DecodeError + Reliability" where
  "reliability_try_from v =
     (if v = 0 then Inr Unreliable
      else if v = 1 then Inr UnreliableSequenced
      else if v = 2 then Inr Reliable
      else if v = 3 then Inr ReliableOrdered
      else if v = 4 then Inr ReliableSequenced
      else if v = 5 then Inr UnreliableWithAckReceipt
      else if v = 6 then Inr ReliableWithAckReceipt
      else if v = 7 then Inr ReliableOrderedWithAckReceipt
      else Inl (UnknownReliability v))"

definition reliability_encode :: "Reliability \<Rightarrow> encoded" where
  "reliability_encode r = Inr [of_nat (rel_as_nat r)]"

definition reliability_decode :: "Reliability decoder" where
  "reliability_decode src =
     (case src of [] \<Rightarrow> Inl UnexpectedEof
      | b # rest \<Rightarrow> (case reliability_try_from b of Inl e \<Rightarrow> Inl e | Inr r \<Rightarrow> Inr (r, rest)))"

lemmas rel_flag_defs =
  is_reliable_def is_ordered_def is_sequenced_def is_with_ack_receipt_def rel_props_def RELIABILITY_PROPS_def

lemma reliability_flags [simp]:
  "is_reliable Unreliable = False" "is_reliable UnreliableSequenced = False"
  "is_reliable Reliable = True" "is_reliable ReliableOrdered = True"
  "is_reliable ReliableSequenced = True" "is_reliable UnreliableWithAckReceipt = False"
  "is_reliable ReliableWithAckReceipt = True" "is_reliable ReliableOrderedWithAckReceipt = True"
  "is_ordered Unreliable = False" "is_ordered UnreliableSequenced = False"
  "is_ordered Reliable = False" "is_ordered ReliableOrdered = True"
  "is_ordered ReliableSequenced = False" "is_ordered UnreliableWithAckReceipt = False"
  "is_ordered ReliableWithAckReceipt = False" "is_ordered ReliableOrderedWithAckReceipt = True"
  "is_sequenced Unreliable = False" "is_sequenced UnreliableSequenced = True"
  "is_sequenced Reliable = False" "is_sequenced ReliableOrdered = False"
  "is_sequenced ReliableSequenced = True" "is_sequenced UnreliableWithAckReceipt = False"
  "is_sequenced ReliableWithAckReceipt = False" "is_sequenced ReliableOrderedWithAckReceipt = False"
  by (simp_all add: rel_flag_defs)

lemma ordered_imp_reliable: "is_ordered r \<Longrightarrow> is_reliable r \<and> \<not> is_sequenced r"
  by (cases r) simp_all

lemma reliability_try_from_as: "reliability_try_from (of_nat (rel_as_nat r)) = Inr r"
  by (cases r) (simp_all add: reliability_try_from_def)

interpretation relc: raknet_codec "\<lambda>_. True" reliability_encode reliability_decode
  by unfold_locales
    (auto simp: reliability_encode_def reliability_decode_def reliability_try_from_as
      split: list.splits sum.splits)

section \<open>Frame header\<close>

definition FRAME_FLAG_SPLIT :: u8 where "FRAME_FLAG_SPLIT = 0x10"
definition FRAME_FLAG_NEEDS_BAS :: u8 where "FRAME_FLAG_NEEDS_BAS = 0x04"

record FrameHeader =
  fh_reliability :: Reliability
  fh_is_split :: bool
  fh_needs_bas :: bool

definition frame_header_new :: "Reliability \<Rightarrow> bool \<Rightarrow> bool \<Rightarrow> FrameHeader" where
  "frame_header_new r split bas = \<lparr>fh_reliability = r, fh_is_split = split, fh_needs_bas = bas\<rparr>"

definition frame_header_from_byte :: "u8 \<Rightarrow> DecodeError + FrameHeader" where
  "frame_header_from_byte raw =
     (case reliability_try_from (drop_bit 5 raw) of
        Inl e \<Rightarrow> Inl e
      | Inr r \<Rightarrow> Inr \<lparr>fh_reliability = r, fh_is_split = (raw AND FRAME_FLAG_SPLIT) \<noteq> 0,
                      fh_needs_bas = (raw AND FRAME_FLAG_NEEDS_BAS) \<noteq> 0\<rparr>)"

definition frame_header_to_byte :: "FrameHeader \<Rightarrow> u8" where
  "frame_header_to_byte h =
     (let raw = push_bit 5 (of_nat (rel_as_nat (fh_reliability h)));
          raw = (if fh_is_split h then raw OR FRAME_FLAG_SPLIT else raw);
          raw = (if fh_needs_bas h then raw OR FRAME_FLAG_NEEDS_BAS else raw)
      in raw)"

definition frame_header_encode :: "FrameHeader \<Rightarrow> encoded" where
  "frame_header_encode h = Inr [frame_header_to_byte h]"

definition frame_header_decode :: "FrameHeader decoder" where
  "frame_header_decode src =
     (case src of [] \<Rightarrow> Inl UnexpectedEof
      | b # rest \<Rightarrow> (case frame_header_from_byte b of Inl e \<Rightarrow> Inl e | Inr h \<Rightarrow> Inr (h, rest)))"

text \<open>Three bits select the reliability, so every header byte decodes.\<close>

lemma frame_header_from_byte_total: "\<exists>h. frame_header_from_byte raw = Inr h"
proof -
  have "unat (drop_bit 5 raw) = unat raw div 2 ^ 5"
    by (simp only: unat_drop_bit_eq) (simp only: drop_bit_eq_div)
  moreover have "unat raw < 256" using unsigned_less [of raw, where ?'a = nat] by simp
  ultimately have "unat (drop_bit 5 raw) < 8" by simp
  then have "drop_bit 5 raw \<in> {0, 1, 2, 3, 4, 5, 6, 7}"
    by (auto simp: word_unat_eq_iff)
  then show ?thesis
    by (auto simp: frame_header_from_byte_def reliability_try_from_def)
qed

lemma frame_header_byte_roundtrip: "frame_header_from_byte (frame_header_to_byte h) = Inr h"
proof (cases h)
  case (fields r s b)
  then show ?thesis
    by (cases r; cases s; cases b)
      (simp_all add: frame_header_from_byte_def frame_header_to_byte_def reliability_try_from_def
        FRAME_FLAG_SPLIT_def FRAME_FLAG_NEEDS_BAS_def)
qed

interpretation headerc: raknet_codec "\<lambda>_. True" frame_header_encode frame_header_decode
  by unfold_locales
    (auto simp: frame_header_encode_def frame_header_decode_def frame_header_byte_roundtrip
      split: list.splits sum.splits)

lemma frame_header_decode_Cons [simp, codec_simps]:
  "frame_header_decode (frame_header_to_byte h # rest) = Inr (h, rest)"
  by (simp add: frame_header_decode_def frame_header_byte_roundtrip)

section \<open>Frames\<close>

record SplitInfo =
  si_part_count :: u32
  si_part_id :: u16
  si_part_index :: u32

record Frame =
  fr_header :: FrameHeader
  fr_bit_length :: u16
  fr_reliable_index :: "Sequence24 option"
  fr_sequence_index :: "Sequence24 option"
  fr_ordering_index :: "Sequence24 option"
  fr_ordering_channel :: "u8 option"
  fr_split :: "SplitInfo option"
  fr_payload :: bytes

abbreviation fr_rel :: "Frame \<Rightarrow> Reliability" where
  "fr_rel f \<equiv> fh_reliability (fr_header f)"

definition bits_to_bytes :: "u16 \<Rightarrow> usize" where
  "bits_to_bytes bit_length = drop_bit 3 (unat bit_length + 7)"

definition payload_len :: "Frame \<Rightarrow> usize" where
  "payload_len f = bits_to_bytes (fr_bit_length f)"

definition frame_encoded_size :: "Frame \<Rightarrow> usize" where
  "frame_encoded_size f =
     (let rel = fr_rel f; size = 3;
          size = (if is_reliable rel then size + 3 else size);
          size = (if is_sequenced rel then size + 3 else size);
          size = (if is_ordered rel \<or> is_sequenced rel then size + 4 else size);
          size = (if fh_is_split (fr_header f) then size + 10 else size)
      in size + payload_len f)"

definition split_info_encode :: "SplitInfo \<Rightarrow> encoded" where
  "split_info_encode s =
     put_all [u32_encode (si_part_count s), u16_encode (si_part_id s), u32_encode (si_part_index s)]"

definition frame_encode :: "Frame \<Rightarrow> encoded" where
  "frame_encode f =
     (if payload_len f \<noteq> length (fr_payload f) then Inl FrameBitLengthMismatch
      else let rel = fr_rel f in
        put_all
          ([frame_header_encode (fr_header f), u16_encode (fr_bit_length f)] @
           (if is_reliable rel
            then [put_req MissingReliableIndex seq_encode (fr_reliable_index f)] else []) @
           (if is_sequenced rel
            then [put_req MissingSequenceIndex seq_encode (fr_sequence_index f)] else []) @
           (if is_ordered rel \<or> is_sequenced rel
            then [put_req MissingOrderingIndex seq_encode (fr_ordering_index f),
                  put_req MissingOrderingChannel u8_encode (fr_ordering_channel f)] else []) @
           (if fh_is_split (fr_header f)
            then [put_req EncMissingSplitInfo split_info_encode (fr_split f)] else []) @
           [Inr (fr_payload f)]))"

definition split_info_decode :: "SplitInfo decoder" where
  "split_info_decode =
     dbind u32_decode (\<lambda>part_count.
       if part_count = 0 then dfail SplitCountZero
       else if part_count > MAX_SPLIT_PARTS then dfail SplitIndexOutOfRange
       else dbind u16_decode (\<lambda>part_id. dbind u32_decode (\<lambda>part_index.
         if part_index \<ge> part_count then dfail SplitIndexOutOfRange
         else dret \<lparr>si_part_count = part_count, si_part_id = part_id, si_part_index = part_index\<rparr>)))"

definition frame_decode :: "Frame decoder" where
  "frame_decode =
     dbind frame_header_decode (\<lambda>header. dbind u16_decode (\<lambda>bit_length.
       let payload_len = bits_to_bytes bit_length; rel = fh_reliability header in
       if payload_len = 0 then dfail (InvalidFrameBitLength bit_length)
       else
         dbind (dopt (is_reliable rel) seq_decode) (\<lambda>reliable_index.
         dbind (dopt (is_sequenced rel) seq_decode) (\<lambda>sequence_index.
         dbind (dopt (is_ordered rel \<or> is_sequenced rel) seq_decode) (\<lambda>ordering_index.
         dbind (dopt (is_ordered rel \<or> is_sequenced rel) u8_decode) (\<lambda>ordering_channel.
         dbind (dopt (fh_is_split header) split_info_decode) (\<lambda>split.
         dbind (dtake payload_len) (\<lambda>payload.
         dret \<lparr>fr_header = header, fr_bit_length = bit_length, fr_reliable_index = reliable_index,
               fr_sequence_index = sequence_index, fr_ordering_index = ordering_index,
               fr_ordering_channel = ordering_channel, fr_split = split,
               fr_payload = payload\<rparr>))))))))"

section \<open>The frames the wire represents\<close>

definition split_ok :: "SplitInfo \<Rightarrow> bool" where
  "split_ok s \<longleftrightarrow> si_part_count s \<noteq> 0 \<and> si_part_count s \<le> MAX_SPLIT_PARTS
                 \<and> si_part_index s < si_part_count s"

definition frame_ok :: "Frame \<Rightarrow> bool" where
  "frame_ok f \<longleftrightarrow>
     payload_len f = length (fr_payload f) \<and> fr_payload f \<noteq> []
     \<and> (fr_reliable_index f \<noteq> None \<longleftrightarrow> is_reliable (fr_rel f))
     \<and> (fr_sequence_index f \<noteq> None \<longleftrightarrow> is_sequenced (fr_rel f))
     \<and> (fr_ordering_index f \<noteq> None \<longleftrightarrow> is_ordered (fr_rel f) \<or> is_sequenced (fr_rel f))
     \<and> (fr_ordering_channel f \<noteq> None \<longleftrightarrow> is_ordered (fr_rel f) \<or> is_sequenced (fr_rel f))
     \<and> (fr_split f \<noteq> None \<longleftrightarrow> fh_is_split (fr_header f))
     \<and> (case fr_split f of None \<Rightarrow> True | Some s \<Rightarrow> split_ok s)"

definition split_bytes :: "SplitInfo \<Rightarrow> bytes" where
  "split_bytes s = be_bytes 4 (si_part_count s) @ be_bytes 2 (si_part_id s) @ be_bytes 4 (si_part_index s)"

lemma split_info_encode_eq [simp]: "split_info_encode s = Inr (split_bytes s)"
  by (simp add: split_info_encode_def split_bytes_def int_encode_eq)

lemma length_split_bytes [simp]: "length (split_bytes s) = 10"
  by (simp add: split_bytes_def)

lemma split_info_decode_append:
  "split_ok s \<Longrightarrow> split_info_decode (split_bytes s @ rest) = Inr (s, rest)"
  by (simp add: split_info_decode_def split_bytes_def split_ok_def dbind_Inr not_le not_less)

lemma split_info_decode_ok:
  "split_info_decode src = Inr (s, rest) \<Longrightarrow> split_ok s"
  by (auto simp: split_info_decode_def dbind_eq_Inr split_ok_def split: if_splits)

lemma split_info_decode_used:
  assumes "split_info_decode src = Inr (s, rest)"
  shows "\<exists>used. src = used @ rest"
  using assms
  by (fastforce simp: split_info_decode_def dbind_eq_Inr split: if_splits
      dest: u32c.dec_consumes u16c.dec_consumes)

text \<open>The bytes of a frame of \<open>frame_ok\<close>.\<close>

definition opt_bytes :: "('a \<Rightarrow> bytes) \<Rightarrow> 'a option \<Rightarrow> bytes" where
  "opt_bytes g x = (case x of None \<Rightarrow> [] | Some v \<Rightarrow> g v)"

lemma opt_bytes_simps [simp]: "opt_bytes g None = []" "opt_bytes g (Some v) = g v"
  by (simp_all add: opt_bytes_def)

definition frame_bytes :: "Frame \<Rightarrow> bytes" where
  "frame_bytes f =
     frame_header_to_byte (fr_header f) # be_bytes 2 (fr_bit_length f)
     @ opt_bytes seq_bytes (fr_reliable_index f) @ opt_bytes seq_bytes (fr_sequence_index f)
     @ opt_bytes seq_bytes (fr_ordering_index f) @ opt_bytes (\<lambda>c. [c]) (fr_ordering_channel f)
     @ opt_bytes split_bytes (fr_split f) @ fr_payload f"

lemma frame_encode_ok: "frame_ok f \<Longrightarrow> frame_encode f = Inr (frame_bytes f)"
  by (auto simp: frame_ok_def frame_encode_def frame_bytes_def frame_header_encode_def int_encode_eq
      put_req_def Let_def)

lemma length_frame_bytes: "frame_ok f \<Longrightarrow> length (frame_bytes f) = frame_encoded_size f"
  by (auto simp: frame_ok_def frame_bytes_def frame_encoded_size_def Let_def)

lemma dopt_some: "p src = Inr (x, rest) \<Longrightarrow> c \<Longrightarrow> dopt c p src = Inr (Some x, rest)"
  by (simp add: dmap_Inr)

lemma frame_decode_bytes:
  assumes "frame_ok f"
  shows "frame_decode (frame_bytes f @ rest) = Inr (f, rest)"
proof -
  have bl: "bits_to_bytes (fr_bit_length f) = length (fr_payload f)" "fr_payload f \<noteq> []"
    using assms by (auto simp: frame_ok_def payload_len_def)
  have sd: "s = fr_split f \<Longrightarrow>
      dopt (fh_is_split (fr_header f)) split_info_decode (opt_bytes split_bytes s @ r) = Inr (s, r)" for r s
    using assms by (cases s) (auto simp: frame_ok_def dmap_Inr split_info_decode_append)
  have oi: "s = fr_ordering_index f \<Longrightarrow>
      dopt (is_ordered (fr_rel f) \<or> is_sequenced (fr_rel f)) seq_decode (opt_bytes seq_bytes s @ r)
        = Inr (s, r)" for r s
    using assms by (cases s) (auto simp: frame_ok_def dmap_Inr)
  have oc: "s = fr_ordering_channel f \<Longrightarrow>
      dopt (is_ordered (fr_rel f) \<or> is_sequenced (fr_rel f)) u8_decode (opt_bytes (\<lambda>c. [c]) s @ r)
        = Inr (s, r)" for r s
    using assms by (cases s) (auto simp: frame_ok_def dmap_Inr)
  have qi: "s = fr_sequence_index f \<Longrightarrow>
      dopt (is_sequenced (fr_rel f)) seq_decode (opt_bytes seq_bytes s @ r) = Inr (s, r)" for r s
    using assms by (cases s) (auto simp: frame_ok_def dmap_Inr)
  have ri: "s = fr_reliable_index f \<Longrightarrow>
      dopt (is_reliable (fr_rel f)) seq_decode (opt_bytes seq_bytes s @ r) = Inr (s, r)" for r s
    using assms by (cases s) (auto simp: frame_ok_def dmap_Inr)
  show ?thesis
    unfolding frame_decode_def frame_bytes_def
    by (simp add: dbind_Inr bl Let_def ri qi oi oc sd)
qed

lemma frame_decode_steps:
  assumes "frame_decode src = Inr (f, rest)"
  obtains s1 s2 s3 s4 s5 s6 s7 where
    "frame_header_decode src = Inr (fr_header f, s1)" "u16_decode s1 = Inr (fr_bit_length f, s2)"
    "payload_len f \<noteq> 0"
    "dopt (is_reliable (fr_rel f)) seq_decode s2 = Inr (fr_reliable_index f, s3)"
    "dopt (is_sequenced (fr_rel f)) seq_decode s3 = Inr (fr_sequence_index f, s4)"
    "dopt (is_ordered (fr_rel f) \<or> is_sequenced (fr_rel f)) seq_decode s4 = Inr (fr_ordering_index f, s5)"
    "dopt (is_ordered (fr_rel f) \<or> is_sequenced (fr_rel f)) u8_decode s5 = Inr (fr_ordering_channel f, s6)"
    "dopt (fh_is_split (fr_header f)) split_info_decode s6 = Inr (fr_split f, s7)"
    "dtake (payload_len f) s7 = Inr (fr_payload f, rest)"
  using assms
  by (auto simp: frame_decode_def dbind_eq_Inr Let_def payload_len_def split: if_splits)

lemma dopt_iff_Some: "dopt c p s = Inr (x, r) \<Longrightarrow> x \<noteq> None \<longleftrightarrow> c"
  by (cases c) (auto simp: dmap_eq_Inr)

lemma frame_decode_ok:
  assumes "frame_decode src = Inr (f, rest)"
  shows "frame_ok f"
proof -
  from assms obtain s1 s2 s3 s4 s5 s6 s7 where
    steps: "payload_len f \<noteq> 0"
      "dopt (is_reliable (fr_rel f)) seq_decode s2 = Inr (fr_reliable_index f, s3)"
      "dopt (is_sequenced (fr_rel f)) seq_decode s3 = Inr (fr_sequence_index f, s4)"
      "dopt (is_ordered (fr_rel f) \<or> is_sequenced (fr_rel f)) seq_decode s4 = Inr (fr_ordering_index f, s5)"
      "dopt (is_ordered (fr_rel f) \<or> is_sequenced (fr_rel f)) u8_decode s5 = Inr (fr_ordering_channel f, s6)"
      "dopt (fh_is_split (fr_header f)) split_info_decode s6 = Inr (fr_split f, s7)"
      "dtake (payload_len f) s7 = Inr (fr_payload f, rest)"
    by (rule frame_decode_steps) blast
  have "case fr_split f of None \<Rightarrow> True | Some s \<Rightarrow> split_ok s"
    using steps(6) by (cases "fh_is_split (fr_header f)") (auto simp: dmap_eq_Inr dest: split_info_decode_ok)
  moreover have "length (fr_payload f) = payload_len f"
    using steps(7) by (simp add: dtake_eq_Inr)
  ultimately show ?thesis
    using steps(1) dopt_iff_Some [OF steps(2)] dopt_iff_Some [OF steps(3)] dopt_iff_Some [OF steps(4)]
      dopt_iff_Some [OF steps(5)] dopt_iff_Some [OF steps(6)]
    unfolding frame_ok_def by force
qed

lemma dopt_used:
  assumes "dopt c p s = Inr (x, r)" and "\<And>s x r. p s = Inr (x, r) \<Longrightarrow> \<exists>u. s = u @ r"
  shows "\<exists>u. s = u @ r"
  using assms by (cases c) (auto simp: dmap_eq_Inr)

lemma frame_decode_used:
  assumes "frame_decode src = Inr (f, rest)"
  shows "\<exists>used. src = used @ rest \<and> used \<noteq> []"
  using assms
proof (rule frame_decode_steps)
  fix s1 s2 s3 s4 s5 s6 s7
  assume steps: "frame_header_decode src = Inr (fr_header f, s1)"
    "u16_decode s1 = Inr (fr_bit_length f, s2)"
    "dopt (is_reliable (fr_rel f)) seq_decode s2 = Inr (fr_reliable_index f, s3)"
    "dopt (is_sequenced (fr_rel f)) seq_decode s3 = Inr (fr_sequence_index f, s4)"
    "dopt (is_ordered (fr_rel f) \<or> is_sequenced (fr_rel f)) seq_decode s4 = Inr (fr_ordering_index f, s5)"
    "dopt (is_ordered (fr_rel f) \<or> is_sequenced (fr_rel f)) u8_decode s5 = Inr (fr_ordering_channel f, s6)"
    "dopt (fh_is_split (fr_header f)) split_info_decode s6 = Inr (fr_split f, s7)"
    "dtake (payload_len f) s7 = Inr (fr_payload f, rest)"
  have seq: "\<exists>u. s = u @ r" if "seq_decode s = Inr (x, r)" for s x r
    using seqc.dec_consumes [OF that] by blast
  have u8: "\<exists>u. s = u @ r" if "u8_decode s = Inr (x, r)" for s x r
    using u8c.dec_consumes [OF that] by blast
  obtain u1 where "src = u1 @ s1" "u1 \<noteq> []" using headerc.dec_consumes [OF steps(1)] by blast
  moreover obtain u2 where "s1 = u2 @ s2" using u16c.dec_consumes [OF steps(2)] by blast
  moreover obtain u3 where "s2 = u3 @ s3" using dopt_used [OF steps(3)] seq by blast
  moreover obtain u4 where "s3 = u4 @ s4" using dopt_used [OF steps(4)] seq by blast
  moreover obtain u5 where "s4 = u5 @ s5" using dopt_used [OF steps(5)] seq by blast
  moreover obtain u6 where "s5 = u6 @ s6" using dopt_used [OF steps(6)] u8 by blast
  moreover obtain u7 where "s6 = u7 @ s7" using dopt_used [OF steps(7)] split_info_decode_used by blast
  moreover have "s7 = fr_payload f @ rest" using steps(8) by (simp add: dtake_eq_Inr)
  ultimately show ?thesis
    by (intro exI [of _ "u1 @ u2 @ u3 @ u4 @ u5 @ u6 @ u7 @ fr_payload f"]) simp
qed

interpretation framec: raknet_codec frame_ok frame_encode frame_decode
proof
  show "frame_decode (bs @ rest) = Inr (x, rest)" if "frame_ok x" "frame_encode x = Inr bs" for x bs rest
    using that by (auto simp: frame_encode_ok frame_decode_bytes)
  show "\<exists>used. src = used @ rest \<and> used \<noteq> []" if "frame_decode src = Inr (x, rest)" for src x rest
    using that by (rule frame_decode_used)
qed

end
