(* ===== verification/Datagrams.thy ===== *)
theory Datagrams
  imports Framing
begin

text \<open>
  \<^verbatim>\<open>src/protocol/ack.rs\<close> and \<^verbatim>\<open>src/protocol/datagram.rs\<close>: ranges of sequence numbers, the
  ACK/NACK payload and the datagram with its flag byte.  A range that wraps past the largest
  sequence number travels as two records; \<open>unwrap_ranges\<close> is what the peer reads back, and it
  denotes the same set of sequence numbers.
\<close>

section \<open>Ranges of sequence numbers\<close>

record SequenceRange =
  sr_start :: Sequence24
  sr_end :: Sequence24

abbreviation mk_range :: "Sequence24 \<Rightarrow> Sequence24 \<Rightarrow> SequenceRange" where
  "mk_range s e \<equiv> \<lparr>sr_start = s, sr_end = e\<rparr>"

definition range_wraps :: "SequenceRange \<Rightarrow> bool" where
  "range_wraps r \<longleftrightarrow> sr_start r \<noteq> sr_end r \<and> seq_value (sr_start r) > seq_value (sr_end r)"

definition split_wrapping :: "SequenceRange \<Rightarrow> (SequenceRange \<times> SequenceRange) option" where
  "split_wrapping r =
     (if \<not> range_wraps r then None
      else Some (mk_range (sr_start r) (seq_new 0x00FFFFFF), mk_range (seq_new 0) (sr_end r)))"

definition record_count :: "SequenceRange \<Rightarrow> usize" where
  "record_count r = (if range_wraps r then 2 else 1)"

definition range_encoded_size :: "SequenceRange \<Rightarrow> usize" where
  "range_encoded_size r = (if sr_start r = sr_end r then 1 + 3 else 1 + 3 + 3)"

definition range_encode :: "SequenceRange \<Rightarrow> encoded" where
  "range_encode r =
     (let singleton = (sr_start r = sr_end r)
      in put_all ([bool_encode singleton, seq_encode (sr_start r)] @
                  (if \<not> singleton then [seq_encode (sr_end r)] else [])))"

definition range_decode :: "SequenceRange decoder" where
  "range_decode =
     dbind bool_decode (\<lambda>singleton. dbind seq_decode (\<lambda>start.
       if singleton then dret (mk_range start start)
       else dbind seq_decode (\<lambda>e. dret (mk_range start e))))"

lemma range_eq_iff: "(r :: SequenceRange) = r' \<longleftrightarrow> sr_start r = sr_start r' \<and> sr_end r = sr_end r'"
  by (cases r; cases r') auto

definition range_bytes :: "SequenceRange \<Rightarrow> bytes" where
  "range_bytes r = (if sr_start r = sr_end r then 1 # seq_bytes (sr_start r)
                    else 0 # seq_bytes (sr_start r) @ seq_bytes (sr_end r))"

lemma range_encode_eq [simp]: "range_encode r = Inr (range_bytes r)"
  by (simp add: range_encode_def range_bytes_def bool_encode_def)

lemma length_range_bytes [simp]: "length (range_bytes r) = range_encoded_size r"
  by (simp add: range_bytes_def range_encoded_size_def)

lemma range_decode_append [simp, codec_simps]: "range_decode (range_bytes r @ rest) = Inr (r, rest)"
  by (simp add: range_decode_def range_bytes_def dbind_Inr range_eq_iff)

interpretation rangec: raknet_codec "\<lambda>_. True" range_encode range_decode
proof
  show "range_decode (bs @ rest) = Inr (x, rest)" if "range_encode x = Inr bs" for x bs rest
    using that by auto
  show "\<exists>used. src = used @ rest \<and> used \<noteq> []" if d: "range_decode src = Inr (x, rest)" for src x rest
  proof -
    from d obtain b s1 st s2 where "bool_decode src = Inr (b, s1)" "seq_decode s1 = Inr (st, s2)"
      and c: "(if b then dret (mk_range st st)
               else dbind seq_decode (\<lambda>e. dret (mk_range st e))) s2 = Inr (x, rest)"
      by (auto simp: range_decode_def dbind_eq_Inr)
    moreover from c have "s2 = rest \<or> (\<exists>e. seq_decode s2 = Inr (e, rest))"
      by (auto simp: dbind_eq_Inr split: if_splits)
    ultimately obtain u v w where "src = u @ s1" "u \<noteq> []" "s1 = v @ s2" "s2 = w @ rest"
      using boolc.dec_consumes seqc.dec_consumes by (metis append_Nil)
    then show ?thesis by (intro exI [of _ "u @ v @ w"]) simp
  qed
qed

text \<open>The numbers a range denotes: from the start forwards to the end, wrapping.\<close>

definition range_set :: "SequenceRange \<Rightarrow> Sequence24 set" where
  "range_set r = {s. offset (sr_start r) s \<le> offset (sr_start r) (sr_end r)}"

lemma range_set_iff: "s \<in> range_set r \<longleftrightarrow> offset (sr_start r) s \<le> offset (sr_start r) (sr_end r)"
  by (simp add: range_set_def)

lemma range_set_single [simp]: "range_set (mk_range s s) = {s}"
  by (auto simp: range_set_def unat_eq_0)

lemma range_set_ends [simp]: "sr_start r \<in> range_set r" "sr_end r \<in> range_set r"
  by (simp_all add: range_set_def)

lemma range_set_no_wrap:
  "unat (sr_start r) \<le> unat (sr_end r) \<Longrightarrow>
     s \<in> range_set r \<longleftrightarrow> unat (sr_start r) \<le> unat s \<and> unat s \<le> unat (sr_end r)"
  using unat_seq_bound [of "sr_start r"] unat_seq_bound [of "sr_end r"] unat_seq_bound [of s]
  by (auto simp: range_set_iff unat_seq_sub simp del: unat_seq_bound split: if_splits)

lemma range_set_wrap:
  "unat (sr_end r) < unat (sr_start r) \<Longrightarrow>
     s \<in> range_set r \<longleftrightarrow> unat (sr_start r) \<le> unat s \<or> unat s \<le> unat (sr_end r)"
  using unat_seq_bound [of "sr_start r"] unat_seq_bound [of "sr_end r"] unat_seq_bound [of s]
  by (auto simp: range_set_iff unat_seq_sub simp del: unat_seq_bound split: if_splits)

lemma range_wraps_iff: "range_wraps r \<longleftrightarrow> unat (sr_end r) < unat (sr_start r)"
  by (auto simp: range_wraps_def word_less_nat_alt)

lemma unat_seq_consts [simp]: "unat (seq_new 0x00FFFFFF) = 16777215" "unat (seq_new 0) = 0"
  by (simp_all add: unat_seq_new)

lemma split_wrapping_set:
  assumes "split_wrapping r = Some (a, b)"
  shows "range_set r = range_set a \<union> range_set b" and "\<not> range_wraps a" and "\<not> range_wraps b"
proof -
  have w: "unat (sr_end r) < unat (sr_start r)"
    and a: "a = mk_range (sr_start r) (seq_new 0x00FFFFFF)" and b: "b = mk_range (seq_new 0) (sr_end r)"
    using assms by (auto simp: split_wrapping_def range_wraps_iff split: if_splits)
  have le: "unat s \<le> 16777215" for s :: Sequence24
    using unat_seq_bound [of s] by linarith
  show "range_set r = range_set a \<union> range_set b"
  proof (rule set_eqI)
    fix s
    show "s \<in> range_set r \<longleftrightarrow> s \<in> range_set a \<union> range_set b"
      using range_set_wrap [OF w, of s] range_set_no_wrap [of a s] range_set_no_wrap [of b s]
      by (auto simp: a b le)
  qed
  show "\<not> range_wraps a" "\<not> range_wraps b"
    using le [of "sr_start r"] by (auto simp: a b range_wraps_iff)
qed

section \<open>ACK and NACK payloads\<close>

record AckNackPayload =
  ann_ranges :: "SequenceRange list"

definition unwrap_range :: "SequenceRange \<Rightarrow> SequenceRange list" where
  "unwrap_range r = (case split_wrapping r of Some (a, b) \<Rightarrow> [a, b] | None \<Rightarrow> [r])"

definition unwrap_ranges :: "SequenceRange list \<Rightarrow> SequenceRange list" where
  "unwrap_ranges rs = concat (map unwrap_range rs)"

definition ack_encoded_size :: "AckNackPayload \<Rightarrow> usize" where
  "ack_encoded_size p =
     2 + sum_list (map (\<lambda>r. case split_wrapping r of
                              Some (a, b) \<Rightarrow> range_encoded_size a + range_encoded_size b
                            | None \<Rightarrow> range_encoded_size r) (ann_ranges p))"

definition ack_encode :: "AckNackPayload \<Rightarrow> encoded" where
  "ack_encode p =
     (let count = sum_list (map record_count (ann_ranges p))
      in if count > unat MAX_ACK_SEQUENCES then Inl (AckRecordOverflow count)
         else put_all (u16_encode (of_nat count) #
                concat (map (\<lambda>r. case split_wrapping r of
                                   Some (left, right) \<Rightarrow> [range_encode left, range_encode right]
                                 | None \<Rightarrow> [range_encode r]) (ann_ranges p))))"

definition ack_decode :: "AckNackPayload decoder" where
  "ack_decode =
     dbind u16_decode (\<lambda>count.
       if count > MAX_ACK_SEQUENCES then dfail (InvalidAckRangeCount count)
       else dmap (\<lambda>rs. \<lparr>ann_ranges = rs\<rparr>) (dtimes (unat count) range_decode))"

lemma length_unwrap_range: "length (unwrap_range r) = record_count r"
  by (auto simp: unwrap_range_def record_count_def split_wrapping_def)

lemma length_unwrap_ranges: "length (unwrap_ranges rs) = sum_list (map record_count rs)"
  by (induction rs) (auto simp: unwrap_ranges_def length_unwrap_range)

lemma unwrap_range_set: "\<Union> (range_set ` set (unwrap_range r)) = range_set r"
  by (auto simp: unwrap_range_def split_wrapping_set(1) split: option.splits)

lemma unwrap_ranges_set: "\<Union> (range_set ` set (unwrap_ranges rs)) = \<Union> (range_set ` set rs)"
  by (induction rs) (simp_all add: unwrap_ranges_def image_Un unwrap_range_set del: UN_simps)

lemma unwrap_range_no_wrap: "r' \<in> set (unwrap_range r) \<Longrightarrow> \<not> range_wraps r'"
proof (cases "split_wrapping r")
  case None
  then show "r' \<in> set (unwrap_range r) \<Longrightarrow> ?thesis"
    by (simp add: unwrap_range_def split_wrapping_def split: if_splits)
next
  case (Some ab)
  then show "r' \<in> set (unwrap_range r) \<Longrightarrow> ?thesis"
    using split_wrapping_set(2,3) [of r "fst ab" "snd ab"]
    by (cases ab) (auto simp: unwrap_range_def)
qed

lemma unwrap_ranges_no_wrap: "r \<in> set (unwrap_ranges rs) \<Longrightarrow> \<not> range_wraps r"
  by (auto simp: unwrap_ranges_def dest: unwrap_range_no_wrap)

lemma unwrap_ranges_id: "(\<And>r. r \<in> set rs \<Longrightarrow> \<not> range_wraps r) \<Longrightarrow> unwrap_ranges rs = rs"
  by (induction rs) (auto simp: unwrap_ranges_def unwrap_range_def split_wrapping_def)

lemma ack_encode_eq:
  "ack_encode p =
     (let count = length (unwrap_ranges (ann_ranges p))
      in if count > 8192 then Inl (AckRecordOverflow count)
         else Inr (be_bytes 2 (of_nat count :: u16) @ concat (map range_bytes (unwrap_ranges (ann_ranges p)))))"
proof -
  have "concat (map (\<lambda>r. case split_wrapping r of
            Some (left, right) \<Rightarrow> [range_encode left, range_encode right]
          | None \<Rightarrow> [range_encode r]) rs) = map Inr (map range_bytes (unwrap_ranges rs))" for rs
    by (induction rs) (auto simp: unwrap_ranges_def unwrap_range_def split: option.splits)
  then show ?thesis
    by (simp add: ack_encode_def length_unwrap_ranges Let_def MAX_ACK_SEQUENCES_def put_all_concat
        int_encode_eq del: map_map)
qed

lemma ack_enc_dec:
  assumes "ack_encode p = Inr bs"
  shows "ack_decode (bs @ rest) = Inr (\<lparr>ann_ranges = unwrap_ranges (ann_ranges p)\<rparr>, rest)"
proof -
  define rs where "rs = unwrap_ranges (ann_ranges p)"
  from assms have len: "length rs \<le> 8192"
    and bs: "bs = be_bytes 2 (of_nat (length rs) :: u16) @ concat (map range_bytes rs)"
    by (auto simp: ack_encode_eq rs_def Let_def split: if_splits)
  have u: "unat (of_nat (length rs) :: u16) = length rs"
    using len by (simp add: unat_of_nat)
  have "put_all (map range_encode rs) = Inr (concat (map range_bytes rs))"
    using put_all_concat [of "map range_bytes rs"] by (simp add: comp_def range_encode_eq [abs_def])
  then have "dtimes (length rs) range_decode (concat (map range_bytes rs) @ rest) = Inr (rs, rest)"
    by (intro rangec.dtimes_enc) (simp_all add: list_all_iff)
  then show ?thesis
    using len by (simp add: ack_decode_def bs dbind_Inr u MAX_ACK_SEQUENCES_def word_less_nat_alt
        dmap_Inr rs_def [symmetric])
qed

lemma ack_encode_length: "ack_encode p = Inr bs \<Longrightarrow> length bs = ack_encoded_size p"
proof -
  have "length (concat (map range_bytes (unwrap_ranges rs))) =
     sum_list (map (\<lambda>r. case split_wrapping r of
                      Some (a, b) \<Rightarrow> range_encoded_size a + range_encoded_size b
                    | None \<Rightarrow> range_encoded_size r) rs)" for rs
    by (induction rs) (auto simp: unwrap_ranges_def unwrap_range_def split: option.splits)
  then show "ack_encode p = Inr bs \<Longrightarrow> length bs = ack_encoded_size p"
    by (auto simp: ack_encode_eq ack_encoded_size_def Let_def split: if_splits)
qed

section \<open>Datagrams\<close>

text \<open>\<^verbatim>\<open>bitflags!\<close> struct \<^verbatim>\<open>DatagramFlags\<close>: the union of the six declared flags is \<open>0xFC\<close>.\<close>

type_synonym DatagramFlags = u8

definition FLAG_VALID :: DatagramFlags where "FLAG_VALID = 0x80"
definition FLAG_ACK :: DatagramFlags where "FLAG_ACK = 0x40"
definition FLAG_NACK :: DatagramFlags where "FLAG_NACK = 0x20"
definition FLAG_PACKET_PAIR :: DatagramFlags where "FLAG_PACKET_PAIR = 0x10"
definition FLAG_CONTINUOUS_SEND :: DatagramFlags where "FLAG_CONTINUOUS_SEND = 0x08"
definition FLAG_HAS_B_AND_AS :: DatagramFlags where "FLAG_HAS_B_AND_AS = 0x04"

definition flags_from_bits_truncate :: "u8 \<Rightarrow> DatagramFlags" where
  "flags_from_bits_truncate raw =
     raw AND (FLAG_VALID OR FLAG_ACK OR FLAG_NACK OR FLAG_PACKET_PAIR OR FLAG_CONTINUOUS_SEND
              OR FLAG_HAS_B_AND_AS)"

datatype DatagramKind = KData | KAck | KNack

datatype DatagramPayload =
    Frames "Frame list"
  | Ack AckNackPayload
  | Nack AckNackPayload

fun payload_kind :: "DatagramPayload \<Rightarrow> DatagramKind" where
  "payload_kind (Frames _) = KData"
| "payload_kind (Ack _) = KAck"
| "payload_kind (Nack _) = KNack"

record DatagramHeader =
  dh_flags :: DatagramFlags
  dh_sequence :: Sequence24

record Datagram =
  dg_header :: DatagramHeader
  dg_payload :: DatagramPayload

definition decode_datagram_flags :: "u8 \<Rightarrow> DecodeError + DatagramFlags \<times> DatagramKind" where
  "decode_datagram_flags raw_flags =
     (let flags = flags_from_bits_truncate raw_flags
      in if raw_flags AND 0x80 = 0 then Inl (InvalidDatagramFlags raw_flags)
         else let has_ack = (raw_flags = 0xC0 \<or> raw_flags = 0xD0); has_nack = (raw_flags = 0xA0)
           in if has_ack then Inr (flags, KAck)
              else if has_nack then Inr (flags, KNack)
              else Inr (flags, KData))"

definition validate_flags_for_payload :: "DatagramFlags \<Rightarrow> DatagramPayload \<Rightarrow> EncodeError + unit" where
  "validate_flags_for_payload flags payload =
     (case decode_datagram_flags flags of
        Inl _ \<Rightarrow> Inl (EncInvalidDatagramFlags flags)
      | Inr (_, decoded_kind) \<Rightarrow>
          if decoded_kind \<noteq> payload_kind payload then Inl (EncInvalidDatagramFlags flags)
          else Inr ())"

definition datagram_header_encode :: "DatagramHeader \<Rightarrow> encoded" where
  "datagram_header_encode h = put_all [u8_encode (dh_flags h), seq_encode (dh_sequence h)]"

definition datagram_header_decode :: "DatagramHeader decoder" where
  "datagram_header_decode src =
     (if length src < 4 then Inl UnexpectedEof
      else dbind u8_decode (\<lambda>raw_flags.
        case decode_datagram_flags raw_flags of
          Inl e \<Rightarrow> dfail e
        | Inr (flags, kind) \<Rightarrow>
            if kind \<noteq> KData then dfail (InvalidDatagramFlags raw_flags)
            else dbind seq_decode (\<lambda>sequence.
              dret \<lparr>dh_flags = flags, dh_sequence = sequence\<rparr>)) src)"

fun datagram_encoded_size :: "Datagram \<Rightarrow> usize" where
  "datagram_encoded_size \<lparr>dg_header = h, dg_payload = Frames frames\<rparr> =
     RAKNET_DATAGRAM_HEADER_SIZE + sum_list (map frame_encoded_size frames)"
| "datagram_encoded_size \<lparr>dg_header = h, dg_payload = Ack p\<rparr> = 1 + ack_encoded_size p"
| "datagram_encoded_size \<lparr>dg_header = h, dg_payload = Nack p\<rparr> = 1 + ack_encoded_size p"

definition datagram_encode :: "Datagram \<Rightarrow> encoded" where
  "datagram_encode d =
     (case validate_flags_for_payload (dh_flags (dg_header d)) (dg_payload d) of
        Inl e \<Rightarrow> Inl e
      | Inr _ \<Rightarrow>
          (case dg_payload d of
             Frames frames \<Rightarrow> put_all (datagram_header_encode (dg_header d) # map frame_encode frames)
           | Ack p \<Rightarrow> put_all [u8_encode (dh_flags (dg_header d)), ack_encode p]
           | Nack p \<Rightarrow> put_all [u8_encode (dh_flags (dg_header d)), ack_encode p]))"

text \<open>\<^verbatim>\<open>while src.has_remaining() { frames.push(Frame::decode_raknet(src)?); }\<close>\<close>

function decode_frames :: "bytes \<Rightarrow> DecodeError + Frame list" where
  "decode_frames src =
     (if src = [] then Inr []
      else case frame_decode src of
             Inl e \<Rightarrow> Inl e
           | Inr (f, rest) \<Rightarrow>
               (case decode_frames rest of Inl e \<Rightarrow> Inl e | Inr fs \<Rightarrow> Inr (f # fs)))"
  by pat_completeness auto
termination
  by (relation "measure length") (auto dest: framec.dec_shorter)

declare decode_frames.simps [simp del]

definition datagram_decode :: "Datagram decoder" where
  "datagram_decode src =
     (case src of
        [] \<Rightarrow> Inl UnexpectedEof
      | raw_flags # src \<Rightarrow>
          (case decode_datagram_flags raw_flags of
             Inl e \<Rightarrow> Inl e
           | Inr (flags, kind) \<Rightarrow>
               (case kind of
                  KAck \<Rightarrow>
                    dmap (\<lambda>p. \<lparr>dg_header = \<lparr>dh_flags = flags, dh_sequence = seq_new 0\<rparr>,
                               dg_payload = Ack p\<rparr>) ack_decode src
                | KNack \<Rightarrow>
                    dmap (\<lambda>p. \<lparr>dg_header = \<lparr>dh_flags = flags, dh_sequence = seq_new 0\<rparr>,
                               dg_payload = Nack p\<rparr>) ack_decode src
                | KData \<Rightarrow>
                    dbind seq_decode (\<lambda>sequence src.
                      case decode_frames src of
                        Inl e \<Rightarrow> Inl e
                      | Inr frames \<Rightarrow>
                          Inr (\<lparr>dg_header = \<lparr>dh_flags = flags, dh_sequence = sequence\<rparr>,
                                dg_payload = Frames frames\<rparr>, [])) src)))"

section \<open>Round trips and sizes\<close>

lemma decode_frames_Nil [simp]: "decode_frames [] = Inr []"
  by (simp add: decode_frames.simps)

lemma decode_frames_step:
  "frame_ok f \<Longrightarrow> decode_frames (frame_bytes f @ rest) =
     (case decode_frames rest of Inl e \<Rightarrow> Inl e | Inr fs \<Rightarrow> Inr (f # fs))"
  using framec.enc_nonempty [of f "frame_bytes f"]
  by (simp add: decode_frames.simps [of "frame_bytes f @ rest"] frame_decode_bytes frame_encode_ok)

lemma decode_frames_bytes:
  "list_all frame_ok fs \<Longrightarrow> decode_frames (concat (map frame_bytes fs)) = Inr fs"
  by (induction fs) (simp_all add: decode_frames_step)

lemma decode_frames_ok: "decode_frames src = Inr fs \<Longrightarrow> list_all frame_ok fs"
proof (induction src arbitrary: fs rule: decode_frames.induct)
  case (1 src)
  then show ?case
    by (cases "src = []")
      (auto simp: decode_frames.simps [of src] split: sum.splits prod.splits dest: frame_decode_ok)
qed

lemma put_all_frames:
  "list_all frame_ok fs \<Longrightarrow> put_all (map frame_encode fs) = Inr (concat (map frame_bytes fs))"
  by (induction fs) (simp_all add: frame_encode_ok)

text \<open>A datagram whose fields the wire represents; the flags hold declared bits only.\<close>

definition datagram_ok :: "Datagram \<Rightarrow> bool" where
  "datagram_ok d \<longleftrightarrow>
     flags_from_bits_truncate (dh_flags (dg_header d)) = dh_flags (dg_header d)
     \<and> (case dg_payload d of Frames fs \<Rightarrow> list_all frame_ok fs | _ \<Rightarrow> True)"

text \<open>
  What the peer reads: frames and their sequence number as sent; for ACK and NACK the
  sequence number is not on the wire and wrapping ranges arrive as two.
\<close>

definition datagram_received :: "Datagram \<Rightarrow> Datagram" where
  "datagram_received d =
     (case dg_payload d of
        Frames fs \<Rightarrow> d
      | Ack p \<Rightarrow> \<lparr>dg_header = \<lparr>dh_flags = dh_flags (dg_header d), dh_sequence = seq_new 0\<rparr>,
                   dg_payload = Ack \<lparr>ann_ranges = unwrap_ranges (ann_ranges p)\<rparr>\<rparr>
      | Nack p \<Rightarrow> \<lparr>dg_header = \<lparr>dh_flags = dh_flags (dg_header d), dh_sequence = seq_new 0\<rparr>,
                    dg_payload = Nack \<lparr>ann_ranges = unwrap_ranges (ann_ranges p)\<rparr>\<rparr>)"

lemma validate_flags_Inr:
  "validate_flags_for_payload flags p = Inr u \<Longrightarrow>
     decode_datagram_flags flags = Inr (flags_from_bits_truncate flags, payload_kind p)"
  by (auto simp: validate_flags_for_payload_def decode_datagram_flags_def Let_def
      split: if_splits)

lemma datagram_enc_dec:
  assumes ok: "datagram_ok d" and enc: "datagram_encode d = Inr bs"
  shows "datagram_decode bs = Inr (datagram_received d, [])"
proof -
  obtain fl sq p where d: "d = \<lparr>dg_header = \<lparr>dh_flags = fl, dh_sequence = sq\<rparr>, dg_payload = p\<rparr>"
    by (metis (full_types) Datagram.cases DatagramHeader.cases)
  from enc obtain u where v: "validate_flags_for_payload fl p = Inr u"
    by (auto simp: datagram_encode_def d split: sum.splits)
  have fl: "flags_from_bits_truncate fl = fl" using ok by (simp add: datagram_ok_def d)
  have fd: "decode_datagram_flags fl = Inr (fl, payload_kind p)"
    using validate_flags_Inr [OF v] fl by simp
  show ?thesis
  proof (cases p)
    case (Frames fs)
    then have fs: "list_all frame_ok fs" using ok by (simp add: datagram_ok_def d)
    have "bs = fl # seq_bytes sq @ concat (map frame_bytes fs)"
      using enc v by (simp add: datagram_encode_def d Frames put_all_frames [OF fs]
          datagram_header_encode_def)
    then show ?thesis
      using fd decode_frames_bytes [OF fs]
      by (simp add: datagram_decode_def datagram_received_def d Frames dbind_Inr)
  next
    case (Ack a)
    with enc v obtain bs' where "ack_encode a = Inr bs'" "bs = fl # bs'"
      by (auto simp: datagram_encode_def d split: sum.splits)
    then show ?thesis
      using fd ack_enc_dec [of a bs' "[]"]
      by (simp add: datagram_decode_def datagram_received_def d Ack dmap_Inr)
  next
    case (Nack a)
    with enc v obtain bs' where "ack_encode a = Inr bs'" "bs = fl # bs'"
      by (auto simp: datagram_encode_def d split: sum.splits)
    then show ?thesis
      using fd ack_enc_dec [of a bs' "[]"]
      by (simp add: datagram_decode_def datagram_received_def d Nack dmap_Inr)
  qed
qed

lemma frame_encode_length: "frame_encode f = Inr bs \<Longrightarrow> length bs = frame_encoded_size f"
proof -
  assume enc: "frame_encode f = Inr bs"
  let ?rel = "is_reliable (fr_rel f)" and ?seq = "is_sequenced (fr_rel f)"
  let ?ord = "is_ordered (fr_rel f) \<or> is_sequenced (fr_rel f)" and ?spl = "fh_is_split (fr_header f)"
  let ?es = "[frame_header_encode (fr_header f), u16_encode (fr_bit_length f)] @
      (if ?rel then [put_req MissingReliableIndex seq_encode (fr_reliable_index f)] else []) @
      (if ?seq then [put_req MissingSequenceIndex seq_encode (fr_sequence_index f)] else []) @
      (if ?ord then [put_req MissingOrderingIndex seq_encode (fr_ordering_index f),
                     put_req MissingOrderingChannel u8_encode (fr_ordering_channel f)] else []) @
      (if ?spl then [put_req EncMissingSplitInfo split_info_encode (fr_split f)] else []) @
      [Inr (fr_payload f)]"
  have pl: "payload_len f = length (fr_payload f)" and es: "put_all ?es = Inr bs"
    using enc unfolding frame_encode_def Let_def by (metis sum.distinct(1), metis sum.distinct(1))
  have "list_all2 (\<lambda>e n. \<forall>b. e = Inr b \<longrightarrow> length b = n) ?es
     ([1, 2] @ (if ?rel then [3] else []) @ (if ?seq then [3] else []) @
      (if ?ord then [3, 1] else []) @ (if ?spl then [10] else []) @ [payload_len f])"
    by (intro list_all2_appendI) (auto simp: frame_header_encode_def int_encode_eq pl)
  from put_all_length [OF this es] show "length bs = frame_encoded_size f"
    by (auto simp: frame_encoded_size_def)
qed

lemma frames_encode_length:
  "put_all (map frame_encode fs) = Inr bs \<Longrightarrow> length bs = sum_list (map frame_encoded_size fs)"
  by (induction fs arbitrary: bs) (auto simp: put_all_Cons_eq_Inr frame_encode_length simp del: put_all.simps(2))

lemma datagram_encode_length:
  assumes "datagram_encode d = Inr bs"
  shows "length bs = datagram_encoded_size d"
proof -
  obtain h p where d: "d = \<lparr>dg_header = h, dg_payload = p\<rparr>" by (cases d)
  show ?thesis
  proof (cases p)
    case (Frames fs)
    with assms show ?thesis
      by (auto simp: d datagram_encode_def datagram_header_encode_def frames_encode_length
          RAKNET_DATAGRAM_HEADER_SIZE_def split: sum.splits)
  next
    case (Ack a)
    with assms show ?thesis
      by (auto simp: d datagram_encode_def ack_encode_length split: sum.splits)
  next
    case (Nack a)
    with assms show ?thesis
      by (auto simp: d datagram_encode_def ack_encode_length split: sum.splits)
  qed
qed

lemma datagram_decode_ok:
  assumes "datagram_decode src = Inr (d, rest)"
  shows "datagram_ok d"
proof -
  have idem: "flags_from_bits_truncate (flags_from_bits_truncate r) = flags_from_bits_truncate r" for r
    by (simp add: flags_from_bits_truncate_def and.assoc)
  have fl: "flags_from_bits_truncate f = f" if "decode_datagram_flags r = Inr (f, k)" for r f k
    using that by (auto simp: decode_datagram_flags_def Let_def idem split: if_splits)
  from assms obtain raw s f k where src: "src = raw # s" and fk: "decode_datagram_flags raw = Inr (f, k)"
    by (auto simp: datagram_decode_def split: list.splits sum.splits)
  show ?thesis
  proof (cases k)
    case KData
    with assms src fk obtain sq s' where
      "(case decode_frames s' of Inl e \<Rightarrow> Inl e
        | Inr fs \<Rightarrow> Inr (\<lparr>dg_header = \<lparr>dh_flags = f, dh_sequence = sq\<rparr>, dg_payload = Frames fs\<rparr>, []))
       = Inr (d, rest)"
      by (auto simp: datagram_decode_def dbind_eq_Inr)
    with fl [OF fk] show ?thesis
      by (cases "decode_frames s'") (auto simp: datagram_ok_def decode_frames_ok)
  next
    case KAck
    with assms src fk fl [OF fk] show ?thesis
      by (auto simp: datagram_decode_def datagram_ok_def dmap_eq_Inr)
  next
    case KNack
    with assms src fk fl [OF fk] show ?thesis
      by (auto simp: datagram_decode_def datagram_ok_def dmap_eq_Inr)
  qed
qed

section \<open>Properties\<close>

lemma datagram_encode_total:
  assumes "datagram_ok d" and "validate_flags_for_payload (dh_flags (dg_header d)) (dg_payload d) = Inr u"
    and "\<And>p. dg_payload d = Ack p \<or> dg_payload d = Nack p \<Longrightarrow> length (unwrap_ranges (ann_ranges p)) \<le> 8192"
  shows "\<exists>bs. datagram_encode d = Inr bs"
  using assms
  by (cases "dg_payload d") (auto simp: datagram_encode_def datagram_ok_def put_all_frames
      ack_encode_eq Let_def datagram_header_encode_def int_encode_eq)

definition wire_ok :: "Datagram \<Rightarrow> bool" where
  "wire_ok d \<longleftrightarrow> datagram_ok d
     \<and> validate_flags_for_payload (dh_flags (dg_header d)) (dg_payload d) = Inr ()
     \<and> (case dg_payload d of Frames _ \<Rightarrow> True
        | Ack p \<Rightarrow> length (unwrap_ranges (ann_ranges p)) \<le> 8192
        | Nack p \<Rightarrow> length (unwrap_ranges (ann_ranges p)) \<le> 8192)"

text \<open>C3: a datagram that can be put on the wire has an encoding of exactly the size \<open>encoded_size\<close>
  announces, and decoding it gives back the frames and sequence number, or the same acknowledged
  numbers with wrapping ranges split in two.\<close>

theorem datagram_roundtrip:
  assumes "wire_ok d"
  shows "\<exists>bs. datagram_encode d = Inr bs \<and> length bs = datagram_encoded_size d
    \<and> datagram_decode bs = Inr (datagram_received d, [])"
proof -
  have "\<exists>bs. datagram_encode d = Inr bs"
    using assms by (intro datagram_encode_total) (auto simp: wire_ok_def)
  then show ?thesis
    using assms by (auto simp: wire_ok_def datagram_encode_length datagram_enc_dec)
qed

definition sample_datagram :: Datagram where
  "sample_datagram =
     \<lparr>dg_header = \<lparr>dh_flags = FLAG_VALID OR FLAG_HAS_B_AND_AS, dh_sequence = 0xFFFFFF\<rparr>,
      dg_payload = Frames
        [\<lparr>fr_header = \<lparr>fh_reliability = ReliableOrdered, fh_is_split = True, fh_needs_bas = False\<rparr>,
          fr_bit_length = 16, fr_reliable_index = Some 7, fr_sequence_index = None,
          fr_ordering_index = Some 3, fr_ordering_channel = Some 1,
          fr_split = Some \<lparr>si_part_count = 2, si_part_id = 9, si_part_index = 1\<rparr>,
          fr_payload = [0xAB, 0xCD]\<rparr>]\<rparr>"

theorem datagram_roundtrip_witness:
  "\<exists>bs. datagram_encode sample_datagram = Inr bs \<and> length bs = datagram_encoded_size sample_datagram
    \<and> datagram_decode bs = Inr (datagram_received sample_datagram, [])"
  by (rule datagram_roundtrip) code_simp

section \<open>Frames without payload\<close>

lemma frame_empty_decode:
  assumes "frame_encode f = Inr bs" and "fr_bit_length f = 0"
  shows "frame_decode (bs @ rest) = Inl (InvalidFrameBitLength 0)" and "bs \<noteq> []"
proof -
  obtain more where bs: "bs = frame_header_to_byte (fr_header f) # be_bytes 2 (0 :: u16) @ more"
    using assms by (auto simp: frame_encode_def frame_header_encode_def int_encode_eq Let_def
        split: if_splits sum.splits)
  show "frame_decode (bs @ rest) = Inl (InvalidFrameBitLength 0)"
    by (simp add: bs frame_decode_def dbind_Inr bits_to_bytes_def Let_def)
  show "bs \<noteq> []" by (simp add: bs)
qed

lemma decode_frames_empty:
  assumes "list_all frame_ok fs" and "frame_encode f = Inr bs" and "fr_bit_length f = 0"
  shows "decode_frames (concat (map frame_bytes fs) @ bs @ rest) = Inl (InvalidFrameBitLength 0)"
  using assms(1)
proof (induction fs)
  case Nil
  then show ?case using frame_empty_decode [OF assms(2,3)]
    by (simp add: decode_frames.simps [of "bs @ rest"])
qed (simp add: decode_frames_step)

text \<open>A frame without payload is encoded without complaint, but the decoder of the peer refuses it
  and with it the whole datagram it travels in, whatever well-formed frames come before it.\<close>

theorem empty_frame_poisons_datagram:
  assumes d: "dg_payload d = Frames (fs @ f # gs)" and fs: "list_all frame_ok fs"
    and f: "fr_payload f = []" "fr_bit_length f = 0"
    and enc: "datagram_encode d = Inr bs"
  shows "datagram_decode bs = Inl (InvalidFrameBitLength 0)"
proof -
  let ?fl = "dh_flags (dg_header d)"
  obtain u where v: "validate_flags_for_payload ?fl (dg_payload d) = Inr u"
    using enc by (auto simp: datagram_encode_def split: sum.splits)
  obtain fb gb where b: "frame_encode f = Inr fb" "put_all (map frame_encode gs) = Inr gb"
    and bs: "bs = ?fl # seq_bytes (dh_sequence (dg_header d)) @ concat (map frame_bytes fs) @ fb @ gb"
    using enc by (auto simp: datagram_encode_def d datagram_header_encode_def put_all_append put_all_frames [OF fs]
        split: sum.splits)
  show ?thesis
    using validate_flags_Inr [OF v] decode_frames_empty [OF fs b(1) f(2)]
    by (simp add: bs d datagram_decode_def dbind_Inr)
qed

definition empty_frame_datagram :: Datagram where
  "empty_frame_datagram =
     \<lparr>dg_header = \<lparr>dh_flags = FLAG_VALID OR FLAG_HAS_B_AND_AS, dh_sequence = 5\<rparr>,
      dg_payload = Frames
        [\<lparr>fr_header = \<lparr>fh_reliability = Unreliable, fh_is_split = False, fh_needs_bas = False\<rparr>,
          fr_bit_length = 0, fr_reliable_index = None, fr_sequence_index = None, fr_ordering_index = None,
          fr_ordering_channel = None, fr_split = None, fr_payload = []\<rparr>]\<rparr>"

theorem empty_frame_poisons_datagram_witness:
  "\<exists>bs. datagram_encode empty_frame_datagram = Inr bs \<and> datagram_decode bs = Inl (InvalidFrameBitLength 0)"
proof -
  have "datagram_encode empty_frame_datagram = Inr [0x84, 5, 0, 0, 0, 0, 0]" by code_simp
  then show ?thesis
    using empty_frame_poisons_datagram [of empty_frame_datagram "[]" _ "[]" "[0x84, 5, 0, 0, 0, 0, 0]"]
    by (auto simp: empty_frame_datagram_def)
qed

end
