(* ===== verification/AckQueue.thy ===== *)
theory AckQueue
  imports Datagrams
begin

text \<open>
  \<^verbatim>\<open>src/session/ack_queue.rs\<close>: the bounded queue of sequence ranges waiting to leave in an ACK or
  NACK.  A push merges the range into the last one when they touch or overlap; a pop takes as
  many ranges from the front as fit the MTU.  The lemmas show that a push with room covers
  exactly the old numbers and the new ones, and that a popped batch fits.
\<close>

record AckQueue =
  aq_max_ranges :: usize
  aq_queue :: "SequenceRange list"

definition ackq_new :: "usize \<Rightarrow> AckQueue" where
  "ackq_new max_ranges = \<lparr>aq_max_ranges = max_ranges, aq_queue = []\<rparr>"

definition merge_last :: "SequenceRange \<Rightarrow> SequenceRange \<Rightarrow> SequenceRange option" where
  "merge_last la r =
     (if seq_next (sr_end la) = sr_start r then Some (la\<lparr>sr_end := sr_end r\<rparr>)
      else if seq_ge (sr_end la) (sr_start r) \<and> seq_ge (sr_end r) (sr_start la)
      then Some (mk_range (seq_min (sr_start la) (sr_start r)) (seq_max (sr_end la) (sr_end r)))
      else None)"

definition try_merge :: "SequenceRange list \<Rightarrow> SequenceRange \<Rightarrow> SequenceRange list option" where
  "try_merge queue r =
     (if queue = [] then None
      else map_option (\<lambda>m. butlast queue @ [m]) (merge_last (last queue) r))"

function ackq_push :: "AckQueue \<Rightarrow> SequenceRange \<Rightarrow> AckQueue" where
  "ackq_push q r =
     (if length (aq_queue q) \<ge> aq_max_ranges q then q
      else case try_merge (aq_queue q) r of
             Some queue \<Rightarrow> q\<lparr>aq_queue := queue\<rparr>
           | None \<Rightarrow>
               (case split_wrapping r of
                  Some (left, right) \<Rightarrow> ackq_push (ackq_push q left) right
                | None \<Rightarrow> q\<lparr>aq_queue := aq_queue q @ [r]\<rparr>))"
  by pat_completeness auto

lemma split_wrapping_decreases:
  "Some (left, right) = split_wrapping r \<Longrightarrow> range_wraps r \<and> \<not> range_wraps left \<and> \<not> range_wraps right"
  using split_wrapping_set(2,3) [of r left right]
  by (simp add: split_wrapping_def split: if_splits)

termination ackq_push
  by (relation "measure (\<lambda>(q, r). if range_wraps r then 1 else 0)")
    (auto dest!: sym [of "split_wrapping _"] dest!: split_wrapping_decreases [OF sym])

declare ackq_push.simps [simp del]

definition ackq_is_empty :: "AckQueue \<Rightarrow> bool" where
  "ackq_is_empty q \<longleftrightarrow> aq_queue q = []"

definition popped_size :: "SequenceRange \<Rightarrow> usize" where
  "popped_size front =
     (case split_wrapping front of
        Some (left, right) \<Rightarrow> range_encoded_size left + range_encoded_size right
      | None \<Rightarrow> range_encoded_size front)"

text \<open>The \<^verbatim>\<open>while let Some(front)\<close> loop; returns the batch and what stays queued.\<close>

fun pop_loop :: "usize \<Rightarrow> usize \<Rightarrow> usize \<Rightarrow> SequenceRange list \<Rightarrow> SequenceRange list
    \<Rightarrow> SequenceRange list \<times> SequenceRange list" where
  "pop_loop mtu max_ranges used out [] = (out, [])"
| "pop_loop mtu max_ranges used out (front # queue) =
     (if length out \<ge> max_ranges then (out, front # queue)
      else let size = popped_size front
           in if out \<noteq> [] \<and> used + size > mtu then (out, front # queue)
              else pop_loop mtu max_ranges (used + size) (out @ [front]) queue)"

definition pop_for_mtu :: "AckQueue \<Rightarrow> usize \<Rightarrow> usize \<Rightarrow> usize \<Rightarrow> SequenceRange list \<times> AckQueue" where
  "pop_for_mtu q mtu base_overhead max_ranges =
     (if max_ranges = 0 then ([], q)
      else let (out, queue) = pop_loop mtu max_ranges base_overhead [] (aq_queue q)
           in (out, q\<lparr>aq_queue := queue\<rparr>))"

section \<open>What a push covers\<close>

definition covered :: "SequenceRange list \<Rightarrow> Sequence24 set" where
  "covered rs = \<Union> (range_set ` set rs)"

lemma covered_simps [simp]:
  "covered [] = {}"
  "covered (r # rs) = range_set r \<union> covered rs"
  "covered (rs @ rs') = covered rs \<union> covered rs'"
  by (simp_all add: covered_def)

lemma covered_butlast_last: "rs \<noteq> [] \<Longrightarrow> covered rs = covered (butlast rs) \<union> range_set (last rs)"
  by (metis append_butlast_last_id covered_simps sup_bot.right_neutral)

definition range_short :: "SequenceRange \<Rightarrow> bool" where
  "range_short r \<longleftrightarrow> offset (sr_start r) (sr_end r) < 8388608"

definition last_short :: "AckQueue \<Rightarrow> bool" where
  "last_short q \<longleftrightarrow> (aq_queue q \<noteq> [] \<longrightarrow> range_short (last (aq_queue q)))"

text \<open>Everything about two short ranges is arithmetic on offsets from one of their starts.\<close>

lemma offset_rebase:
  "offset b s = (if offset a b \<le> offset a s then offset a s - offset a b
                 else offset a s + 16777216 - offset a b)"
  using unat_seq_sub [of "s - a" "b - a"] by simp

lemma offset_eq_iff: "s = t \<longleftrightarrow> offset a s = offset a t"
  by (metis diff_add_cancel unsigned_word_eqI)

lemma merge_overlap:
  assumes s: "range_short la" "range_short r"
    and o: "seq_ge (sr_end la) (sr_start r)" "seq_ge (sr_end r) (sr_start la)"
  defines "m \<equiv> mk_range (seq_min (sr_start la) (sr_start r)) (seq_max (sr_end la) (sr_end r))"
  shows "range_set m = range_set la \<union> range_set r" and "range_short m"
proof -
  define a b c d where "a = sr_start la" and "b = sr_end la" and "c = sr_start r" and "d = sr_end r"
  note defs = a_def [symmetric] b_def [symmetric] c_def [symmetric] d_def [symmetric]
  have b1: "offset a b < 8388608" and d1: "offset c d < 8388608"
    and b2: "offset c b < 8388608" and d2: "offset a d < 8388608"
    using s o by (simp_all add: range_short_def seq_ge_iff defs)
  have bnd: "offset a x < 16777216" for x by simp
  note rb = offset_rebase [of _ c a] offset_rebase [of _ d a] offset_rebase [of _ b a]
  note eqs = offset_eq_iff [of _ _ a]
  show "range_short m"
    using b1 d1 b2 d2 bnd [of c]
    by (auto simp: range_short_def m_def defs seq_min_def seq_max_def seq_lt_iff eqs rb
        simp del: unat_seq_bound split: if_splits)
  show "range_set m = range_set la \<union> range_set r"
  proof (rule set_eqI)
    fix x
    show "x \<in> range_set m \<longleftrightarrow> x \<in> range_set la \<union> range_set r"
      using b1 d1 b2 d2 bnd [of c] bnd [of x]
      by (auto simp: range_set_iff m_def defs seq_min_def seq_max_def seq_lt_iff eqs rb
          simp del: unat_seq_bound split: if_splits)
  qed
qed

lemma merge_adjacent:
  assumes s: "range_short la" "range_short r" and n: "seq_next (sr_end la) = sr_start r"
  shows "range_set (la\<lparr>sr_end := sr_end r\<rparr>) = range_set la \<union> range_set r"
proof -
  define a b d where "a = sr_start la" and "b = sr_end la" and "d = sr_end r"
  have c: "sr_start r = b + 1" using n by (simp add: seq_next_eq b_def)
  note defs = a_def [symmetric] b_def [symmetric] d_def [symmetric]
  have b1: "offset a b < 8388608" and d1: "offset (b + 1) d < 8388608"
    using s by (simp_all add: range_short_def defs c)
  have c1: "offset a (b + 1) = Suc (offset a b)" using b1 by (intro offset_next) simp
  have bnd: "offset a x < 16777216" for x by simp
  show ?thesis
  proof (rule set_eqI)
    fix x
    show "x \<in> range_set (la\<lparr>sr_end := sr_end r\<rparr>) \<longleftrightarrow> x \<in> range_set la \<union> range_set r"
      using b1 d1 bnd [of d] bnd [of x]
      by (auto simp: range_set_iff defs c offset_rebase [of _ "b + 1" a] c1
          simp del: unat_seq_bound split: if_splits)
  qed
qed

lemma merge_last_covers:
  assumes "merge_last la r = Some m" and "range_short la" and "range_short r"
  shows "range_set m = range_set la \<union> range_set r"
  using assms merge_adjacent [of la r] merge_overlap(1) [of la r]
  by (auto simp: merge_last_def split: if_splits)

lemma try_merge_covers:
  assumes "try_merge queue r = Some queue'" and "queue \<noteq> [] \<longrightarrow> range_short (last queue)"
    and "range_short r"
  shows "covered queue' = covered queue \<union> range_set r"
  using assms merge_last_covers [of "last queue" r]
  by (auto simp: try_merge_def covered_butlast_last split: if_splits)

lemma ackq_push_plain:
  assumes "\<not> range_wraps r" and "range_short r" and "last_short q"
    and "length (aq_queue q) < aq_max_ranges q"
  shows "covered (aq_queue (ackq_push q r)) = covered (aq_queue q) \<union> range_set r"
  using assms try_merge_covers [of "aq_queue q" r]
  by (subst ackq_push.simps) (auto simp: last_short_def split_wrapping_def split: option.splits)

text \<open>
  A wrapping range is pushed as two halves.  The first half cannot be adjacent to the last
  range, because the whole was not, so the last range stays short and the second push is exact.
\<close>

lemma ackq_push_left_short:
  assumes "try_merge (aq_queue q) r = None" and "sr_start left = sr_start r" and "\<not> range_wraps left"
    and "range_short left" and "last_short q"
  shows "last_short (ackq_push q left)"
  using assms merge_overlap(2) [of "last (aq_queue q)" left]
  by (subst ackq_push.simps)
    (auto simp: last_short_def split_wrapping_def try_merge_def merge_last_def split: option.splits if_splits)

lemma ackq_push_max [simp]: "aq_max_ranges (ackq_push q r) = aq_max_ranges q"
  by (induction q r rule: ackq_push.induct) (subst ackq_push.simps, auto split: option.splits)

lemma try_merge_length: "try_merge queue r = Some queue' \<Longrightarrow> length queue' = length queue"
  by (auto simp: try_merge_def split: if_splits)

lemma ackq_push_length_plain:
  "\<not> range_wraps r \<Longrightarrow> length (aq_queue (ackq_push q r)) \<le> Suc (length (aq_queue q))"
  by (subst ackq_push.simps) (auto simp: split_wrapping_def split: option.splits dest: try_merge_length)

lemma ackq_push_bounded:
  "length (aq_queue q) \<le> aq_max_ranges q \<Longrightarrow> length (aq_queue (ackq_push q r)) \<le> aq_max_ranges q"
proof (induction q r rule: ackq_push.induct)
  case (1 q r)
  show ?case
  proof (cases "aq_max_ranges q \<le> length (aq_queue q) \<or> try_merge (aq_queue q) r \<noteq> None
      \<or> split_wrapping r = None")
    case True
    then show ?thesis using 1(3)
      by (subst ackq_push.simps) (auto split: option.splits dest: try_merge_length)
  next
    case False
    then obtain left right where lr: "split_wrapping r = Some (left, right)" by auto
    have "length (aq_queue (ackq_push q left)) \<le> aq_max_ranges q"
      using False lr 1(1,3) by auto
    with 1(2) False lr show ?thesis
      by (subst ackq_push.simps) (auto split: option.splits)
  qed
qed

lemma split_wrapping_short:
  assumes "split_wrapping r = Some (left, right)" and "range_short r"
  shows "range_short left" and "range_short right" and "sr_start left = sr_start r"
  using assms unat_seq_bound [of "sr_start r"]
  by (auto simp: split_wrapping_def range_wraps_iff range_short_def unat_seq_sub
      simp del: unat_seq_bound split: if_splits)

lemma ackq_push_covers:
  assumes r: "range_short r" and q: "last_short q"
    and room: "length (aq_queue q) + record_count r \<le> aq_max_ranges q"
  shows "covered (aq_queue (ackq_push q r)) = covered (aq_queue q) \<union> range_set r"
proof (cases "split_wrapping r")
  case None
  then show ?thesis using assms
    by (intro ackq_push_plain) (auto simp: split_wrapping_def record_count_def split: if_splits)
next
  case (Some lr)
  then obtain left right where lr: "split_wrapping r = Some (left, right)" by (cases lr) auto
  note sets = split_wrapping_set [OF lr] and short = split_wrapping_short [OF lr r]
  have "record_count r = 2" using Some by (auto simp: split_wrapping_def record_count_def split: if_splits)
  show ?thesis
  proof (cases "try_merge (aq_queue q) r")
    case None
    have room': "length (aq_queue (ackq_push q left)) < aq_max_ranges q"
      using ackq_push_length_plain [OF sets(2), of q] room \<open>record_count r = 2\<close> by simp
    have "covered (aq_queue (ackq_push q left)) = covered (aq_queue q) \<union> range_set left"
      using room \<open>record_count r = 2\<close> by (intro ackq_push_plain sets(2) short(1) q) simp
    moreover have "last_short (ackq_push q left)"
      using None short(3) sets(2) short(1) q by (rule ackq_push_left_short)
    ultimately have "covered (aq_queue (ackq_push (ackq_push q left) right)) =
        covered (aq_queue q) \<union> range_set left \<union> range_set right"
      using ackq_push_plain [OF sets(3) short(2)] room' by simp
    then show ?thesis
      using None lr sets(1) room \<open>record_count r = 2\<close> by (subst ackq_push.simps) auto
  next
    case (Some queue)
    with try_merge_covers [OF Some] r q room \<open>record_count r = 2\<close> show ?thesis
      by (subst ackq_push.simps) (auto simp: last_short_def)
  qed
qed

lemma ackq_push_full: "aq_max_ranges q \<le> length (aq_queue q) \<Longrightarrow> ackq_push q r = q"
  by (subst ackq_push.simps) simp

section \<open>What a pop takes\<close>

lemma pop_loop_split: "pop_loop mtu mx used out queue = (out', queue') \<Longrightarrow> out @ queue = out' @ queue'"
  by (induction mtu mx used out queue rule: pop_loop.induct)
    (auto simp: Let_def split: if_splits)

lemma pop_loop_count:
  "pop_loop mtu mx used out queue = (out', queue') \<Longrightarrow> length out \<le> mx \<Longrightarrow> length out' \<le> mx"
  by (induction mtu mx used out queue rule: pop_loop.induct)
    (auto simp: Let_def split: if_splits)

lemma pop_loop_fits:
  "pop_loop mtu mx (base + sum_list (map popped_size out)) out queue = (out', queue') \<Longrightarrow>
   length out \<le> 1 \<or> base + sum_list (map popped_size out) \<le> mtu \<Longrightarrow>
   length out' \<le> 1 \<or> base + sum_list (map popped_size out') \<le> mtu"
proof (induction queue arbitrary: out)
  case (Cons front queue)
  have "base + sum_list (map popped_size (out @ [front])) =
      base + sum_list (map popped_size out) + popped_size front" by simp
  with Cons.prems Cons.IH [of "out @ [front]"] show ?case
    by (auto simp: Let_def not_less add.assoc split: if_splits)
qed simp

lemma popped_size_le: "popped_size r \<le> 14"
  by (auto simp: popped_size_def range_encoded_size_def split: option.splits)

lemma pop_loop_progress:
  "0 < mx \<Longrightarrow> queue \<noteq> [] \<Longrightarrow> fst (pop_loop mtu mx used [] queue) \<noteq> []"
proof -
  have mono: "out \<noteq> [] \<Longrightarrow> fst (pop_loop mtu mx used out queue) \<noteq> []" for mtu mx used out queue
    by (induction mtu mx used out queue rule: pop_loop.induct) (auto simp: Let_def)
  assume "0 < mx" "queue \<noteq> []"
  then show ?thesis by (cases queue) (auto simp: Let_def mono)
qed

lemma pop_for_mtu_split:
  "pop_for_mtu q mtu base mx = (out, q') \<Longrightarrow> aq_queue q = out @ aq_queue q' \<and> aq_max_ranges q' = aq_max_ranges q"
  by (auto simp: pop_for_mtu_def split: if_splits prod.splits dest: pop_loop_split)

lemma pop_for_mtu_count: "pop_for_mtu q mtu base mx = (out, q') \<Longrightarrow> length out \<le> mx"
  by (auto simp: pop_for_mtu_def split: if_splits prod.splits dest: pop_loop_count)

lemma pop_for_mtu_progress:
  "pop_for_mtu q mtu base mx = (out, q') \<Longrightarrow> 0 < mx \<Longrightarrow> aq_queue q \<noteq> [] \<Longrightarrow> out \<noteq> []"
  using pop_loop_progress [of mx "aq_queue q" mtu base]
  by (auto simp: pop_for_mtu_def split: prod.splits)

lemma pop_for_mtu_fits:
  assumes "pop_for_mtu q mtu base mx = (out, q')" and "base + 14 \<le> mtu"
  shows "base + sum_list (map popped_size out) \<le> mtu"
proof (cases "mx = 0")
  case True
  then show ?thesis using assms by (auto simp: pop_for_mtu_def)
next
  case False
  then have "length out \<le> 1 \<or> base + sum_list (map popped_size out) \<le> mtu"
    using assms(1) pop_loop_fits [of mtu mx base "[]" "aq_queue q" out]
    by (auto simp: pop_for_mtu_def split: prod.splits)
  moreover have "length out \<le> 1 \<Longrightarrow> sum_list (map popped_size out) \<le> 14"
    using popped_size_le by (cases out) auto
  ultimately show ?thesis using assms(2) by linarith
qed

lemma ack_encoded_size_popped: "ack_encoded_size p = 2 + sum_list (map popped_size (ann_ranges p))"
  by (simp add: ack_encoded_size_def popped_size_def [abs_def])

text \<open>The ranges read from an encoded ACK or NACK cover exactly the sequence numbers the sender
  listed; none of them wraps around, and the encoding has the announced size.\<close>

theorem ack_payload_roundtrip:
  assumes "ack_encode p = Inr bs"
  shows "\<exists>p'. ack_decode (bs @ rest) = Inr (p', rest) \<and> covered (ann_ranges p') = covered (ann_ranges p)
     \<and> (\<forall>r \<in> set (ann_ranges p'). \<not> range_wraps r) \<and> length bs = ack_encoded_size p"
  using ack_enc_dec [OF assms] unwrap_ranges_set unwrap_ranges_no_wrap ack_encode_length [OF assms]
  by (auto simp: covered_def)

theorem ack_payload_roundtrip_witness:
  "\<exists>p'. ack_decode ([0, 3, 0, 0xFE, 0xFF, 0xFF, 0xFF, 0xFF, 0xFF, 0, 0, 0, 0, 2, 0, 0, 1, 9, 0, 0] @ [])
        = Inr (p', [])
     \<and> covered (ann_ranges p') = covered (ann_ranges \<lparr>ann_ranges = [mk_range 0xFFFFFE 2, mk_range 9 9]\<rparr>)
     \<and> (\<forall>r \<in> set (ann_ranges p'). \<not> range_wraps r)
     \<and> length [0, 3, 0, 0xFE, 0xFF, 0xFF, 0xFF, 0xFF, 0xFF, 0, 0, 0, 0, 2, 0, 0, 1, 9, 0, 0 :: u8]
         = ack_encoded_size \<lparr>ann_ranges = [mk_range 0xFFFFFE 2, mk_range 9 9]\<rparr>"
  by (rule ack_payload_roundtrip) code_simp

text \<open>C22: with room in the queue, pushing a range adds exactly its numbers to those the queue stands
  for, also when the range wraps around or is merged with the last one, and the queue stays within
  its capacity.\<close>

theorem ackq_push_exact:
  assumes "range_short r" and "last_short q" and "length (aq_queue q) + record_count r \<le> aq_max_ranges q"
  shows "covered (aq_queue (ackq_push q r)) = covered (aq_queue q) \<union> range_set r
     \<and> length (aq_queue (ackq_push q r)) \<le> aq_max_ranges q"
  using ackq_push_covers [OF assms] ackq_push_bounded [of q r] assms(3) by auto

definition one_range :: AckQueue where
  "one_range = (ackq_new 8)\<lparr>aq_queue := [mk_range 5 9]\<rparr>"

theorem ackq_push_exact_witness:
  "covered (aq_queue (ackq_push one_range (mk_range 0xFFFFFE 2)))
     = covered (aq_queue one_range) \<union> range_set (mk_range 0xFFFFFE 2)
   \<and> length (aq_queue (ackq_push one_range (mk_range 0xFFFFFE 2))) \<le> aq_max_ranges one_range"
  by (rule ackq_push_exact)
    (simp_all add: one_range_def range_short_def last_short_def record_count_def ackq_new_def)

text \<open>C23: what is popped for one datagram and what stays are together what was queued, in order; the
  batch respects the number of ranges asked for and fits the MTU, and it is empty only when nothing
  is queued or asked for.\<close>

theorem pop_for_mtu_exact:
  assumes "pop_for_mtu q mtu base mx = (out, q')" and "base + 14 \<le> mtu"
  shows "aq_queue q = out @ aq_queue q' \<and> length out \<le> mx
     \<and> base + (ack_encoded_size \<lparr>ann_ranges = out\<rparr> - 2) \<le> mtu
     \<and> (out = [] \<longleftrightarrow> mx = 0 \<or> aq_queue q = [])"
proof -
  have "out = [] \<longleftrightarrow> mx = 0 \<or> aq_queue q = []"
    using pop_for_mtu_progress [OF assms(1)] pop_for_mtu_split [OF assms(1)] pop_for_mtu_count [OF assms(1)] by auto
  then show ?thesis
    using pop_for_mtu_split [OF assms(1)] pop_for_mtu_count [OF assms(1)] pop_for_mtu_fits [OF assms]
    by (simp add: ack_encoded_size_popped)
qed

definition two_ranges :: AckQueue where
  "two_ranges = (ackq_new 8)\<lparr>aq_queue := [mk_range 5 9, mk_range 0xFFFFFE 2]\<rparr>"

theorem pop_for_mtu_exact_witness:
  "aq_queue two_ranges = [mk_range 5 9] @ aq_queue ((ackq_new 8)\<lparr>aq_queue := [mk_range 0xFFFFFE 2]\<rparr>)
   \<and> length [mk_range 5 9] \<le> 4
   \<and> 3 + (ack_encoded_size \<lparr>ann_ranges = [mk_range 5 9]\<rparr> - 2) \<le> 17
   \<and> ([mk_range 5 9] = [] \<longleftrightarrow> (4 :: nat) = 0 \<or> aq_queue two_ranges = [])"
  by (rule pop_for_mtu_exact; code_simp)

end
