(* ===== verification/ReliableTracker.thy ===== *)
theory ReliableTracker
  imports Sequence24
begin

text \<open>
  \<^verbatim>\<open>src/session/reliable_tracker.rs\<close>: the sliding window over reliable frame indices.  The locale
  \<open>exactly_once\<close> is the contract of a duplicate filter on unbounded indices; \<open>see\<close> implements it as
  long as indices stay within the window, while \<open>has_seen\<close> answers only for the indices ahead of the
  base.
\<close>

record ReliableTracker =
  rt_base :: Sequence24
  rt_seen_ahead :: "bool list"
  rt_max_window :: usize

definition tracker_new :: "usize \<Rightarrow> ReliableTracker" where
  "tracker_new max_window = \<lparr>rt_base = seq_new 0, rt_seen_ahead = [], rt_max_window = max_window\<rparr>"

fun advance :: "Sequence24 \<Rightarrow> bool list \<Rightarrow> Sequence24 \<times> bool list" where
  "advance base (True # ahead) = advance (seq_next base) ahead"
| "advance base ahead = (base, ahead)"

definition advance_base :: "ReliableTracker \<Rightarrow> ReliableTracker" where
  "advance_base t =
     (let (base, ahead) = advance (rt_base t) (rt_seen_ahead t)
      in t\<lparr>rt_base := base, rt_seen_ahead := ahead\<rparr>)"

definition tracker_see :: "ReliableTracker \<Rightarrow> Sequence24 \<Rightarrow> bool \<times> ReliableTracker" where
  "tracker_see t ridx =
     (if ridx = rt_base t then (True, advance_base (t\<lparr>rt_base := seq_next (rt_base t)\<rparr>))
      else let distance = unat (distance_to (rt_base t) ridx)
           in if distance = 0 \<or> distance > rt_max_window t then (False, t)
              else let off = distance - 1;
                       ahead = (if length (rt_seen_ahead t) \<le> off
                                then rt_seen_ahead t @ replicate (off + 1 - length (rt_seen_ahead t)) False
                                else rt_seen_ahead t)
                   in if ahead ! off then (False, t\<lparr>rt_seen_ahead := ahead\<rparr>)
                      else (True, t\<lparr>rt_seen_ahead := ahead[off := True]\<rparr>))"

definition has_seen :: "ReliableTracker \<Rightarrow> Sequence24 \<Rightarrow> bool" where
  "has_seen t ridx =
     (if ridx = rt_base t then False
      else let distance = unat (distance_to (rt_base t) ridx)
           in if distance = 0 then True
              else if distance > rt_max_window t then False
              else let off = distance - 1
                   in if off < length (rt_seen_ahead t) then rt_seen_ahead t ! off else False)"

section \<open>The contract of a duplicate filter\<close>

text \<open>
  \<open>rel s S\<close>: the state \<open>s\<close> stands for the set \<open>S\<close> of indices accepted so far; \<open>win S n\<close>: index \<open>n\<close> is
  one the filter undertakes to judge.
\<close>

locale exactly_once =
  fixes rel :: "'s \<Rightarrow> nat set \<Rightarrow> bool"
    and win :: "'s \<Rightarrow> nat set \<Rightarrow> nat \<Rightarrow> bool"
    and step :: "'s \<Rightarrow> nat \<Rightarrow> bool \<times> 's"
  assumes step_accepts: "rel s S \<Longrightarrow> win s S n \<Longrightarrow> fst (step s n) \<longleftrightarrow> n \<notin> S"
    and step_rel: "rel s S \<Longrightarrow> win s S n \<Longrightarrow> rel (snd (step s n)) (insert n S)"
begin

primrec run :: "'s \<Rightarrow> nat list \<Rightarrow> bool list" where
  "run s [] = []"
| "run s (n # ns) = fst (step s n) # run (snd (step s n)) ns"

primrec run_win :: "'s \<Rightarrow> nat set \<Rightarrow> nat list \<Rightarrow> bool" where
  "run_win s S [] = True"
| "run_win s S (n # ns) = (win s S n \<and> run_win (snd (step s n)) (insert n S) ns)"

lemma run_once:
  "rel s S \<Longrightarrow> run_win s S ns \<Longrightarrow>
     i < length ns \<Longrightarrow> run s ns ! i \<longleftrightarrow> ns ! i \<notin> S \<union> set (take i ns)"
proof (induction ns arbitrary: s S i)
  case (Cons n ns)
  then show ?case
    using Cons.IH [OF step_rel [of s S n], of "i - 1"] step_accepts [of s S n]
    by (cases i) auto
qed simp

end

section \<open>The tracker is one\<close>

definition ahead_set :: "nat \<Rightarrow> bool list \<Rightarrow> nat set" where
  "ahead_set B ahead = {n. B < n \<and> n - B - 1 < length ahead \<and> ahead ! (n - B - 1)}"

text \<open>\<open>B\<close> is the base as an unbounded index: everything below it was seen, it was not itself.\<close>

definition tracks :: "nat \<Rightarrow> ReliableTracker \<Rightarrow> nat set \<Rightarrow> bool" where
  "tracks B t S \<longleftrightarrow>
     rt_base t = of_nat B \<and> S = {..<B} \<union> ahead_set B (rt_seen_ahead t)
     \<and> length (rt_seen_ahead t) \<le> rt_max_window t \<and> rt_max_window t < 16777216"

lemma tracks_base_notin: "tracks B t S \<Longrightarrow> B \<notin> S"
  by (auto simp: tracks_def ahead_set_def)

lemma tracks_below_in: "tracks B t S \<Longrightarrow> n < B \<Longrightarrow> n \<in> S"
  by (auto simp: tracks_def)

lemma tracks_unique: "tracks B t S \<Longrightarrow> tracks B' t' S \<Longrightarrow> B = B'"
  by (metis linorder_neqE_nat tracks_base_notin tracks_below_in)


text \<open>
  When the base itself arrives, the marks of the run that follows it are consumed one for one.
  The slot of the next missing index is not removed, so every mark beyond it comes to stand for
  the following index.
\<close>

lemma advance_run:
  "advance b (replicate k True @ ahead) = advance (b + of_nat k) ahead"
  by (induction k arbitrary: b) (simp_all add: seq_next_eq ac_simps)

lemma advance_stop: "ahead = [] \<or> \<not> hd ahead \<Longrightarrow> advance b ahead = (b, ahead)"
  by (cases "(b, ahead)" rule: advance.cases) auto

lemma run_split: "\<exists>k rest. ahead = replicate k True @ rest \<and> (rest = [] \<or> \<not> hd rest)"
proof (induction ahead)
  case (Cons a ahead)
  then obtain k rest where "ahead = replicate k True @ rest" "rest = [] \<or> \<not> hd rest" by blast
  then show ?case
    by (cases a) (auto intro: exI [of _ "Suc k"] exI [of _ 0])
qed simp

lemma tracker_see_base:
  assumes "rt_seen_ahead t = replicate k True @ rest" and "rest = [] \<or> \<not> hd rest"
  shows "tracker_see t (rt_base t) =
    (True, t\<lparr>rt_base := rt_base t + of_nat (Suc k), rt_seen_ahead := rest\<rparr>)"
  using assms advance_stop [OF assms(2)]
  by (simp add: tracker_see_def advance_base_def advance_run seq_next_eq ac_simps)

definition gapless :: "ReliableTracker \<Rightarrow> bool" where
  "gapless t \<longleftrightarrow> list_all (\<lambda>b. b) (rt_seen_ahead t)"

definition judged :: "nat \<Rightarrow> ReliableTracker \<Rightarrow> nat \<Rightarrow> bool" where
  "judged B t n \<longleftrightarrow>
     n \<le> B + rt_max_window t \<and> B + rt_max_window t < n + 16777216 \<and> (n = B \<longrightarrow> gapless t)"

lemma see_ahead:
  assumes tr: "tracks B t S" and n: "B < n" "n \<le> B + rt_max_window t"
  shows "fst (tracker_see t (of_nat n)) \<longleftrightarrow> n \<notin> S"
    and "tracks B (snd (tracker_see t (of_nat n))) (insert n S)"
proof -
  define ahead where "ahead = rt_seen_ahead t @ replicate (n - B - length (rt_seen_ahead t)) False"
  have base: "rt_base t = of_nat B" and mw: "rt_max_window t < 16777216"
    and S: "S = {..<B} \<union> ahead_set B (rt_seen_ahead t)" and len: "length (rt_seen_ahead t) \<le> rt_max_window t"
    using tr by (auto simp: tracks_def)
  have off: "offset (of_nat B) (of_nat n) = n - B" using n mw by (intro offset_of_nat) auto
  have ne: "of_nat n \<noteq> (of_nat B :: Sequence24)" using off n by auto
  have ahead_eq: "(if length (rt_seen_ahead t) \<le> n - B - 1
      then rt_seen_ahead t @ replicate (n - B - 1 + 1 - length (rt_seen_ahead t)) False
      else rt_seen_ahead t) = ahead"
    using n by (simp add: ahead_def)
  have n': "n - B \<noteq> 0" "\<not> rt_max_window t < n - B" using n by auto
  have see: "tracker_see t (of_nat n) =
     (if ahead ! (n - B - 1) then (False, t\<lparr>rt_seen_ahead := ahead\<rparr>)
      else (True, t\<lparr>rt_seen_ahead := ahead[n - B - 1 := True]\<rparr>))"
    unfolding tracker_see_def Let_def unat_distance_to base off ahead_eq using n' ne by simp
  have l: "n - B - 1 < length ahead" "length ahead \<le> rt_max_window t"
    using n len by (auto simp: ahead_def)
  have "ahead ! i \<longleftrightarrow> i < length (rt_seen_ahead t) \<and> rt_seen_ahead t ! i" if "i < length ahead" for i
    using that by (auto simp: ahead_def nth_append)
  moreover have "length (rt_seen_ahead t) \<le> length ahead" by (simp add: ahead_def)
  ultimately have set: "ahead_set B ahead = ahead_set B (rt_seen_ahead t)"
    by (fastforce simp: ahead_set_def)
  have "ahead ! (n - B - 1) \<longleftrightarrow> n \<in> ahead_set B ahead" using n l by (simp add: ahead_set_def)
  moreover have "ahead_set B (ahead[n - B - 1 := True]) = insert n (ahead_set B ahead)"
    using n l by (auto simp: ahead_set_def nth_list_update)
  ultimately show "fst (tracker_see t (of_nat n)) \<longleftrightarrow> n \<notin> S"
    and "tracks B (snd (tracker_see t (of_nat n))) (insert n S)"
    using n base mw l by (auto simp: see tracks_def S set)
qed

lemma see_behind:
  assumes "tracks B t S" and "n < B" and "B + rt_max_window t < n + 16777216"
  shows "tracker_see t (of_nat n) = (False, t)"
proof -
  have off: "offset (of_nat B) (of_nat n) = n + 16777216 - B"
    using assms by (intro offset_of_nat_below) auto
  have "of_nat n \<noteq> (of_nat B :: Sequence24)" using off assms by auto
  then show ?thesis
    using assms off by (auto simp: tracker_see_def Let_def tracks_def)
qed

lemma see_base:
  assumes tr: "tracks B t S" and g: "gapless t"
  defines "k \<equiv> length (rt_seen_ahead t)"
  shows "tracker_see t (of_nat B) = (True, t\<lparr>rt_base := of_nat (B + Suc k), rt_seen_ahead := []\<rparr>)"
    and "tracks (B + Suc k) (snd (tracker_see t (of_nat B))) (insert B S)"
proof -
  have ahead: "rt_seen_ahead t = replicate k True @ []"
    using g by (auto simp: k_def gapless_def list_all_iff intro!: replicate_eqI)
  show see: "tracker_see t (of_nat B) = (True, t\<lparr>rt_base := of_nat (B + Suc k), rt_seen_ahead := []\<rparr>)"
    using tr tracker_see_base [OF ahead] by (simp add: tracks_def)
  have "ahead_set B (replicate k True) = {B<..<B + Suc k}"
    by (auto simp: ahead_set_def)
  then have "{..<B + Suc k} = insert B S"
    using tr ahead by (auto simp: tracks_def)
  then show "tracks (B + Suc k) (snd (tracker_see t (of_nat B))) (insert B S)"
    using tr unfolding see by (simp add: tracks_def ahead_set_def)
qed

interpretation tracker: exactly_once
  "\<lambda>t S. \<exists>B. tracks B t S"
  "\<lambda>t S n. \<exists>B. tracks B t S \<and> judged B t n"
  "\<lambda>t n. tracker_see t (of_nat n)"
proof
  fix t S n
  assume "\<exists>B. tracks B t S \<and> judged B t n"
  then obtain B where tr: "tracks B t S" and j: "judged B t n" by blast
  consider "n < B" | "n = B" | "B < n" by linarith
  then have "(fst (tracker_see t (of_nat n)) \<longleftrightarrow> n \<notin> S) \<and> (\<exists>B. tracks B (snd (tracker_see t (of_nat n))) (insert n S))"
  proof cases
    case 1
    with tr j have "tracker_see t (of_nat n) = (False, t)" and "n \<in> S"
      by (auto simp: judged_def intro: see_behind tracks_below_in)
    with tr show ?thesis by (auto simp: insert_absorb)
  next
    case 2
    with tr j show ?thesis using see_base [OF tr] tracks_base_notin [OF tr] by (auto simp: judged_def)
  next
    case 3
    with tr j show ?thesis using see_ahead [OF tr] by (auto simp: judged_def)
  qed
  then show "fst (tracker_see t (of_nat n)) \<longleftrightarrow> n \<notin> S"
    and "\<exists>B. tracks B (snd (tracker_see t (of_nat n))) (insert n S)" by blast+
qed

lemma tracks_new: "w < 16777216 \<Longrightarrow> tracks 0 (tracker_new w) {}"
  by (simp add: tracks_def tracker_new_def ahead_set_def seq_new_eq)

lemma tracker_see_window:
  "rt_max_window (snd (tracker_see t r)) = rt_max_window t"
  by (auto simp: tracker_see_def advance_base_def Let_def split: prod.splits)

lemma advance_length: "length (snd (advance b ahead)) \<le> length ahead"
  by (induction b ahead rule: advance.induct) auto

lemma tracker_see_length:
  "length (rt_seen_ahead t) \<le> rt_max_window t \<Longrightarrow>
     length (rt_seen_ahead (snd (tracker_see t r))) \<le> rt_max_window t"
  using advance_length [of "seq_next (rt_base t)" "rt_seen_ahead t"]
  by (auto simp: tracker_see_def advance_base_def Let_def split: prod.splits)

lemma has_seen_behind:
  assumes "tracks B t S" and "n < B" and "B + rt_max_window t < n + 16777216"
  shows "\<not> has_seen t (of_nat n)"
proof -
  have off: "offset (of_nat B) (of_nat n) = n + 16777216 - B"
    using assms by (intro offset_of_nat_below) auto
  have "of_nat n \<noteq> (of_nat B :: Sequence24)" using off assms by auto
  then show ?thesis
    using assms off by (auto simp: has_seen_def Let_def tracks_def)
qed

text \<open>The marks move up by one when the base arrives while an index after it is missing.\<close>

lemma see_base_shifts:
  assumes tr: "rt_base t = of_nat B" "rt_seen_ahead t = replicate k True @ rest" "rest \<noteq> []" "\<not> hd rest"
  shows "rt_base (snd (tracker_see t (of_nat B))) = of_nat (B + Suc k)"
    and "ahead_set (B + Suc k) (rt_seen_ahead (snd (tracker_see t (of_nat B)))) =
      Suc ` {n \<in> ahead_set B (rt_seen_ahead t). B + Suc k < n}"
proof -
  have see: "tracker_see t (of_nat B) =
      (True, t\<lparr>rt_base := of_nat (B + Suc k), rt_seen_ahead := rest\<rparr>)"
    using tracker_see_base [of t k rest] tr by simp
  show "rt_base (snd (tracker_see t (of_nat B))) = of_nat (B + Suc k)" by (simp add: see)
  have "n \<in> ahead_set (B + Suc k) rest \<longleftrightarrow> n \<in> Suc ` {n \<in> ahead_set B (rt_seen_ahead t). B + Suc k < n}" for n
  proof (cases n)
    case (Suc m)
    have "m - B - 1 = k + (Suc m - (B + Suc k) - 1)" if "B + Suc k \<le> m" using that by simp
    moreover have "rest ! 0 = False" using tr(3,4) by (cases rest) auto
    ultimately show ?thesis
      by (cases "m = Suc (B + k)") (auto simp: Suc ahead_set_def tr(2) nth_append image_iff)
  qed (simp add: ahead_set_def)
  then show "ahead_set (B + Suc k) (rt_seen_ahead (snd (tracker_see t (of_nat B)))) =
      Suc ` {n \<in> ahead_set B (rt_seen_ahead t). B + Suc k < n}"
    by (auto simp: see)
qed

fun see_all :: "ReliableTracker \<Rightarrow> Sequence24 list \<Rightarrow> bool list" where
  "see_all t [] = []"
| "see_all t (r # rs) = (let (new, t') = tracker_see t r in new # see_all t' rs)"

text \<open>The base moves with every frame; \<open>B\<close> counts it without wrapping.\<close>

fun judged_run :: "nat \<Rightarrow> ReliableTracker \<Rightarrow> nat list \<Rightarrow> bool" where
  "judged_run B t [] = True"
| "judged_run B t (n # ns) =
     (let t' = snd (tracker_see t (of_nat n))
      in judged B t n \<and> judged_run (B + offset (rt_base t) (rt_base t')) t' ns)"

lemma judged_step:
  assumes tr: "tracks B t S" and j: "judged B t n" and w: "rt_max_window t < 16777215"
  shows "tracks (B + offset (rt_base t) (rt_base (snd (tracker_see t (of_nat n))))) (snd (tracker_see t (of_nat n))) (insert n S)"
proof -
  have b: "rt_base t = of_nat B" using tr by (simp add: tracks_def)
  consider "n < B" | "n = B" | "B < n" by linarith
  then show ?thesis
  proof cases
    case 1
    then have "tracker_see t (of_nat n) = (False, t)" "n \<in> S"
      using tr j by (auto simp: judged_def intro: see_behind tracks_below_in)
    then show ?thesis using tr by (simp add: insert_absorb)
  next
    case 2
    let ?k = "length (rt_seen_ahead t)"
    have "?k \<le> rt_max_window t" using tr by (simp add: tracks_def)
    then have "offset (of_nat B) (of_nat (B + Suc ?k)) = Suc ?k"
      using w offset_of_nat [of B "B + Suc ?k"] by simp
    then show ?thesis using see_base [OF tr] j 2 b by (simp add: judged_def)
  next
    case 3
    have n: "n \<le> B + rt_max_window t" using j by (simp add: judged_def)
    have t: "tracks B (snd (tracker_see t (of_nat n))) (insert n S)" by (rule see_ahead(2) [OF tr 3 n])
    then have "rt_base (snd (tracker_see t (of_nat n))) = rt_base t" using b by (simp add: tracks_def)
    then show ?thesis using t by simp
  qed
qed

lemma judged_run_win:
  "tracks B t S \<Longrightarrow> rt_max_window t < 16777215 \<Longrightarrow> judged_run B t ns \<Longrightarrow> tracker.run_win t S ns"
proof (induction ns arbitrary: B t S)
  case (Cons n ns)
  then show ?case
    using judged_step [of B t S n] by (auto simp: Let_def tracker_see_window)
qed simp

lemma see_all_run: "see_all t (map of_nat ns) = tracker.run t ns"
  by (induction ns arbitrary: t) (auto simp: Let_def split: prod.splits)

text \<open>C25: over any run of reliable indices within the window, each index is reported as new the first
  time and never again, provided that no gap is open behind the base whenever the base itself
  arrives.\<close>

theorem tracker_exactly_once:
  assumes "w < 16777215" and "judged_run 0 (tracker_new w) ns" and "i < length ns"
  shows "see_all (tracker_new w) (map of_nat ns) ! i \<longleftrightarrow> ns ! i \<notin> set (take i ns)"
proof -
  have t: "tracks 0 (tracker_new w) {}" using assms(1) by (intro tracks_new) simp
  have "tracker.run_win (tracker_new w) {} ns"
    using judged_run_win [OF t _ assms(2)] assms(1) by (simp add: tracker_new_def)
  with tracker.run_once [of "tracker_new w" "{}" ns i] t assms(3) show ?thesis
    by (auto simp: see_all_run)
qed

lemma unat_minus_one_seq: "unat (- 1 :: Sequence24) = 16777215"
  using unat_seq_minus [of 1 0] by simp

lemma sample_steps:
  "tracker_see (tracker_new 8) 1 = (True, \<lparr>rt_base = 0, rt_seen_ahead = [True], rt_max_window = 8\<rparr>)"
  "tracker_see \<lparr>rt_base = 0, rt_seen_ahead = [True], rt_max_window = 8\<rparr> 0
     = (True, \<lparr>rt_base = 2, rt_seen_ahead = [], rt_max_window = 8\<rparr>)"
  "tracker_see \<lparr>rt_base = 2, rt_seen_ahead = [], rt_max_window = 8\<rparr> 1
     = (False, \<lparr>rt_base = 2, rt_seen_ahead = [], rt_max_window = 8\<rparr>)"
  by (simp_all add: tracker_see_def tracker_new_def advance_base_def seq_next_eq seq_new_eq unat_minus_one_seq)

theorem tracker_exactly_once_witness:
  "see_all (tracker_new 8) (map of_nat [1, 0, 1]) ! 2 \<longleftrightarrow> [1, 0, 1] ! 2 \<notin> set (take 2 [1, 0, 1 :: nat])"
proof (rule tracker_exactly_once)
  show "judged_run 0 (tracker_new 8) [1, 0, 1]"
    by (simp add: sample_steps) (simp add: judged_def gapless_def tracker_new_def seq_new_eq)
qed simp_all

end
