(* ===== verification/BTreeMap.thy ===== *)
theory BTreeMap
  imports Sequence24
begin

text \<open>
  \<^verbatim>\<open>std::collections::BTreeMap\<close> as its documentation describes it: the entries in key order,
  searched with \<^verbatim>\<open>Ord::cmp\<close>.  The contract holds for keys on which the comparison is a total
  order; the locale \<open>key_order\<close> states that, and is interpreted for \<^verbatim>\<open>u32\<close> keys and for
  \<^verbatim>\<open>Sequence24\<close> keys inside a half window, the only place where its wrapping \<^verbatim>\<open>Ord\<close> is an order.
\<close>

type_synonym ('k, 'v) btree = "('k \<times> 'v) list"

fun bt_get :: "('k \<Rightarrow> 'k \<Rightarrow> Ordering) \<Rightarrow> ('k, 'v) btree \<Rightarrow> 'k \<Rightarrow> 'v option" where
  "bt_get cmp [] k = None"
| "bt_get cmp ((k', v) # m) k =
     (case cmp k k' of Equal \<Rightarrow> Some v | Less \<Rightarrow> None | Greater \<Rightarrow> bt_get cmp m k)"

fun bt_insert :: "('k \<Rightarrow> 'k \<Rightarrow> Ordering) \<Rightarrow> 'k \<Rightarrow> 'v \<Rightarrow> ('k, 'v) btree \<Rightarrow> ('k, 'v) btree" where
  "bt_insert cmp k v [] = [(k, v)]"
| "bt_insert cmp k v ((k', v') # m) =
     (case cmp k k' of Equal \<Rightarrow> (k', v) # m | Less \<Rightarrow> (k, v) # (k', v') # m
      | Greater \<Rightarrow> (k', v') # bt_insert cmp k v m)"

fun bt_remove :: "('k \<Rightarrow> 'k \<Rightarrow> Ordering) \<Rightarrow> 'k \<Rightarrow> ('k, 'v) btree \<Rightarrow> ('k, 'v) btree" where
  "bt_remove cmp k [] = []"
| "bt_remove cmp k ((k', v') # m) =
     (case cmp k k' of Equal \<Rightarrow> m | Less \<Rightarrow> (k', v') # m | Greater \<Rightarrow> (k', v') # bt_remove cmp k m)"

abbreviation bt_keys :: "('k, 'v) btree \<Rightarrow> 'k set" where
  "bt_keys m \<equiv> fst ` set m"

fun bt_sorted :: "('k \<Rightarrow> 'k \<Rightarrow> Ordering) \<Rightarrow> ('k, 'v) btree \<Rightarrow> bool" where
  "bt_sorted cmp [] = True"
| "bt_sorted cmp ((k, v) # m) = (list_all (\<lambda>e. cmp k (fst e) = Less) m \<and> bt_sorted cmp m)"

text \<open>Facts that need no order.\<close>

lemma bt_get_in: "bt_get cmp m k = Some v \<Longrightarrow> (\<And>a b. cmp a b = Equal \<Longrightarrow> a = b) \<Longrightarrow> (k, v) \<in> set m"
  by (induction cmp m k rule: bt_get.induct) (auto split: Ordering.splits)

lemma bt_remove_subset: "set (bt_remove cmp k m) \<subseteq> set m"
  by (induction cmp k m rule: bt_remove.induct) (auto split: Ordering.splits)

lemma bt_get_Some_remove_length:
  "bt_get cmp m k = Some v \<Longrightarrow> Suc (length (bt_remove cmp k m)) = length m"
  by (induction cmp m k rule: bt_get.induct) (auto split: Ordering.splits)

lemma bt_insert_length:
  "length (bt_insert cmp k v m) = (if bt_get cmp m k = None then Suc (length m) else length m)"
  by (induction cmp k v m rule: bt_insert.induct) (auto split: Ordering.splits)

lemma bt_remove_length:
  "length (bt_remove cmp k m) = (if bt_get cmp m k = None then length m else length m - 1)"
  by (induction cmp k m rule: bt_remove.induct)
    (auto split: Ordering.splits simp: neq_Nil_conv dest: bt_get_Some_remove_length)

section \<open>The contract\<close>

locale key_order =
  fixes K :: "'k set" and cmp :: "'k \<Rightarrow> 'k \<Rightarrow> Ordering"
  assumes cmp_Equal: "a \<in> K \<Longrightarrow> b \<in> K \<Longrightarrow> cmp a b = Equal \<longleftrightarrow> a = b"
    and cmp_Greater: "a \<in> K \<Longrightarrow> b \<in> K \<Longrightarrow> cmp a b = Greater \<longleftrightarrow> cmp b a = Less"
    and cmp_trans: "a \<in> K \<Longrightarrow> b \<in> K \<Longrightarrow> c \<in> K \<Longrightarrow> cmp a b = Less \<Longrightarrow> cmp b c = Less \<Longrightarrow> cmp a c = Less"
begin

definition wf :: "('k, 'v) btree \<Rightarrow> bool" where
  "wf m \<longleftrightarrow> bt_sorted cmp m \<and> bt_keys m \<subseteq> K"

lemma wf_Nil [simp]: "wf []"
  by (simp add: wf_def)

lemma wf_Cons: "wf ((k, v) # m) \<longleftrightarrow> k \<in> K \<and> (\<forall>e \<in> set m. cmp k (fst e) = Less) \<and> wf m"
  by (auto simp: wf_def list_all_iff)

lemma cmp_refl: "k \<in> K \<Longrightarrow> cmp k k = Equal"
  by (simp add: cmp_Equal)

lemma wf_distinct: "wf m \<Longrightarrow> distinct (map fst m)"
proof (induction m)
  case (Cons e m)
  then show ?case
    by (cases e) (force simp: wf_Cons cmp_refl)
qed simp

lemma get_map_of: "wf m \<Longrightarrow> k \<in> K \<Longrightarrow> bt_get cmp m k = map_of m k"
proof (induction m)
  case (Cons e m)
  obtain k' v where e: "e = (k', v)" by (cases e)
  have "cmp k k' = Less \<Longrightarrow> k \<notin> fst ` set m"
    using Cons.prems by (force simp: e wf_Cons dest: cmp_Greater [THEN iffD2])
  with Cons show ?case
    by (cases "cmp k k'") (auto simp: e wf_Cons cmp_Equal cmp_refl map_of_eq_None_iff [THEN iffD2])
qed simp

lemma set_insert_wf:
  "wf m \<Longrightarrow> k \<in> K \<Longrightarrow> set (bt_insert cmp k v m) = insert (k, v) {e \<in> set m. fst e \<noteq> k}"
proof (induction m)
  case (Cons e m)
  obtain k' v' where e: "e = (k', v')" by (cases e)
  have "cmp k k' = Less \<Longrightarrow> k \<notin> fst ` set m"
    using Cons.prems by (force simp: e wf_Cons dest: cmp_Greater [THEN iffD2])
  moreover have "k = k' \<Longrightarrow> k \<notin> fst ` set m"
    using wf_distinct [OF Cons.prems(1)] by (simp add: e)
  ultimately show ?case
    using Cons by (cases "cmp k k'") (auto simp: e wf_Cons cmp_Equal cmp_refl image_iff)
qed simp

lemma set_insert_new:
  "wf m \<Longrightarrow> k \<in> K \<Longrightarrow> k \<notin> bt_keys m \<Longrightarrow> set (bt_insert cmp k v m) = insert (k, v) (set m)"
  by (auto simp: set_insert_wf)

lemma set_remove_wf: "wf m \<Longrightarrow> k \<in> K \<Longrightarrow> set (bt_remove cmp k m) = {e \<in> set m. fst e \<noteq> k}"
proof (induction m)
  case (Cons e m)
  obtain k' v' where e: "e = (k', v')" by (cases e)
  have "cmp k k' = Less \<Longrightarrow> k \<notin> fst ` set m"
    using Cons.prems by (force simp: e wf_Cons dest: cmp_Greater [THEN iffD2])
  moreover have "k = k' \<Longrightarrow> k \<notin> fst ` set m"
    using wf_distinct [OF Cons.prems(1)] by (simp add: e)
  ultimately show ?case
    using Cons by (cases "cmp k k'") (auto simp: e wf_Cons cmp_Equal cmp_refl image_iff)
qed simp

lemma wf_insert: "wf m \<Longrightarrow> k \<in> K \<Longrightarrow> wf (bt_insert cmp k v m)"
proof (induction m)
  case (Cons e m)
  obtain k' v' where e: "e = (k', v')" by (cases e)
  show ?case
  proof (cases "cmp k k'")
    case Less
    with Cons.prems show ?thesis
      by (auto simp: e wf_Cons) (metis cmp_trans image_subset_iff wf_def fst_conv imageI)
  next
    case Equal
    with Cons.prems show ?thesis by (auto simp: e wf_Cons)
  next
    case Greater
    then have "cmp k' k = Less" using Cons.prems by (simp add: e wf_Cons cmp_Greater)
    with Greater Cons show ?thesis by (auto simp: e wf_Cons set_insert_wf)
  qed
qed (simp add: wf_Cons)

lemma wf_filter: "wf m \<Longrightarrow> wf (filter P m)"
  by (induction m) (auto simp: wf_Cons)

lemma wf_remove: "wf m \<Longrightarrow> k \<in> K \<Longrightarrow> wf (bt_remove cmp k m)"
proof (induction m)
  case (Cons e m)
  then show ?case
    by (cases e, cases "cmp k (fst e)") (auto simp: wf_Cons set_remove_wf)
qed simp

lemma get_iff: "wf m \<Longrightarrow> k \<in> K \<Longrightarrow> bt_get cmp m k = Some v \<longleftrightarrow> (k, v) \<in> set m"
  by (simp add: get_map_of wf_distinct)

lemma get_None_iff: "wf m \<Longrightarrow> k \<in> K \<Longrightarrow> bt_get cmp m k = None \<longleftrightarrow> k \<notin> bt_keys m"
  by (simp add: get_map_of map_of_eq_None_iff)

lemma get_insert:
  assumes "wf m" and "k \<in> K" and "k' \<in> K"
  shows "bt_get cmp (bt_insert cmp k v m) k' = (if k' = k then Some v else bt_get cmp m k')"
proof (cases "k' = k")
  case True
  with assms show ?thesis by (simp add: get_iff wf_insert set_insert_wf)
next
  case False
  then have "bt_get cmp (bt_insert cmp k v m) k' = Some w \<longleftrightarrow> bt_get cmp m k' = Some w" for w
    using assms by (simp add: get_iff wf_insert set_insert_wf)
  then show ?thesis using False by (metis option.exhaust)
qed

lemma get_remove:
  assumes "wf m" and "k \<in> K" and "k' \<in> K"
  shows "bt_get cmp (bt_remove cmp k m) k' = (if k' = k then None else bt_get cmp m k')"
proof (cases "k' = k")
  case True
  with assms show ?thesis by (auto simp: get_None_iff wf_remove set_remove_wf)
next
  case False
  then have "bt_get cmp (bt_remove cmp k m) k' = Some w \<longleftrightarrow> bt_get cmp m k' = Some w" for w
    using assms by (simp add: get_iff wf_remove set_remove_wf)
  then show ?thesis using False by (metis option.exhaust)
qed

end

section \<open>Key types\<close>

definition ord_cmp :: "'a :: linorder \<Rightarrow> 'a \<Rightarrow> Ordering" where
  "ord_cmp a b = (if a < b then Less else if a = b then Equal else Greater)"

interpretation ord_keys: key_order UNIV "ord_cmp :: 'a :: linorder \<Rightarrow> 'a \<Rightarrow> Ordering"
  by unfold_locales (auto simp: ord_cmp_def split: if_splits)

definition half_window :: "Sequence24 \<Rightarrow> Sequence24 set" where
  "half_window base = {s. offset base s < 8388608}"

interpretation seq_keys: key_order "half_window base" seq_cmp for base
proof
  fix a b c
  assume "a \<in> half_window base" "b \<in> half_window base"
  then have ab: "offset base a < 8388608" "offset base b < 8388608" by (simp_all add: half_window_def)
  show "seq_cmp a b = Equal \<longleftrightarrow> a = b" by simp
  show "seq_cmp a b = Greater \<longleftrightarrow> seq_cmp b a = Less"
    using seq_cmp_window [OF ab] seq_cmp_window [OF ab(2,1)] by simp
  assume "c \<in> half_window base" "seq_cmp a b = Less" "seq_cmp b c = Less"
  moreover from this have "offset base c < 8388608" by (simp add: half_window_def)
  ultimately show "seq_cmp a c = Less"
    using ab seq_cmp_window [of a base b] seq_cmp_window [of b base c] seq_cmp_window [of a base c]
    by (simp split: if_splits)
qed

text \<open>On a window of half the circle, wherever it starts and also across the wrap-around, the
  comparison of sequence numbers is the order of their distances from the start of the window.\<close>

theorem seq_cmp_in_window:
  assumes "offset base a < 8388608" and "offset base b < 8388608"
  shows "seq_cmp a b = ord_cmp (offset base a) (offset base b)"
  using seq_cmp_window [OF assms] by (simp add: ord_cmp_def)

theorem seq_cmp_in_window_witness:
  "seq_cmp 0xFFFFFF 2 = ord_cmp (offset 0xFFFFFE (0xFFFFFF :: Sequence24)) (offset 0xFFFFFE 2)"
  by (rule seq_cmp_in_window) simp_all

end
