(* ===== verification/OrderingChannels.thy ===== *)
theory OrderingChannels
  imports Framing BTreeMap
begin

text \<open>
  \<^verbatim>\<open>src/session/ordering_channels.rs\<close>: per channel, ordered frames are buffered until the gap before
  them closes, and sequenced frames older than the newest are dropped.  The refinement lemma
  relates a channel to the set of unbounded ordering indices received so far.
\<close>

record ChannelState =
  cs_expected_order :: Sequence24
  cs_last_sequence :: "Sequence24 option"
  cs_pending_ordered :: "(u32, Frame) btree"

definition channel_default :: ChannelState where
  "channel_default = \<lparr>cs_expected_order = seq_new 0, cs_last_sequence = None, cs_pending_ordered = []\<rparr>"

datatype OrderedResult = Ready "Frame list" | Buffered | DroppedStale | DroppedBufferFull

datatype SequencedResult = Accept | DropMissingSequence | DropStale

record OrderingChannels =
  oc_channels :: "ChannelState list"
  oc_max_pending_per_channel :: usize
  oc_max_gap :: u32

definition channels_new :: "usize \<Rightarrow> usize \<Rightarrow> u32 \<Rightarrow> OrderingChannels" where
  "channels_new max_channels max_pending_per_channel max_gap =
     \<lparr>oc_channels = replicate (max max_channels 1) channel_default,
      oc_max_pending_per_channel = max max_pending_per_channel 1,
      oc_max_gap = max max_gap 1\<rparr>"

definition channel_state_mut :: "OrderingChannels \<Rightarrow> u8 \<Rightarrow> OrderingChannels" where
  "channel_state_mut oc channel =
     (let idx = unat channel
      in if idx \<ge> length (oc_channels oc)
         then oc\<lparr>oc_channels := oc_channels oc @ replicate (idx + 1 - length (oc_channels oc)) channel_default\<rparr>
         else oc)"

text \<open>The \<^verbatim>\<open>while let Some(next) = pending.remove(&expected.value())\<close> loop.\<close>

function drain_ready :: "ChannelState \<Rightarrow> Frame list \<times> ChannelState" where
  "drain_ready st =
     (let key = seq_value (cs_expected_order st)
      in case bt_get ord_cmp (cs_pending_ordered st) key of
           None \<Rightarrow> ([], st)
         | Some f \<Rightarrow>
             (let (fs, st') = drain_ready (st\<lparr>cs_pending_ordered := bt_remove ord_cmp key (cs_pending_ordered st),
                                              cs_expected_order := seq_next (cs_expected_order st)\<rparr>)
              in (f # fs, st')))"
  by pat_completeness auto

termination drain_ready
proof (relation "measure (\<lambda>st. length (cs_pending_ordered st))", goal_cases)
  case (2 st key f)
  then show ?case using bt_get_Some_remove_length [of ord_cmp "cs_pending_ordered st" key f] by simp
qed simp

declare drain_ready.simps [simp del]

definition channel_ordered :: "u32 \<Rightarrow> usize \<Rightarrow> ChannelState \<Rightarrow> Sequence24 \<Rightarrow> Frame
    \<Rightarrow> OrderedResult \<times> ChannelState" where
  "channel_ordered max_gap max_pending st order_idx frame =
     (let distance = distance_to (cs_expected_order st) order_idx
      in if distance = 0 then
           (let (fs, st') = drain_ready (st\<lparr>cs_expected_order := seq_next (cs_expected_order st)\<rparr>)
            in (Ready (frame # fs), st'))
         else if distance > max_gap then (DroppedStale, st)
         else if length (cs_pending_ordered st) \<ge> max_pending then (DroppedBufferFull, st)
         else (Buffered,
               (case bt_get ord_cmp (cs_pending_ordered st) (seq_value order_idx) of
                  Some _ \<Rightarrow> st
                | None \<Rightarrow> st\<lparr>cs_pending_ordered :=
                    bt_insert ord_cmp (seq_value order_idx) frame (cs_pending_ordered st)\<rparr>)))"

definition frame_channel :: "Frame \<Rightarrow> u8" where
  "frame_channel f = (case fr_ordering_channel f of None \<Rightarrow> 0 | Some c \<Rightarrow> c)"

definition handle_ordered :: "OrderingChannels \<Rightarrow> Frame \<Rightarrow> OrderedResult \<times> OrderingChannels" where
  "handle_ordered oc frame =
     (case fr_ordering_index frame of
        None \<Rightarrow> (Ready [frame], oc)
      | Some order_idx \<Rightarrow>
          (let idx = unat (frame_channel frame);
               oc' = channel_state_mut oc (frame_channel frame);
               (res, st) = channel_ordered (oc_max_gap oc) (oc_max_pending_per_channel oc)
                             (oc_channels oc' ! idx) order_idx frame
           in (res, oc'\<lparr>oc_channels := (oc_channels oc')[idx := st]\<rparr>)))"

definition channel_sequenced :: "u32 \<Rightarrow> ChannelState \<Rightarrow> Sequence24 \<Rightarrow> SequencedResult \<times> ChannelState" where
  "channel_sequenced max_gap st sequence_idx =
     (if (case cs_last_sequence st of
            Some la \<Rightarrow> (let distance = distance_to la sequence_idx in distance = 0 \<or> distance > max_gap)
          | None \<Rightarrow> False)
      then (DropStale, st)
      else (Accept, st\<lparr>cs_last_sequence := Some sequence_idx\<rparr>))"

definition handle_sequenced :: "OrderingChannels \<Rightarrow> Frame \<Rightarrow> SequencedResult \<times> OrderingChannels" where
  "handle_sequenced oc frame =
     (case fr_sequence_index frame of
        None \<Rightarrow> (DropMissingSequence, oc)
      | Some sequence_idx \<Rightarrow>
          (let idx = unat (frame_channel frame);
               oc' = channel_state_mut oc (frame_channel frame);
               (res, st) = channel_sequenced (oc_max_gap oc) (oc_channels oc' ! idx) sequence_idx
           in (res, oc'\<lparr>oc_channels := (oc_channels oc')[idx := st]\<rparr>)))"

definition drain_pending_ordered_frames :: "OrderingChannels \<Rightarrow> Frame list \<times> OrderingChannels" where
  "drain_pending_ordered_frames oc =
     (concat (map (\<lambda>st. map snd (cs_pending_ordered st)) (oc_channels oc)),
      oc\<lparr>oc_channels := map (\<lambda>st. st\<lparr>cs_pending_ordered := []\<rparr>) (oc_channels oc)\<rparr>)"

section \<open>A channel refines the set of received indices\<close>

text \<open>
  \<open>fr n\<close> is the frame the sender gave the unbounded ordering index \<open>n\<close>.  \<open>chan_rel fr gap B R st\<close>: exactly
  the indices in \<open>R\<close> have been received; those below \<open>B\<close> were delivered, the others are pending.
\<close>

definition chan_rel :: "(nat \<Rightarrow> Frame) \<Rightarrow> nat \<Rightarrow> nat \<Rightarrow> nat set \<Rightarrow> ChannelState \<Rightarrow> bool" where
  "chan_rel fr gap B R st \<longleftrightarrow>
     gap < 16777216 \<and> cs_expected_order st = of_nat B \<and> {..<B} \<subseteq> R \<and> B \<notin> R
     \<and> (\<forall>n \<in> R. n \<le> B + gap)
     \<and> bt_sorted ord_cmp (cs_pending_ordered st)
     \<and> set (cs_pending_ordered st) = (\<lambda>n. (seq_value (of_nat n), fr n)) ` {n \<in> R. B < n}"

text \<open>The same with the base possibly received, as it is while the loop drains.\<close>

definition drain_rel :: "(nat \<Rightarrow> Frame) \<Rightarrow> nat \<Rightarrow> nat \<Rightarrow> nat set \<Rightarrow> ChannelState \<Rightarrow> bool" where
  "drain_rel fr gap B R st \<longleftrightarrow>
     gap < 16777216 \<and> cs_expected_order st = of_nat B \<and> {..<B} \<subseteq> R
     \<and> (\<forall>n \<in> R. n \<le> B + gap)
     \<and> bt_sorted ord_cmp (cs_pending_ordered st)
     \<and> set (cs_pending_ordered st) = (\<lambda>n. (seq_value (of_nat n), fr n)) ` {n \<in> R. B \<le> n}"

lemma of_nat_seq_inj:
  assumes "B \<le> m" "m < B + 16777216" "B \<le> n" "n < B + 16777216"
  shows "(of_nat m :: Sequence24) = of_nat n \<longleftrightarrow> m = n"
proof
  assume "(of_nat m :: Sequence24) = of_nat n"
  then have "m - B = n - B"
    using assms offset_of_nat [of B m] offset_of_nat [of B n] by simp
  with assms(1,3) show "m = n" by simp
qed simp

lemma pending_get:
  assumes "bt_sorted ord_cmp m" and m: "set m = (\<lambda>n. (seq_value (of_nat n), fr n)) ` P"
    and "P \<subseteq> {B..<B + 16777216}" and "B \<le> n" "n < B + 16777216"
  shows "bt_get ord_cmp m (seq_value (of_nat n)) = (if n \<in> P then Some (fr n) else None)"
proof -
  have wf: "ord_keys.wf m" using assms(1) by (simp add: ord_keys.wf_def)
  have eq: "(of_nat n :: Sequence24) = of_nat k \<longleftrightarrow> n = k" if "k \<in> P" for k
    using assms(3-5) that by (intro of_nat_seq_inj [of B]) auto
  show ?thesis
  proof (cases "n \<in> P")
    case True
    then show ?thesis using m by (simp add: ord_keys.get_iff [OF wf])
  next
    case False
    then have "seq_value (of_nat n) \<notin> bt_keys m" using m eq by auto
    then show ?thesis using False by (simp add: ord_keys.get_None_iff [OF wf])
  qed
qed

lemma drain_ready_rel:
  "drain_rel fr gap B R st \<Longrightarrow> drain_ready st = (fs, st') \<Longrightarrow>
     \<exists>B' \<ge> B. fs = map fr [B..<B'] \<and> chan_rel fr gap B' R st'"
proof (induction st arbitrary: B fs st' rule: drain_ready.induct)
  case (1 st)
  note rel = 1(2) [unfolded drain_rel_def]
  define P where "P = {n \<in> R. B \<le> n}"
  let ?m = "cs_pending_ordered st"
  have P: "P \<subseteq> {B..<B + 16777216}" using rel by (auto simp: P_def)
  have wf: "ord_keys.wf ?m" using rel by (simp add: ord_keys.wf_def)
  have get: "bt_get ord_cmp ?m (seq_value (cs_expected_order st)) = (if B \<in> R then Some (fr B) else None)"
    using pending_get [of ?m fr P B B] rel P by (simp add: P_def)
  show ?case
  proof (cases "B \<in> R")
    case False
    then have "fs = []" and "st' = st"
      using 1(3) get by (subst (asm) drain_ready.simps, simp)+
    moreover have "{n \<in> R. B \<le> n} = {n \<in> R. B < n}" using False by (auto simp: le_less)
    ultimately show ?thesis using rel False by (auto simp: chan_rel_def)
  next
    case True
    define st1 where "st1 = st\<lparr>cs_pending_ordered := bt_remove ord_cmp (seq_value (cs_expected_order st)) ?m,
        cs_expected_order := seq_next (cs_expected_order st)\<rparr>"
    obtain fs1 where d: "drain_ready st1 = (fs1, st')" and fs: "fs = fr B # fs1"
      using 1(3) get True
      by (subst (asm) drain_ready.simps) (auto simp: st1_def Let_def split: prod.splits)
    have eq: "(of_nat k :: Sequence24) = of_nat B \<longleftrightarrow> k = B" if "k \<in> P" for k
      using P that by (intro of_nat_seq_inj [of B]) auto
    have "set (bt_remove ord_cmp (seq_value (cs_expected_order st)) ?m) =
        {e \<in> (\<lambda>n. (seq_value (of_nat n), fr n)) ` P. fst e \<noteq> seq_value (of_nat B)}"
      using ord_keys.set_remove_wf [OF wf] rel by (simp add: P_def)
    also have "\<dots> = (\<lambda>n. (seq_value (of_nat n), fr n)) ` (P - {B})" using eq by auto
    also have "P - {B} = {n \<in> R. Suc B \<le> n}" by (auto simp: P_def)
    finally have rel1: "drain_rel fr gap (Suc B) R st1"
      using rel True ord_keys.wf_remove [OF wf]
      by (auto simp: drain_rel_def st1_def seq_next_eq ord_keys.wf_def add.commute less_Suc_eq)
    obtain B' where "Suc B \<le> B'" "fs1 = map fr [Suc B..<B']" "chan_rel fr gap B' R st'"
      using 1(1) [OF refl _ rel1 [unfolded st1_def] d [unfolded st1_def]] get True by auto
    then show ?thesis using fs by (intro exI [of _ B']) (auto simp: upt_conv_Cons)
  qed
qed

fun delivered :: "OrderedResult \<Rightarrow> Frame list" where
  "delivered (Ready fs) = fs"
| "delivered _ = []"

lemma length_pending:
  assumes "chan_rel fr gap B R st"
  shows "length (cs_pending_ordered st) = card {n \<in> R. B < n}"
proof -
  have wf: "ord_keys.wf (cs_pending_ordered st)" using assms by (simp add: chan_rel_def ord_keys.wf_def)
  have "distinct (cs_pending_ordered st)" using ord_keys.wf_distinct [OF wf] by (simp add: distinct_map)
  then have "length (cs_pending_ordered st) = card (set (cs_pending_ordered st))"
    by (simp add: distinct_card)
  also have "\<dots> = card {n \<in> R. B < n}"
    using assms
  proof (simp add: chan_rel_def, intro card_image inj_onI)
    fix m n
    assume "m \<in> {n \<in> R. B < n}" "n \<in> {n \<in> R. B < n}"
      "(seq_value (of_nat m), fr m) = (seq_value (of_nat n), fr n)"
    moreover from this have "m < B + 16777216" "n < B + 16777216"
      using assms by (fastforce simp: chan_rel_def)+
    ultimately show "m = n" using of_nat_seq_inj [of B m n] by auto
  qed
  finally show ?thesis .
qed

text \<open>Distances from the base in terms of unbounded indices.\<close>

lemma channel_distance:
  assumes "cs_expected_order st = of_nat B" and "n \<le> B + gap" and "B + gap < n + 16777216"
    and "gap < 16777216"
  shows "unat (distance_to (cs_expected_order st) (of_nat n)) =
    (if B \<le> n then n - B else n + 16777216 - B)"
  using assms offset_of_nat [of B n] offset_of_nat_below [of n B] by auto

lemma channel_ordered_rel:
  assumes rel: "chan_rel fr (unat max_gap) B R st"
    and n: "n \<le> B + unat max_gap" "B + unat max_gap < n + 16777216"
    and room: "B < n \<Longrightarrow> n \<notin> R \<Longrightarrow> length (cs_pending_ordered st) < max_pending"
    and step: "channel_ordered max_gap max_pending st (of_nat n) (fr n) = (res, st')"
  shows "\<exists>B' \<ge> B. chan_rel fr (unat max_gap) B' (insert n R) st' \<and> delivered res = map fr [B..<B']"
proof -
  note relD = rel [unfolded chan_rel_def]
  have dist: "unat (distance_to (cs_expected_order st) (of_nat n)) = (if B \<le> n then n - B else n + 16777216 - B)"
    using relD n by (intro channel_distance) auto
  let ?m = "cs_pending_ordered st"
  have wf: "ord_keys.wf ?m" using relD by (simp add: ord_keys.wf_def)
  consider "n < B" | "n = B" | "B < n" by linarith
  then show ?thesis
  proof cases
    case 1
    then have "max_gap < distance_to (cs_expected_order st) (of_nat n)" using n dist
      by (simp add: word_less_nat_alt)
    moreover from this have "distance_to (cs_expected_order st) (of_nat n) \<noteq> 0"
      by (auto simp: word_less_nat_alt)
    ultimately have "res = DroppedStale" "st' = st"
      using step by (auto simp: channel_ordered_def Let_def)
    moreover have "insert n R = R" using 1 relD by auto
    ultimately show ?thesis using rel by auto
  next
    case 2
    obtain fs where d: "drain_ready (st\<lparr>cs_expected_order := seq_next (cs_expected_order st)\<rparr>) = (fs, st')"
      and res: "res = Ready (fr n # fs)"
      using step relD 2 by (auto simp: channel_ordered_def Let_def split: prod.splits)
    have "{m \<in> R. B < m} = {m \<in> insert B R. Suc B \<le> m}" by auto
    then have "drain_rel fr (unat max_gap) (Suc B) (insert B R)
        (st\<lparr>cs_expected_order := seq_next (cs_expected_order st)\<rparr>)"
      using relD by (auto simp: drain_rel_def seq_next_eq add.commute less_Suc_eq)
    from drain_ready_rel [OF this d] obtain B' where "Suc B \<le> B'" "fs = map fr [Suc B..<B']"
      "chan_rel fr (unat max_gap) B' (insert B R) st'" by auto
    then show ?thesis using 2 res by (intro exI [of _ B']) (auto simp: upt_conv_Cons)
  next
    case 3
    define P where "P = {m \<in> R. B < m}"
    have get: "bt_get ord_cmp ?m (seq_value (of_nat n)) = (if n \<in> P then Some (fr n) else None)"
      using 3 n relD by (intro pending_get [of _ _ _ B]) (auto simp: P_def)
    have "distance_to (cs_expected_order st) (of_nat n) \<noteq> 0" using dist 3
      by (metis diff_is_0_eq less_imp_le not_less unat_0)
    moreover have "\<not> max_gap < distance_to (cs_expected_order st) (of_nat n)"
      using dist 3 n by (simp add: word_less_nat_alt)
    ultimately have res: "delivered res = []" and st': "st' = (if n \<in> P then st
        else st\<lparr>cs_pending_ordered := bt_insert ord_cmp (seq_value (of_nat n)) (fr n) ?m\<rparr>)"
      using step room 3 get by (auto simp: channel_ordered_def Let_def P_def split: if_splits)
    have "chan_rel fr (unat max_gap) B (insert n R) st'"
    proof (cases "n \<in> P")
      case True
      then show ?thesis using rel st' by (simp add: P_def insert_absorb)
    next
      case False
      then have "seq_value (of_nat n) \<notin> bt_keys ?m"
        using get ord_keys.get_None_iff [OF wf] by simp
      then have "set (bt_insert ord_cmp (seq_value (of_nat n)) (fr n) ?m) =
          insert (seq_value (of_nat n), fr n) (set ?m)"
        by (rule ord_keys.set_insert_new [OF wf UNIV_I])
      moreover have "{m \<in> insert n R. B < m} = insert n {m \<in> R. B < m}" using 3 by auto
      ultimately have "set (bt_insert ord_cmp (seq_value (of_nat n)) (fr n) ?m) =
          (\<lambda>n. (seq_value (of_nat n), fr n)) ` {m \<in> insert n R. B < m}"
        using relD by simp
      moreover have "bt_sorted ord_cmp (bt_insert ord_cmp (seq_value (of_nat n)) (fr n) ?m)"
        using ord_keys.wf_insert [OF wf] by (simp add: ord_keys.wf_def)
      moreover have "{..<B} \<subseteq> insert n R" using relD by blast
      ultimately show ?thesis
        using False 3 n relD by (simp add: st' chan_rel_def)
    qed
    then show ?thesis using res by auto
  qed
qed

text \<open>A channel fed a sequence of frames: what it delivers, in order.\<close>

fun channel_run :: "u32 \<Rightarrow> usize \<Rightarrow> ChannelState \<Rightarrow> (Sequence24 \<times> Frame) list \<Rightarrow> Frame list \<times> ChannelState" where
  "channel_run max_gap max_pending st [] = ([], st)"
| "channel_run max_gap max_pending st ((i, f) # arrivals) =
     (let (res, st1) = channel_ordered max_gap max_pending st i f;
          (fs, st2) = channel_run max_gap max_pending st1 arrivals
      in (delivered res @ fs, st2))"

abbreviation arrivals :: "(nat \<Rightarrow> Frame) \<Rightarrow> nat list \<Rightarrow> (Sequence24 \<times> Frame) list" where
  "arrivals fr ns \<equiv> map (\<lambda>n. (of_nat n, fr n)) ns"

lemma channel_run_rel:
  assumes "chan_rel fr (unat max_gap) B R st"
    and "R \<union> set ns \<subseteq> {..<N}" and "N \<le> Suc (unat max_gap)" and "N \<le> Suc max_pending"
    and "N + unat max_gap < 16777216"
    and "channel_run max_gap max_pending st (arrivals fr ns) = (fs, st')"
  shows "\<exists>B' \<ge> B. chan_rel fr (unat max_gap) B' (R \<union> set ns) st' \<and> fs = map fr [B..<B']"
  using assms
proof (induction ns arbitrary: B R st fs)
  case Nil
  then show ?case by auto
next
  case (Cons n ns)
  obtain res st1 fs1 where step: "channel_ordered max_gap max_pending st (of_nat n) (fr n) = (res, st1)"
    and run: "channel_run max_gap max_pending st1 (arrivals fr ns) = (fs1, st')"
    and fs: "fs = delivered res @ fs1"
    using Cons.prems(6) by (auto simp: Let_def split: prod.splits)
  have "{..<B} \<subseteq> R" using Cons.prems(1) by (simp add: chan_rel_def)
  moreover have "R \<subseteq> {..<N}" using Cons.prems(2) by simp
  ultimately have "{..<B} \<subseteq> {..<N}" by (rule subset_trans)
  then have "B \<le> N" by (simp only: lessThan_subset_iff)
  have n: "n \<le> B + unat max_gap" "B + unat max_gap < n + 16777216"
    using Cons.prems(2,3,5) \<open>B \<le> N\<close> by auto
  have room: "length (cs_pending_ordered st) < max_pending" if "B < n" "n \<notin> R"
  proof -
    have "card {m \<in> R. B < m} \<le> card ({B<..<N} - {n})"
      using Cons.prems(2) that by (intro card_mono) auto
    also have "\<dots> = N - Suc B - 1" using Cons.prems(2) that by (simp add: card_Diff_singleton)
    also have "\<dots> < max_pending" using Cons.prems(2,4) that by auto
    finally show ?thesis by (simp add: length_pending [OF Cons.prems(1)])
  qed
  obtain B1 where B1: "B \<le> B1" "chan_rel fr (unat max_gap) B1 (insert n R) st1"
    "delivered res = map fr [B..<B1]"
    using channel_ordered_rel [OF Cons.prems(1) n room step] by blast
  have "insert n R \<union> set ns \<subseteq> {..<N}" using Cons.prems(2) by simp
  from Cons.IH [OF B1(2) this Cons.prems(3-5) run]
  obtain B' where B': "B1 \<le> B'" "chan_rel fr (unat max_gap) B' (insert n R \<union> set ns) st'"
    "fs1 = map fr [B1..<B']" by blast
  have "[B..<B'] = [B..<B1] @ [B1..<B']"
    using B1(1) B'(1) by (metis le_add_diff_inverse upt_add_eq_append)
  with B1 B' fs show ?case by (intro exI [of _ B']) simp
qed

section \<open>Bounds, stalls and sequenced frames\<close>

lemma drain_ready_pending:
  "drain_ready st = (fs, st') \<Longrightarrow> length (cs_pending_ordered st') + length fs = length (cs_pending_ordered st)"
proof (induction st arbitrary: fs st' rule: drain_ready.induct)
  case (1 st)
  note step = 1(2) [unfolded drain_ready.simps [of st]]
  show ?case
    using step 1(1) bt_get_Some_remove_length [of ord_cmp "cs_pending_ordered st" "seq_value (cs_expected_order st)"]
    by (fastforce simp: Let_def split: option.splits prod.splits)
qed

lemma channel_ordered_pending:
  "channel_ordered max_gap max_pending st i f = (res, st') \<Longrightarrow>
     length (cs_pending_ordered st) \<le> max_pending \<Longrightarrow> length (cs_pending_ordered st') \<le> max_pending"
  using drain_ready_pending [of "st\<lparr>cs_expected_order := seq_next (cs_expected_order st)\<rparr>"]
  by (fastforce simp: channel_ordered_def Let_def bt_insert_length split: if_splits option.splits prod.splits)

definition channels_bounded :: "OrderingChannels \<Rightarrow> bool" where
  "channels_bounded oc \<longleftrightarrow>
     list_all (\<lambda>st. length (cs_pending_ordered st) \<le> oc_max_pending_per_channel oc) (oc_channels oc)"

lemma channel_state_mut_bounded: "channels_bounded oc \<Longrightarrow> channels_bounded (channel_state_mut oc c)"
  by (auto simp: channels_bounded_def channel_state_mut_def Let_def channel_default_def list_all_iff)

lemma channel_state_mut_length: "unat c < length (oc_channels (channel_state_mut oc c))"
  by (auto simp: channel_state_mut_def Let_def)

lemma channel_state_mut_fields [simp]:
  "oc_max_pending_per_channel (channel_state_mut oc c) = oc_max_pending_per_channel oc"
  "oc_max_gap (channel_state_mut oc c) = oc_max_gap oc"
  by (simp_all add: channel_state_mut_def Let_def)

lemma channels_bounded_update:
  assumes "channels_bounded oc" and "length (cs_pending_ordered st) \<le> oc_max_pending_per_channel oc"
  shows "channels_bounded (oc\<lparr>oc_channels := (oc_channels oc)[i := st]\<rparr>)"
  using assms by (auto simp: channels_bounded_def list_all_iff dest!: set_update_subset_insert [THEN subsetD])

lemma handle_ordered_bounded:
  assumes "channels_bounded oc" and "handle_ordered oc f = (res, oc')"
  shows "channels_bounded oc'"
proof (cases "fr_ordering_index f")
  case None
  then show ?thesis using assms by (simp add: handle_ordered_def)
next
  case (Some i)
  let ?oc = "channel_state_mut oc (frame_channel f)" and ?c = "unat (frame_channel f)"
  obtain st where st: "channel_ordered (oc_max_gap oc) (oc_max_pending_per_channel oc) (oc_channels ?oc ! ?c) i f = (res, st)"
    and oc': "oc' = ?oc\<lparr>oc_channels := (oc_channels ?oc)[?c := st]\<rparr>"
    using assms(2) Some by (auto simp: handle_ordered_def Let_def split: prod.splits)
  have b: "channels_bounded ?oc" using assms(1) by (rule channel_state_mut_bounded)
  then have "length (cs_pending_ordered (oc_channels ?oc ! ?c)) \<le> oc_max_pending_per_channel oc"
    using channel_state_mut_length by (simp add: channels_bounded_def list_all_length)
  from channel_ordered_pending [OF st this] b show ?thesis
    unfolding oc' by (intro channels_bounded_update) simp_all
qed

lemma handle_sequenced_bounded:
  assumes "channels_bounded oc" and "handle_sequenced oc f = (res, oc')"
  shows "channels_bounded oc'"
proof (cases "fr_sequence_index f")
  case None
  then show ?thesis using assms by (simp add: handle_sequenced_def)
next
  case (Some i)
  let ?oc = "channel_state_mut oc (frame_channel f)" and ?c = "unat (frame_channel f)"
  obtain st where st: "channel_sequenced (oc_max_gap oc) (oc_channels ?oc ! ?c) i = (res, st)"
    and oc': "oc' = ?oc\<lparr>oc_channels := (oc_channels ?oc)[?c := st]\<rparr>"
    using assms(2) Some by (auto simp: handle_sequenced_def Let_def split: prod.splits)
  have b: "channels_bounded ?oc" using assms(1) by (rule channel_state_mut_bounded)
  then have "length (cs_pending_ordered (oc_channels ?oc ! ?c)) \<le> oc_max_pending_per_channel oc"
    using channel_state_mut_length by (simp add: channels_bounded_def list_all_length)
  moreover have "cs_pending_ordered st = cs_pending_ordered (oc_channels ?oc ! ?c)"
    using st by (auto simp: channel_sequenced_def split: if_splits)
  ultimately show ?thesis
    unfolding oc' using b by (intro channels_bounded_update) simp_all
qed

text \<open>Only the expected index makes a channel deliver: without it nothing moves.\<close>

lemma channel_ordered_stuck:
  assumes "channel_ordered max_gap max_pending st i f = (res, st')" and "i \<noteq> cs_expected_order st"
  shows "delivered res = []" and "cs_expected_order st' = cs_expected_order st"
  using assms by (auto simp: channel_ordered_def Let_def split: if_splits option.splits)

lemma channel_run_stuck:
  "cs_expected_order st \<notin> fst ` set as \<Longrightarrow> channel_run max_gap max_pending st as = (fs, st') \<Longrightarrow>
     fs = [] \<and> cs_expected_order st' = cs_expected_order st"
proof (induction as arbitrary: st fs)
  case (Cons a as)
  obtain i f where a: "a = (i, f)" by (cases a)
  obtain res st1 fs1 where step: "channel_ordered max_gap max_pending st i f = (res, st1)"
    and run: "channel_run max_gap max_pending st1 as = (fs1, st')" and fs: "fs = delivered res @ fs1"
    using Cons.prems(2) by (auto simp: a Let_def split: prod.splits)
  have "i \<noteq> cs_expected_order st" using Cons.prems(1) by (auto simp: a)
  note stuck = channel_ordered_stuck [OF step this]
  show ?case using Cons.IH [OF _ run] Cons.prems(1) stuck fs by simp
qed simp

text \<open>A sequenced frame is accepted exactly when it is newer than the newest accepted one.\<close>

lemma channel_sequenced_newest:
  assumes "cs_last_sequence st = Some (of_nat L)" and "n \<le> L + unat max_gap"
    and "L + unat max_gap < n + 16777216" and "unat max_gap < 16777216"
  shows "channel_sequenced max_gap st (of_nat n) =
    (if L < n then (Accept, st\<lparr>cs_last_sequence := Some (of_nat n)\<rparr>) else (DropStale, st))"
proof -
  have d: "unat (distance_to (of_nat L) (of_nat n)) = (if L \<le> n then n - L else n + 16777216 - L)"
    using assms offset_of_nat [of L n] offset_of_nat_below [of n L] by auto
  then have "distance_to (of_nat L) (of_nat n) = 0 \<longleftrightarrow> n = L"
    using assms by (metis diff_is_0_eq unat_0 unat_0_iff distance_to_0 le_antisym not_less zero_less_diff add_lessD1 nat_le_linear)
  moreover have "distance_to (of_nat L) (of_nat n) > max_gap \<longleftrightarrow> n < L"
    using assms d by (auto simp: word_less_nat_alt)
  ultimately show ?thesis
    using assms(1) by (auto simp: channel_sequenced_def Let_def simp del: distance_to_0)
qed

section \<open>One channel among others\<close>

text \<open>The state a frame of channel \<open>c\<close> meets, created on demand.\<close>

definition channel_at :: "OrderingChannels \<Rightarrow> u8 \<Rightarrow> ChannelState" where
  "channel_at oc c = oc_channels (channel_state_mut oc c) ! unat c"

lemma channel_at_update:
  "channel_at ((channel_state_mut oc c)\<lparr>oc_channels := (oc_channels (channel_state_mut oc c))[unat c := st]\<rparr>) c = st"
  using channel_state_mut_length [of c oc]
  by (simp add: channel_at_def channel_state_mut_def [of "_\<lparr>oc_channels := _\<rparr>"] Let_def)

lemma channel_at_nth:
  "channel_at oc c = (if unat c < length (oc_channels oc) then oc_channels oc ! unat c else channel_default)"
  by (auto simp: channel_at_def channel_state_mut_def Let_def nth_append)

lemma channel_at_new [simp]: "channel_at (channels_new mc mp mg) c = channel_default"
  by (auto simp: channel_at_nth channels_new_def)

lemma channel_at_other:
  assumes "c' \<noteq> c"
  shows "channel_at ((channel_state_mut oc c)\<lparr>oc_channels := (oc_channels (channel_state_mut oc c))[unat c := st]\<rparr>) c'
    = channel_at oc c'"
proof -
  have "unat c' \<noteq> unat c" using assms unsigned_word_eqI by blast
  then show ?thesis
    by (auto simp: channel_at_nth channel_state_mut_def Let_def nth_append)
qed

lemma handle_ordered_channel:
  assumes "handle_ordered oc f = (res, oc')" and "fr_ordering_index f = Some i"
  shows "channel_ordered (oc_max_gap oc) (oc_max_pending_per_channel oc) (channel_at oc (frame_channel f)) i f
      = (res, channel_at oc' (frame_channel f))"
    and "c \<noteq> frame_channel f \<Longrightarrow> channel_at oc' c = channel_at oc c"
    and "oc_max_gap oc' = oc_max_gap oc" and "oc_max_pending_per_channel oc' = oc_max_pending_per_channel oc"
proof -
  obtain r st where st: "channel_ordered (oc_max_gap oc) (oc_max_pending_per_channel oc) (channel_at oc (frame_channel f)) i f = (r, st)"
    by (cases "channel_ordered (oc_max_gap oc) (oc_max_pending_per_channel oc) (channel_at oc (frame_channel f)) i f")
  then have "res = r" and oc': "oc' = (channel_state_mut oc (frame_channel f))
      \<lparr>oc_channels := (oc_channels (channel_state_mut oc (frame_channel f)))[unat (frame_channel f) := st]\<rparr>"
    using assms by (auto simp: handle_ordered_def channel_at_def Let_def)
  then show "channel_ordered (oc_max_gap oc) (oc_max_pending_per_channel oc) (channel_at oc (frame_channel f)) i f
      = (res, channel_at oc' (frame_channel f))"
    and "c \<noteq> frame_channel f \<Longrightarrow> channel_at oc' c = channel_at oc c"
    and "oc_max_gap oc' = oc_max_gap oc" and "oc_max_pending_per_channel oc' = oc_max_pending_per_channel oc"
    using st by (simp_all add: channel_at_update channel_at_other)
qed

text \<open>Frames wait only in their own channel.\<close>

definition own_frames :: "OrderingChannels \<Rightarrow> bool" where
  "own_frames oc \<longleftrightarrow> (\<forall>c. \<forall>(k, f) \<in> set (cs_pending_ordered (channel_at oc c)). frame_channel f = c)"

lemma bt_get_value: "bt_get ord_cmp m k = Some v \<Longrightarrow> \<exists>k'. (k', v) \<in> set m"
  by (induction m) (auto split: Ordering.splits)

lemma bt_remove_sub: "set (bt_remove cmp k m) \<subseteq> set m"
  by (induction m) (auto split: Ordering.splits)

lemma bt_insert_sub: "set (bt_insert ord_cmp k v m) \<subseteq> insert (k, v) (set m)"
  for k :: "'a :: linorder"
  by (induction m) (auto simp: ord_cmp_def split: Ordering.splits if_splits)

lemma drain_ready_from_pending:
  "drain_ready st = (fs, st') \<Longrightarrow>
     set fs \<subseteq> snd ` set (cs_pending_ordered st) \<and> set (cs_pending_ordered st') \<subseteq> set (cs_pending_ordered st)"
proof (induction st arbitrary: fs st' rule: drain_ready.induct)
  case (1 st)
  show ?case
  proof (cases "bt_get ord_cmp (cs_pending_ordered st) (seq_value (cs_expected_order st))")
    case None
    then show ?thesis using 1(2) by (simp add: drain_ready.simps [of st])
  next
    case (Some f)
    let ?st = "st\<lparr>cs_pending_ordered := bt_remove ord_cmp (seq_value (cs_expected_order st)) (cs_pending_ordered st),
                 cs_expected_order := seq_next (cs_expected_order st)\<rparr>"
    obtain gs st1 where g: "drain_ready ?st = (gs, st1)" by (cases "drain_ready ?st")
    then have e: "fs = f # gs" "st' = st1" using 1(2) Some by (simp_all add: drain_ready.simps [of st])
    have gs: "set gs \<subseteq> snd ` set (cs_pending_ordered ?st)" "set (cs_pending_ordered st1) \<subseteq> set (cs_pending_ordered ?st)"
      using 1(1) [OF HOL.refl Some g] by blast+
    have sub: "set (cs_pending_ordered ?st) \<subseteq> set (cs_pending_ordered st)" by (simp add: bt_remove_sub)
    have "f \<in> snd ` set (cs_pending_ordered st)" using bt_get_value [OF Some] by force
    moreover have "set gs \<subseteq> snd ` set (cs_pending_ordered st)" using gs(1) image_mono [OF sub] by (rule subset_trans)
    ultimately show ?thesis using gs(2) sub unfolding e by simp
  qed
qed

lemma channel_ordered_from:
  assumes "channel_ordered gap mp st i f = (res, st')"
  shows "set (delivered res) \<subseteq> insert f (snd ` set (cs_pending_ordered st))"
    and "snd ` set (cs_pending_ordered st') \<subseteq> insert f (snd ` set (cs_pending_ordered st))"
proof -
  let ?st = "st\<lparr>cs_expected_order := seq_next (cs_expected_order st)\<rparr>"
  obtain fs st1 where d: "drain_ready ?st = (fs, st1)" by (cases "drain_ready ?st")
  have fs: "set fs \<subseteq> snd ` set (cs_pending_ordered st)" "set (cs_pending_ordered st1) \<subseteq> set (cs_pending_ordered st)"
    using drain_ready_from_pending [OF d] by simp_all
  show "set (delivered res) \<subseteq> insert f (snd ` set (cs_pending_ordered st))"
  proof -
    have "set (delivered res) \<subseteq> insert f (set fs)"
      using assms by (auto simp: channel_ordered_def Let_def d split: if_splits)
    then show ?thesis using fs(1) by blast
  qed
  show "snd ` set (cs_pending_ordered st') \<subseteq> insert f (snd ` set (cs_pending_ordered st))"
    using assms fs bt_insert_sub [of "seq_value i" f "cs_pending_ordered st"]
    by (auto simp: channel_ordered_def Let_def d split: if_splits option.splits)
qed

text \<open>A run of arrivals on any mix of channels, and what it delivers.\<close>

fun ordered_run :: "OrderingChannels \<Rightarrow> Frame list \<Rightarrow> Frame list \<times> OrderingChannels" where
  "ordered_run oc [] = ([], oc)"
| "ordered_run oc (f # fs) =
     (let (res, oc1) = handle_ordered oc f; (out, oc2) = ordered_run oc1 fs in (delivered res @ out, oc2))"

abbreviation indexed :: "Frame list \<Rightarrow> (Sequence24 \<times> Frame) list" where
  "indexed fs \<equiv> map (\<lambda>f. (the (fr_ordering_index f), f)) fs"

lemma own_frames_at: "own_frames oc \<Longrightarrow> \<forall>g \<in> snd ` set (cs_pending_ordered (channel_at oc c)). frame_channel g = c"
  unfolding own_frames_def by (drule spec [of _ c]) auto

lemma own_framesI: "(\<And>c. \<forall>g \<in> snd ` set (cs_pending_ordered (channel_at oc c)). frame_channel g = c) \<Longrightarrow> own_frames oc"
  unfolding own_frames_def by force

lemma own_frames_step:
  assumes h: "handle_ordered oc f = (res, oc')" and i: "fr_ordering_index f = Some i" and own: "own_frames oc"
  shows "own_frames oc'" and "\<forall>g \<in> set (delivered res). frame_channel g = frame_channel f"
proof -
  note ch = handle_ordered_channel [OF h i] and own' = own_frames_at [OF own]
  show "\<forall>g \<in> set (delivered res). frame_channel g = frame_channel f"
    using channel_ordered_from(1) [OF ch(1)] own' [of "frame_channel f"] by blast
  show "own_frames oc'"
  proof (rule own_framesI)
    fix c
    show "\<forall>g \<in> snd ` set (cs_pending_ordered (channel_at oc' c)). frame_channel g = c"
    proof (cases "c = frame_channel f")
      case True
      then show ?thesis using channel_ordered_from(2) [OF ch(1)] own' [of "frame_channel f"] by blast
    next
      case False
      then show ?thesis using ch(2) own' [of c] by simp
    qed
  qed
qed

lemma ordered_run_channel:
  assumes "ordered_run oc fs = (out, oc')" and "list_all (\<lambda>f. fr_ordering_index f \<noteq> None) fs" and "own_frames oc"
  shows "channel_run (oc_max_gap oc) (oc_max_pending_per_channel oc) (channel_at oc c)
      (indexed (filter (\<lambda>f. frame_channel f = c) fs)) = (filter (\<lambda>f. frame_channel f = c) out, channel_at oc' c)"
  using assms
proof (induction fs arbitrary: oc out)
  case (Cons f fs)
  obtain i where i: "fr_ordering_index f = Some i" using Cons.prems(2) by auto
  obtain res oc1 where h: "handle_ordered oc f = (res, oc1)" by (cases "handle_ordered oc f")
  obtain out1 where r: "ordered_run oc1 fs = (out1, oc')" and out: "out = delivered res @ out1"
    using Cons.prems(1) h by (auto split: prod.splits)
  note ch = handle_ordered_channel [OF h i] and own = own_frames_step [OF h i Cons.prems(3)]
  have IH: "channel_run (oc_max_gap oc) (oc_max_pending_per_channel oc) (channel_at oc1 c)
      (indexed (filter (\<lambda>f. frame_channel f = c) fs)) = (filter (\<lambda>f. frame_channel f = c) out1, channel_at oc' c)"
    using Cons.IH [OF r _ own(1)] Cons.prems(2) ch(3,4) by simp
  show ?case
  proof (cases "frame_channel f = c")
    case True
    then have "filter (\<lambda>g. frame_channel g = c) (delivered res) = delivered res"
      using own(2) by (simp add: filter_id_conv)
    then show ?thesis using True IH ch(1) i out by simp
  next
    case False
    then have "filter (\<lambda>g. frame_channel g = c) (delivered res) = []"
      using own(2) by (simp add: filter_empty_conv)
    then show ?thesis using False IH ch(2) [of c] out by simp
  qed
qed simp

lemma own_frames_new: "own_frames (channels_new mc mp mg)"
  by (simp add: own_frames_def channel_default_def)

theorem ordered_stall:
  assumes run: "ordered_run oc fs = (out, oc')" and idx: "list_all (\<lambda>f. fr_ordering_index f \<noteq> None) fs"
    and own: "own_frames oc"
    and lost: "\<forall>f \<in> set fs. frame_channel f = c \<longrightarrow> fr_ordering_index f \<noteq> Some (cs_expected_order (channel_at oc c))"
  shows "\<forall>f \<in> set out. frame_channel f \<noteq> c"
    and "cs_expected_order (channel_at oc' c) = cs_expected_order (channel_at oc c)"
proof -
  have nin: "cs_expected_order (channel_at oc c) \<notin> fst ` set (indexed (filter (\<lambda>f. frame_channel f = c) fs))"
    using lost idx by (fastforce simp: list_all_iff)
  from channel_run_stuck [OF nin ordered_run_channel [OF run idx own, of c]]
  show "\<forall>f \<in> set out. frame_channel f \<noteq> c"
    and "cs_expected_order (channel_at oc' c) = cs_expected_order (channel_at oc c)"
    by (auto simp: filter_empty_conv)
qed

text \<open>C2: whatever the order in which the frames of an ordered stream arrive, with duplicates and mixed
  with frames of other channels, the stream is delivered completely, once and in the order it was
  sent, as long as it fits the gap and the buffer of the channel.\<close>

theorem ordered_delivery:
  assumes run: "ordered_run (channels_new mc mp mg) fs = (out, oc')"
    and idx: "list_all (\<lambda>f. fr_ordering_index f \<noteq> None) fs"
    and stream: "filter (\<lambda>f. frame_channel f = c) fs = map fr ns"
    and numbered: "\<forall>n < N. fr_ordering_index (fr n) = Some (of_nat n)" and all: "set ns = {..<N}"
    and room: "1 \<le> mg" "1 \<le> mp" "N \<le> Suc (unat mg)" "N \<le> Suc mp" "N + unat mg < 16777216"
  shows "filter (\<lambda>f. frame_channel f = c) out = map fr [0..<N]"
proof -
  have ix: "indexed (filter (\<lambda>f. frame_channel f = c) fs) = arrivals fr ns"
    using numbered all by (auto simp: stream)
  have new: "oc_max_gap (channels_new mc mp mg) = mg" "oc_max_pending_per_channel (channels_new mc mp mg) = mp"
    using room(1,2) by (simp_all add: channels_new_def max_def)
  have rel: "chan_rel fr (unat mg) 0 {} channel_default"
    using room(5) by (simp add: chan_rel_def channel_default_def seq_new_eq)
  have "channel_run mg mp channel_default (arrivals fr ns) = (filter (\<lambda>f. frame_channel f = c) out, channel_at oc' c)"
    using ordered_run_channel [OF run idx own_frames_new, of c] ix new by simp
  from channel_run_rel [OF rel _ room(3,4,5) this] all obtain B' where
    B': "chan_rel fr (unat mg) B' (set ns) (channel_at oc' c)" and out: "filter (\<lambda>f. frame_channel f = c) out = map fr [0..<B']"
    by auto
  have "B' = N" using B' all by (auto simp: chan_rel_def)
  then show ?thesis using out by simp
qed

definition ordered_frame :: "u8 \<Rightarrow> nat \<Rightarrow> Frame" where
  "ordered_frame c n =
     \<lparr>fr_header = \<lparr>fh_reliability = ReliableOrdered, fh_is_split = False, fh_needs_bas = False\<rparr>,
      fr_bit_length = 8, fr_reliable_index = Some (of_nat n), fr_sequence_index = None,
      fr_ordering_index = Some (of_nat n), fr_ordering_channel = Some c, fr_split = None, fr_payload = [0xFE]\<rparr>"

theorem ordered_delivery_witness:
  "filter (\<lambda>f. frame_channel f = 1)
     (fst (ordered_run (channels_new 4 8 8)
        [ordered_frame 1 2, ordered_frame 0 1, ordered_frame 1 0, ordered_frame 1 2, ordered_frame 0 0, ordered_frame 1 1]))
   = map (ordered_frame 1) [0..<3]"
proof (rule ordered_delivery [where ns = "[2, 0, 2, 1]" and c = 1])
  show "ordered_run (channels_new 4 8 8)
        [ordered_frame 1 2, ordered_frame 0 1, ordered_frame 1 0, ordered_frame 1 2, ordered_frame 0 0, ordered_frame 1 1]
      = (fst (ordered_run (channels_new 4 8 8)
        [ordered_frame 1 2, ordered_frame 0 1, ordered_frame 1 0, ordered_frame 1 2, ordered_frame 0 0, ordered_frame 1 1]),
         snd (ordered_run (channels_new 4 8 8)
        [ordered_frame 1 2, ordered_frame 0 1, ordered_frame 1 0, ordered_frame 1 2, ordered_frame 0 0, ordered_frame 1 1]))"
    by simp
qed (auto simp: ordered_frame_def frame_channel_def)

fun sequenced_run :: "OrderingChannels \<Rightarrow> Frame list \<Rightarrow> Frame list" where
  "sequenced_run oc [] = []"
| "sequenced_run oc (f # fs) =
     (case handle_sequenced oc f of (res, oc1) \<Rightarrow> (if res = Accept then [f] else []) @ sequenced_run oc1 fs)"

text \<open>Reference: an index passes when it is greater than every index that passed before it.\<close>

fun newest :: "nat option \<Rightarrow> nat list \<Rightarrow> nat list" where
  "newest la [] = []"
| "newest la (n # ns) =
     (if (case la of None \<Rightarrow> True | Some l \<Rightarrow> l < n) then n # newest (Some n) ns else newest la ns)"

lemma handle_sequenced_channel:
  assumes "handle_sequenced oc f = (res, oc')" and "fr_sequence_index f = Some i"
  shows "channel_sequenced (oc_max_gap oc) (channel_at oc (frame_channel f)) i = (res, channel_at oc' (frame_channel f))"
    and "oc_max_gap oc' = oc_max_gap oc"
proof -
  obtain r st where st: "channel_sequenced (oc_max_gap oc) (channel_at oc (frame_channel f)) i = (r, st)"
    by (cases "channel_sequenced (oc_max_gap oc) (channel_at oc (frame_channel f)) i")
  then have "res = r" and "oc' = (channel_state_mut oc (frame_channel f))
      \<lparr>oc_channels := (oc_channels (channel_state_mut oc (frame_channel f)))[unat (frame_channel f) := st]\<rparr>"
    using assms by (auto simp: handle_sequenced_def channel_at_def Let_def)
  then show "channel_sequenced (oc_max_gap oc) (channel_at oc (frame_channel f)) i = (res, channel_at oc' (frame_channel f))"
    and "oc_max_gap oc' = oc_max_gap oc"
    using st by (simp_all add: channel_at_update)
qed

lemma channel_sequenced_newer:
  assumes "cs_last_sequence st = map_option of_nat la" and "n < N" "\<forall>l. la = Some l \<longrightarrow> l < N"
    and "N \<le> Suc (unat gap)" "N + unat gap < 16777216"
  shows "channel_sequenced gap st (of_nat n) =
    (if (case la of None \<Rightarrow> True | Some l \<Rightarrow> l < n) then (Accept, st\<lparr>cs_last_sequence := Some (of_nat n)\<rparr>) else (DropStale, st))"
proof (cases la)
  case None
  then show ?thesis using assms(1) by (simp add: channel_sequenced_def)
next
  case (Some l)
  then show ?thesis
    using channel_sequenced_newest [of st l n gap] assms by simp
qed

lemma sequenced_run_newest:
  assumes "\<forall>n \<in> set ns. frame_channel (fr n) = c \<and> fr_sequence_index (fr n) = Some (of_nat n) \<and> n < N"
    and "cs_last_sequence (channel_at oc c) = map_option of_nat la" "\<forall>l. la = Some l \<longrightarrow> l < N"
    and "N \<le> Suc (unat (oc_max_gap oc))" "N + unat (oc_max_gap oc) < 16777216"
  shows "sequenced_run oc (map fr ns) = map fr (newest la ns)"
  using assms
proof (induction ns arbitrary: oc la)
  case (Cons n ns)
  obtain res oc1 where h: "handle_sequenced oc (fr n) = (res, oc1)" by (cases "handle_sequenced oc (fr n)")
  have n: "frame_channel (fr n) = c" "fr_sequence_index (fr n) = Some (of_nat n)" "n < N" using Cons.prems(1) by auto
  note ch = handle_sequenced_channel [OF h n(2), unfolded n(1)]
    and newer = channel_sequenced_newer [OF Cons.prems(2) n(3) Cons.prems(3-5)]
  show ?case
  proof (cases "case la of None \<Rightarrow> True | Some l \<Rightarrow> l < n")
    case True
    then have r: "res = Accept" "channel_at oc1 c = (channel_at oc c)\<lparr>cs_last_sequence := Some (of_nat n)\<rparr>"
      using ch(1) newer by simp_all
    then have "cs_last_sequence (channel_at oc1 c) = map_option of_nat (Some n)" by simp
    with Cons.IH [of oc1 "Some n"] Cons.prems h ch(2) True n(3) r(1) show ?thesis by simp
  next
    case False
    then have "res = DropStale" "channel_at oc1 c = channel_at oc c" using ch(1) newer by auto
    with Cons.IH [of oc1 la] Cons.prems h ch(2) False show ?thesis by simp
  qed
qed simp

lemma channels_new_gap: "1 \<le> mg \<Longrightarrow> oc_max_gap (channels_new mc mp mg) = mg"
  by (simp add: channels_new_def max_def)


definition sequenced_frame :: "nat \<Rightarrow> Frame" where
  "sequenced_frame n = (ordered_frame 3 n)\<lparr>fr_header := \<lparr>fh_reliability = UnreliableSequenced, fh_is_split = False, fh_needs_bas = False\<rparr>,
     fr_sequence_index := Some (of_nat n)\<rparr>"


end
