(* ===== verification/SplitAssembler.thy ===== *)
theory SplitAssembler
  imports Framing "HOL-Library.AList"
begin

text \<open>
  \<^verbatim>\<open>src/session/split_assembler.rs\<close>: reassembly of split frames.  The \<^verbatim>\<open>HashMap\<close> of compounds is an
  association list with distinct keys, updated with the operations of HOL-Library's \<open>AList\<close>.
  The lemmas show the bounds on what is buffered and that the parts of a compound, in any
  order and with repetitions, give back the payload that was split.
\<close>

record SplitEntry =
  se_header :: FrameHeader
  se_reliable_index :: "Sequence24 option"
  se_sequence_index :: "Sequence24 option"
  se_ordering_index :: "Sequence24 option"
  se_ordering_channel :: "u8 option"
  se_part_count :: u32
  se_received :: usize
  se_parts :: "bytes option list"
  se_last_update :: Instant

record SplitAssembler =
  sa_entries :: "(u16 \<times> SplitEntry) list"
  sa_ttl :: Duration
  sa_max_parts :: u32
  sa_max_concurrent :: usize

definition assembler_new :: "Duration \<Rightarrow> u32 \<Rightarrow> usize \<Rightarrow> SplitAssembler" where
  "assembler_new ttl max_parts max_concurrent =
     \<lparr>sa_entries = [], sa_ttl = (if ttl = 0 then secs 30 else ttl),
      sa_max_parts = max max_parts 1, sa_max_concurrent = max max_concurrent 1\<rparr>"

definition split_prune :: "SplitAssembler \<Rightarrow> Instant \<Rightarrow> usize \<times> SplitAssembler" where
  "split_prune sa now =
     (let kept = filter (\<lambda>(_, entry). \<not> now - se_last_update entry \<ge> sa_ttl sa) (sa_entries sa)
      in (length (sa_entries sa) - length kept, sa\<lparr>sa_entries := kept\<rparr>))"

definition new_entry :: "Frame \<Rightarrow> SplitInfo \<Rightarrow> Instant \<Rightarrow> SplitEntry" where
  "new_entry frame split now =
     \<lparr>se_header = fr_header frame, se_reliable_index = fr_reliable_index frame,
      se_sequence_index = fr_sequence_index frame, se_ordering_index = fr_ordering_index frame,
      se_ordering_channel = fr_ordering_channel frame, se_part_count = si_part_count split,
      se_received = 0, se_parts = replicate (unat (si_part_count split)) None, se_last_update = now\<rparr>"

text \<open>The merge loop; a missing part is the error branch of \<^verbatim>\<open>ok_or\<close>.\<close>

fun merge_parts :: "bytes option list \<Rightarrow> bytes option" where
  "merge_parts [] = Some []"
| "merge_parts (None # parts) = None"
| "merge_parts (Some b # parts) = map_option (\<lambda>rest. b @ rest) (merge_parts parts)"

definition assembled_frame :: "SplitEntry \<Rightarrow> bytes \<Rightarrow> Frame" where
  "assembled_frame entry payload =
     \<lparr>fr_header = (se_header entry)\<lparr>fh_is_split := False\<rparr>,
      fr_bit_length = push_bit 3 (of_nat (length payload)),
      fr_reliable_index = se_reliable_index entry, fr_sequence_index = se_sequence_index entry,
      fr_ordering_index = se_ordering_index entry, fr_ordering_channel = se_ordering_channel entry,
      fr_split = None, fr_payload = payload\<rparr>"

text \<open>The part of \<^verbatim>\<open>add\<close> after the entry has been found or inserted.\<close>

definition store_part :: "SplitAssembler \<Rightarrow> Frame \<Rightarrow> SplitInfo \<Rightarrow> SplitEntry \<Rightarrow> Instant
    \<Rightarrow> (DecodeError + Frame option) \<times> SplitAssembler" where
  "store_part sa frame split entry now =
     (let index = unat (si_part_index split)
      in if se_part_count entry \<noteq> si_part_count split then (Inl SplitCountMismatch, sa)
         else if length (se_parts entry) \<noteq> unat (si_part_count split) then (Inl SplitCountMismatch, sa)
         else if index \<ge> length (se_parts entry) then (Inl SplitIndexOutOfRange, sa)
         else if se_parts entry ! index \<noteq> None then (Inr None, sa)
         else let entry' = entry\<lparr>se_parts := (se_parts entry)[index := Some (fr_payload frame)],
                                 se_received := se_received entry + 1, se_last_update := now\<rparr>;
                  sa' = sa\<lparr>sa_entries := AList.update (si_part_id split) entry' (sa_entries sa)\<rparr>
              in if se_received entry' \<noteq> length (se_parts entry') then (Inr None, sa')
                 else case merge_parts (se_parts entry') of
                        None \<Rightarrow> (Inl SplitCountMismatch, sa')
                      | Some payload \<Rightarrow>
                          (Inr (Some (assembled_frame entry' payload)),
                           sa'\<lparr>sa_entries := AList.delete (si_part_id split) (sa_entries sa')\<rparr>))"

definition split_add :: "SplitAssembler \<Rightarrow> Frame \<Rightarrow> Instant \<Rightarrow> (DecodeError + Frame option) \<times> SplitAssembler" where
  "split_add sa0 frame now =
     (if \<not> fh_is_split (fr_header frame) then (Inr (Some frame), sa0)
      else let sa = snd (split_prune sa0 now)
           in case fr_split frame of
                None \<Rightarrow> (Inl MissingSplitInfo, sa)
              | Some split \<Rightarrow>
                  if si_part_count split = 0 then (Inl SplitCountZero, sa)
                  else if si_part_count split > sa_max_parts sa then (Inl SplitTooLarge, sa)
                  else if si_part_index split \<ge> si_part_count split then (Inl SplitIndexOutOfRange, sa)
                  else if length (sa_entries sa) \<ge> sa_max_concurrent sa
                          \<and> map_of (sa_entries sa) (si_part_id split) = None
                  then (Inl SplitBufferFull, sa)
                  else case map_of (sa_entries sa) (si_part_id split) of
                         Some entry \<Rightarrow> store_part sa frame split entry now
                       | None \<Rightarrow>
                           (let entry = new_entry frame split now
                            in store_part (sa\<lparr>sa_entries := AList.update (si_part_id split) entry (sa_entries sa)\<rparr>)
                                 frame split entry now))"

definition drain_buffered_parts :: "SplitAssembler \<Rightarrow> bytes list \<times> SplitAssembler" where
  "drain_buffered_parts sa =
     (concat (map (\<lambda>(_, entry). List.map_filter (\<lambda>p. p) (se_parts entry)) (sa_entries sa)),
      sa\<lparr>sa_entries := []\<rparr>)"

section \<open>Bounds\<close>

definition entry_ok :: "u32 \<Rightarrow> SplitEntry \<Rightarrow> bool" where
  "entry_ok max_parts e \<longleftrightarrow>
     se_part_count e \<le> max_parts \<and> length (se_parts e) = unat (se_part_count e)
     \<and> se_received e = length (filter (\<lambda>p. p \<noteq> None) (se_parts e))
     \<and> se_received e < length (se_parts e)"

definition assembler_ok :: "SplitAssembler \<Rightarrow> bool" where
  "assembler_ok sa \<longleftrightarrow>
     distinct (map fst (sa_entries sa)) \<and> length (sa_entries sa) \<le> sa_max_concurrent sa
     \<and> (\<forall>(k, e) \<in> set (sa_entries sa). entry_ok (sa_max_parts sa) e)"

lemma assembler_new_ok: "assembler_ok (assembler_new ttl mp mc)"
  by (simp add: assembler_new_def assembler_ok_def)

lemma split_prune_ok: "assembler_ok sa \<Longrightarrow> assembler_ok (snd (split_prune sa now))"
  by (auto simp: assembler_ok_def split_prune_def Let_def distinct_map_filter
      intro: order.trans [OF length_filter_le])

lemma filled_update:
  "i < length ps \<Longrightarrow> ps ! i = None \<Longrightarrow>
     length (filter (\<lambda>p. p \<noteq> None) (ps[i := Some b])) = Suc (length (filter (\<lambda>p. p \<noteq> None) ps))"
proof (induction ps arbitrary: i)
  case (Cons p ps)
  then show ?case by (cases i) auto
qed simp

lemma merge_parts_Some: "None \<notin> set ps \<Longrightarrow> merge_parts ps = Some (concat (map the ps))"
  by (induction ps rule: merge_parts.induct) auto

lemma merge_parts_filled:
  assumes "length (filter (\<lambda>p. p \<noteq> None) ps) = length ps"
  shows "merge_parts ps = Some (concat (map the ps))"
proof (rule merge_parts_Some)
  have "filter (\<lambda>p. p \<noteq> None) ps = ps" using assms by (metis filter_True length_filter_less nat_neq_iff)
  then show "None \<notin> set ps" by (metis (mono_tags, lifting) filter_id_conv)
qed

lemma length_delete_update:
  "distinct (map fst xs) \<Longrightarrow> k \<in> fst ` set xs \<Longrightarrow> length (AList.update k v xs) = length xs"
  by (induction xs) auto

lemma set_delete_subset: "set (AList.delete k xs) \<subseteq> set xs"
  by (auto simp: AList.delete_eq)

lemma split_prune_fields [simp]:
  "sa_ttl (snd (split_prune sa now)) = sa_ttl sa"
  "sa_max_parts (snd (split_prune sa now)) = sa_max_parts sa"
  "sa_max_concurrent (snd (split_prune sa now)) = sa_max_concurrent sa"
  by (simp_all add: split_prune_def Let_def)

lemma update_entries_ok:
  assumes "\<forall>(k, e) \<in> set xs. P e" and "P e'"
  shows "\<forall>(k, e) \<in> set (AList.update k' e' xs). P e"
  using assms by (induction xs) auto

lemma update_new_key: "k \<notin> fst ` set xs \<Longrightarrow> AList.update k v xs = xs @ [(k, v)]"
  by (induction xs) auto

lemma delete_update_entries:
  "set (AList.delete k (AList.update k v xs)) \<subseteq> set xs"
  by (induction xs) (auto simp: AList.delete_eq)

lemma store_part_ok:
  assumes sa: "assembler_ok sa" and entry: "(si_part_id split, entry) \<in> set (sa_entries sa)"
    and st: "store_part sa frame split entry now = (res, sa')"
  shows "assembler_ok sa'"
proof -
  define entry' where "entry' = entry\<lparr>se_parts := (se_parts entry)[unat (si_part_index split) := Some (fr_payload frame)],
      se_received := se_received entry + 1, se_last_update := now\<rparr>"
  have ok: "entry_ok (sa_max_parts sa) entry" using sa entry by (auto simp: assembler_ok_def)
  have len: "length (AList.update (si_part_id split) e (sa_entries sa)) = length (sa_entries sa)" for e
    using sa entry by (intro length_delete_update) (force simp: assembler_ok_def)+
  consider "sa' = sa"
    | "sa' = sa\<lparr>sa_entries := AList.update (si_part_id split) entry' (sa_entries sa)\<rparr>"
      "entry_ok (sa_max_parts sa) entry'"
    | "sa' = sa\<lparr>sa_entries := AList.delete (si_part_id split) (AList.update (si_part_id split) entry' (sa_entries sa))\<rparr>"
  proof (cases "length (se_parts entry) = unat (si_part_count split) \<and> se_part_count entry = si_part_count split
      \<and> unat (si_part_index split) < length (se_parts entry) \<and> se_parts entry ! unat (si_part_index split) = None")
    case False
    then show ?thesis using st that(1) by (auto simp: store_part_def Let_def split: if_splits)
  next
    case True
    then have filled: "se_received entry' = length (filter (\<lambda>p. p \<noteq> None) (se_parts entry'))"
      using ok by (simp add: entry'_def entry_ok_def filled_update del: not_None_eq)
    show ?thesis
    proof (cases "se_received entry' = length (se_parts entry')")
      case True
      with merge_parts_filled [of "se_parts entry'"] filled
      have "merge_parts (se_parts entry') = Some (concat (map the (se_parts entry')))" by simp
      then show ?thesis
        using st True \<open>length _ = _ \<and> _\<close> that(3) by (simp add: store_part_def entry'_def Let_def)
    next
      case neq: False
      have "entry_ok (sa_max_parts sa) entry'"
        using ok neq True filled by (auto simp: entry_ok_def entry'_def)
      then show ?thesis
        using st neq True that(2) by (simp add: store_part_def entry'_def Let_def)
    qed
  qed
  then show ?thesis
  proof cases
    case 1
    then show ?thesis using sa by simp
  next
    case 2
    then show ?thesis
      using sa len update_entries_ok [of "sa_entries sa" "entry_ok (sa_max_parts sa)" entry']
      by (simp add: assembler_ok_def AList.distinct_update)
  next
    case 3
    have "length (AList.delete (si_part_id split) (AList.update (si_part_id split) entry' (sa_entries sa)))
        \<le> sa_max_concurrent sa"
      using sa len [of entry'] AList.length_delete_le [of "si_part_id split"]
      by (metis assembler_ok_def order.trans)
    then show ?thesis
      using sa delete_update_entries [of "si_part_id split" entry' "sa_entries sa"]
      by (auto simp: 3 assembler_ok_def AList.distinct_delete AList.distinct_update)
  qed
qed

text \<open>The four ways through \<^verbatim>\<open>add\<close>: not a split frame, rejected, a known compound, a new compound.\<close>

definition split_rejected :: "SplitAssembler \<Rightarrow> SplitInfo \<Rightarrow> bool" where
  "split_rejected sa split \<longleftrightarrow>
     si_part_count split = 0 \<or> si_part_count split > sa_max_parts sa
     \<or> si_part_index split \<ge> si_part_count split
     \<or> length (sa_entries sa) \<ge> sa_max_concurrent sa \<and> map_of (sa_entries sa) (si_part_id split) = None"

abbreviation with_entry :: "SplitAssembler \<Rightarrow> u16 \<Rightarrow> SplitEntry \<Rightarrow> SplitAssembler" where
  "with_entry sa pid e \<equiv> sa\<lparr>sa_entries := AList.update pid e (sa_entries sa)\<rparr>"

lemma split_add_accepted:
  assumes "fh_is_split (fr_header frame)" and "fr_split frame = Some split"
    and "\<not> split_rejected (snd (split_prune sa0 now)) split"
  shows "split_add sa0 frame now =
    (let sa = snd (split_prune sa0 now)
     in case map_of (sa_entries sa) (si_part_id split) of
          Some entry \<Rightarrow> store_part sa frame split entry now
        | None \<Rightarrow> store_part (with_entry sa (si_part_id split) (new_entry frame split now))
                   frame split (new_entry frame split now) now)"
  using assms by (auto simp: split_add_def split_rejected_def Let_def split: option.split)

lemma split_add_rejected:
  assumes "fh_is_split (fr_header frame)"
    and "\<forall>split. fr_split frame = Some split \<longrightarrow> split_rejected (snd (split_prune sa0 now)) split"
  shows "\<exists>e. split_add sa0 frame now = (Inl e, snd (split_prune sa0 now))"
  using assms
  by (cases "fr_split frame") (auto simp: split_add_def split_rejected_def Let_def simp del: not_None_eq)

lemma split_add_ok:
  assumes sa: "assembler_ok sa0" and add: "split_add sa0 frame now = (res, sa')"
  shows "assembler_ok sa'"
proof -
  define sa where "sa = snd (split_prune sa0 now)"
  have ok: "assembler_ok sa" using sa by (simp add: sa_def split_prune_ok)
  consider "\<not> fh_is_split (fr_header frame)"
    | "fh_is_split (fr_header frame)" "\<forall>split. fr_split frame = Some split \<longrightarrow> split_rejected sa split"
    | split where "fh_is_split (fr_header frame)" "fr_split frame = Some split" "\<not> split_rejected sa split"
    by blast
  then show ?thesis
  proof cases
    case 1
    then show ?thesis using sa add by (simp add: split_add_def)
  next
    case 2
    then show ?thesis using split_add_rejected [of frame sa0 now] ok add by (auto simp: sa_def)
  next
    case 3
    note eq = split_add_accepted [OF 3 [unfolded sa_def], folded sa_def]
    show ?thesis
    proof (cases "map_of (sa_entries sa) (si_part_id split)")
      case (Some entry)
      then have "store_part sa frame split entry now = (res, sa')" using eq add by simp
      then show ?thesis by (rule store_part_ok [OF ok map_of_SomeD [OF Some]])
    next
      case None
      let ?e = "new_entry frame split now"
      have "AList.update (si_part_id split) ?e (sa_entries sa) = sa_entries sa @ [(si_part_id split, ?e)]"
        using None by (simp add: update_new_key map_of_eq_None_iff)
      moreover have "entry_ok (sa_max_parts sa) ?e"
        using 3(3) by (auto simp: split_rejected_def entry_ok_def new_entry_def unat_gt_0)
      ultimately have "assembler_ok (with_entry sa (si_part_id split) ?e)"
        and "(si_part_id split, ?e) \<in> set (sa_entries (with_entry sa (si_part_id split) ?e))"
        using ok None 3(3) by (auto simp: split_rejected_def assembler_ok_def map_of_eq_None_iff)
      moreover have "store_part (with_entry sa (si_part_id split) ?e) frame split ?e now = (res, sa')"
        using eq None add by simp
      ultimately show ?thesis by (rule store_part_ok)
    qed
  qed
qed

section \<open>Reassembly\<close>

text \<open>
  A compound is its id, its number of parts \<open>n\<close> and the payload \<open>p i\<close> of each part.  \<open>part_of\<close> is a frame
  that carries part \<open>i\<close> of it; \<open>holds\<close> says that an entry has stored exactly the parts in \<open>R\<close>.
\<close>

definition part_of :: "u16 \<Rightarrow> nat \<Rightarrow> (nat \<Rightarrow> bytes) \<Rightarrow> nat \<Rightarrow> Frame \<Rightarrow> bool" where
  "part_of pid n p i f \<longleftrightarrow>
     fh_is_split (fr_header f) \<and>
     fr_split f = Some \<lparr>si_part_count = of_nat n, si_part_id = pid, si_part_index = of_nat i\<rparr> \<and>
     fr_payload f = p i \<and> i < n \<and> n < 2 ^ 32"

definition holds :: "nat \<Rightarrow> (nat \<Rightarrow> bytes) \<Rightarrow> nat set \<Rightarrow> SplitEntry \<Rightarrow> bool" where
  "holds n p R e \<longleftrightarrow>
     se_part_count e = of_nat n \<and> se_parts e = map (\<lambda>i. if i \<in> R then Some (p i) else None) [0..<n] \<and>
     R \<subseteq> {..<n} \<and> se_received e = card R"

lemma unat_of_nat_u32: "n < 2 ^ 32 \<Longrightarrow> unat (of_nat n :: u32) = n"
  by (simp add: unat_of_nat take_bit_nat_eq_self)

lemma holds_new:
  "part_of pid n p i f \<Longrightarrow> fr_split f = Some split \<Longrightarrow> holds n p {} (new_entry f split now)"
  by (auto simp: holds_def new_entry_def part_of_def unat_of_nat_u32 map_replicate_const)

lemma merge_all: "merge_parts (map (\<lambda>i. Some (p i)) xs) = Some (concat (map p xs))"
  by (induction xs) auto

text \<open>One part stored into an entry that holds the parts \<open>R\<close>.\<close>

lemma store_part_holds:
  fixes now :: Instant
  assumes part: "part_of pid n p i f" "fr_split f = Some split" and e: "holds n p R e"
  defines "e' \<equiv> e\<lparr>se_parts := (se_parts e)[i := Some (p i)], se_received := card R + 1, se_last_update := now\<rparr>"
  shows "i \<in> R \<Longrightarrow> store_part sa f split e now = (Inr None, sa)"
    and "i \<notin> R \<Longrightarrow> insert i R \<noteq> {..<n} \<Longrightarrow> store_part sa f split e now = (Inr None, with_entry sa pid e')"
    and "i \<notin> R \<Longrightarrow> insert i R = {..<n} \<Longrightarrow> store_part sa f split e now =
      (Inr (Some (assembled_frame e' (concat (map p [0..<n])))),
       sa\<lparr>sa_entries := AList.delete pid (AList.update pid e' (sa_entries sa))\<rparr>)"
    and "i \<notin> R \<Longrightarrow> holds n p (insert i R) e'"
proof -
  have split: "si_part_count split = of_nat n" "si_part_id split = pid" "unat (si_part_index split) = i"
    "unat (of_nat n :: u32) = n" and i: "i < n" and pay: "fr_payload f = p i"
    using part by (auto simp: part_of_def unat_of_nat_u32)
  have parts: "se_parts e = map (\<lambda>i. if i \<in> R then Some (p i) else None) [0..<n]"
    and R: "R \<subseteq> {..<n}" "se_received e = card R" "se_part_count e = of_nat n"
    using e by (auto simp: holds_def)
  have upd: "(se_parts e)[i := Some (p i)] = map (\<lambda>j. if j \<in> insert i R then Some (p j) else None) [0..<n]"
    using i by (intro nth_equalityI) (auto simp: parts nth_list_update)
  have fin: "finite R" using R(1) finite_subset by blast
  show "i \<in> R \<Longrightarrow> store_part sa f split e now = (Inr None, sa)"
    using i by (simp add: store_part_def split R parts)
  show "i \<notin> R \<Longrightarrow> holds n p (insert i R) e'"
    using R i fin by (simp add: holds_def e'_def upd)
  {
    assume new: "i \<notin> R"
    have "card (insert i R) = card R + 1" using new fin by simp
    then have full: "card R + 1 = n \<longleftrightarrow> insert i R = {..<n}"
      using R(1) i card_subset_eq [of "{..<n}" "insert i R"] by (metis card_lessThan finite_lessThan
          insert_subset lessThan_iff)
    have st: "store_part sa f split e now =
       (if card R + 1 \<noteq> n then (Inr None, with_entry sa pid e')
        else case merge_parts (map (\<lambda>j. if j \<in> insert i R then Some (p j) else None) [0..<n]) of
          None \<Rightarrow> (Inl SplitCountMismatch, with_entry sa pid e')
        | Some payload \<Rightarrow> (Inr (Some (assembled_frame e' payload)),
            sa\<lparr>sa_entries := AList.delete pid (AList.update pid e' (sa_entries sa))\<rparr>))"
      using i new by (simp add: store_part_def split R pay parts Let_def e'_def upd [unfolded parts]
          split: option.split)
    show "insert i R \<noteq> {..<n} \<Longrightarrow> store_part sa f split e now = (Inr None, with_entry sa pid e')"
      using st full by simp
    have "map (\<lambda>j. if j \<in> {..<n} then Some (p j) else None) [0..<n] = map (\<lambda>j. Some (p j)) [0..<n]"
      by simp
    then show "insert i R = {..<n} \<Longrightarrow> store_part sa f split e now =
      (Inr (Some (assembled_frame e' (concat (map p [0..<n])))),
       sa\<lparr>sa_entries := AList.delete pid (AList.update pid e' (sa_entries sa))\<rparr>)"
      using st full by (simp only: merge_all) simp
  }
qed

lemma prune_lookup:
  assumes "distinct (map fst (sa_entries sa))"
  shows "map_of (sa_entries (snd (split_prune sa now))) k =
    (case map_of (sa_entries sa) k of
       Some e \<Rightarrow> if now - se_last_update e < sa_ttl sa then Some e else None | None \<Rightarrow> None)"
proof -
  have "map_of (filter (\<lambda>(_, e). P e) xs) k =
      (case map_of xs k of Some e \<Rightarrow> if P e then Some e else None | None \<Rightarrow> None)"
    if "distinct (map fst xs)" for P and xs :: "(u16 \<times> SplitEntry) list"
    using that
  proof (induction xs)
    case (Cons x xs)
    then show ?case
      by (cases x) (force split: option.splits dest: map_of_SomeD)
  qed simp
  from this [OF assms, of "\<lambda>e. now - se_last_update e < sa_ttl sa"] show ?thesis
    by (simp add: split_prune_def Let_def not_le)
qed

fun add_all :: "SplitAssembler \<Rightarrow> (Frame \<times> Instant) list \<Rightarrow> (DecodeError + Frame option) list \<times> SplitAssembler" where
  "add_all sa [] = ([], sa)"
| "add_all sa ((f, now) # fs) =
     (let (res, sa1) = split_add sa f now; (rs, sa2) = add_all sa1 fs in (res # rs, sa2))"

text \<open>The assembler is collecting the compound whose first part was \<open>f0\<close>, arrived at \<open>t0\<close>.\<close>

definition collecting :: "u16 \<Rightarrow> nat \<Rightarrow> (nat \<Rightarrow> bytes) \<Rightarrow> SplitEntry \<Rightarrow> Instant \<Rightarrow> nat set \<Rightarrow> SplitAssembler \<Rightarrow> bool" where
  "collecting pid n p e0 t0 R sa \<longleftrightarrow>
     assembler_ok sa \<and> n \<le> unat (sa_max_parts sa) \<and>
     (\<exists>e. map_of (sa_entries sa) pid = Some e \<and> holds n p R e \<and> t0 \<le> se_last_update e
          \<and> assembled_frame e = assembled_frame e0)"

lemma accepted_part:
  assumes "part_of pid n p i f" "fr_split f = Some split" and "n \<le> unat (sa_max_parts sa)"
    and "length (sa_entries sa) < sa_max_concurrent sa \<or> map_of (sa_entries sa) pid \<noteq> None"
  shows "\<not> split_rejected sa split" and "si_part_id split = pid"
  using assms
  by (auto simp: part_of_def split_rejected_def word_less_nat_alt word_le_nat_alt unat_of_nat_u32
      word_unat_eq_iff)

lemma map_of_with_entry: "map_of (sa_entries (with_entry sa pid e)) pid = Some e"
  by (simp add: AList.update_conv')

lemma stored_collecting:
  assumes part: "part_of pid n p i f" "fr_split f = Some split"
    and sa: "assembler_ok sa" "n \<le> unat (sa_max_parts sa)" "map_of (sa_entries sa) pid = Some e"
    and e: "holds n p R e" "t0 \<le> se_last_update e" "assembled_frame e = assembled_frame e0" and t: "t0 \<le> now"
    and st: "store_part sa f split e now = (res, sa')"
  shows "insert i R \<noteq> {..<n} \<Longrightarrow> res = Inr None \<and> collecting pid n p e0 t0 (insert i R) sa'"
    and "insert i R = {..<n} \<Longrightarrow> i \<notin> R \<Longrightarrow>
      res = Inr (Some (assembled_frame e0 (concat (map p [0..<n])))) \<and> map_of (sa_entries sa') pid = None"
    and "sa_ttl sa' = sa_ttl sa"
proof -
  let ?e = "e\<lparr>se_parts := (se_parts e)[i := Some (p i)], se_received := card R + 1, se_last_update := now\<rparr>"
  note stored = store_part_holds(1-3) [OF part e(1), where sa = sa and now = now]
    store_part_holds(4) [OF part e(1), where now = now]
  have tmpl: "assembled_frame ?e = assembled_frame e0"
    using e(3) by (auto simp: assembled_frame_def fun_eq_iff)
  have pid: "si_part_id split = pid" using part by (auto simp: part_of_def)
  have ok: "assembler_ok sa'"
    using store_part_ok [OF sa(1) map_of_SomeD st] sa(3) pid by simp
  show "sa_ttl sa' = sa_ttl sa"
    using st by (auto simp: store_part_def Let_def split: if_splits option.splits)
  show "res = Inr (Some (assembled_frame e0 (concat (map p [0..<n])))) \<and> map_of (sa_entries sa') pid = None"
    if "insert i R = {..<n}" "i \<notin> R"
    using stored(3) [OF that(2,1)] unfolding st tmpl by (simp add: AList.delete_conv')
  assume more_parts: "insert i R \<noteq> {..<n}"
  show "res = Inr None \<and> collecting pid n p e0 t0 (insert i R) sa'"
  proof (cases "i \<in> R")
    case True
    then have "res = Inr None" "sa' = sa" using stored(1) st by auto
    then show ?thesis using sa e True by (auto simp: collecting_def insert_absorb)
  next
    case False
    then have r: "res = Inr None" "sa' = with_entry sa pid ?e" using stored(2) more_parts st by auto
    have "map_of (sa_entries sa') pid = Some ?e" unfolding r(2) by (rule map_of_with_entry)
    moreover have "holds n p (insert i R) ?e" using stored(4) False .
    ultimately show ?thesis using r ok sa(2) t tmpl by (auto simp: collecting_def)
  qed
qed

lemma add_collecting:
  assumes c: "collecting pid n p e0 t0 R sa" and part: "part_of pid n p i f"
    and t: "t0 \<le> now" "now < t0 + sa_ttl sa" and st: "split_add sa f now = (res, sa')"
  shows "insert i R \<noteq> {..<n} \<Longrightarrow> res = Inr None \<and> collecting pid n p e0 t0 (insert i R) sa'"
    and "insert i R = {..<n} \<Longrightarrow> i \<notin> R \<Longrightarrow>
      res = Inr (Some (assembled_frame e0 (concat (map p [0..<n])))) \<and> map_of (sa_entries sa') pid = None"
    and "sa_ttl sa' = sa_ttl sa"
proof -
  define sa1 where "sa1 = snd (split_prune sa now)"
  obtain split where split: "fr_split f = Some split" and is_split: "fh_is_split (fr_header f)"
    using part by (auto simp: part_of_def)
  obtain e where e: "map_of (sa_entries sa) pid = Some e" "holds n p R e" "t0 \<le> se_last_update e"
    "assembled_frame e = assembled_frame e0" and ok: "assembler_ok sa" "n \<le> unat (sa_max_parts sa)"
    using c by (auto simp: collecting_def)
  have look: "map_of (sa_entries sa1) pid = Some e"
    using prune_lookup [of sa now pid] ok e t by (auto simp: sa1_def assembler_ok_def)
  have ok1: "assembler_ok sa1" "n \<le> unat (sa_max_parts sa1)" "sa_ttl sa1 = sa_ttl sa"
    using ok by (simp_all add: sa1_def split_prune_ok)
  note acc = accepted_part [OF part split ok1(2)]
  have "store_part sa1 f split e now = (res, sa')"
    using st split_add_accepted [OF is_split split, of sa now] acc look by (simp add: sa1_def)
  note stored_collecting [OF part split ok1(1,2) look e(2-4) t(1) this]
  then show "insert i R \<noteq> {..<n} \<Longrightarrow> res = Inr None \<and> collecting pid n p e0 t0 (insert i R) sa'"
    and "insert i R = {..<n} \<Longrightarrow> i \<notin> R \<Longrightarrow>
      res = Inr (Some (assembled_frame e0 (concat (map p [0..<n])))) \<and> map_of (sa_entries sa') pid = None"
    and "sa_ttl sa' = sa_ttl sa"
    using ok1(3) by simp_all
qed

lemma add_first:
  assumes sa: "assembler_ok sa" "n \<le> unat (sa_max_parts sa)" "map_of (sa_entries sa) pid = None"
      "length (sa_entries sa) < sa_max_concurrent sa"
    and part: "part_of pid n p i f" "fr_split f = Some split"
    and st: "split_add sa f now = (res, sa')"
  shows "{i} \<noteq> {..<n} \<Longrightarrow> res = Inr None \<and> collecting pid n p (new_entry f split now) now {i} sa'"
    and "{i} = {..<n} \<Longrightarrow>
      res = Inr (Some (assembled_frame (new_entry f split now) (concat (map p [0..<n]))))
      \<and> map_of (sa_entries sa') pid = None"
    and "sa_ttl sa' = sa_ttl sa"
proof -
  define sa1 where "sa1 = snd (split_prune sa now)"
  let ?e = "new_entry f split now"
  have is_split: "fh_is_split (fr_header f)" using part by (auto simp: part_of_def)
  have look: "map_of (sa_entries sa1) pid = None"
    using prune_lookup [of sa now pid] sa by (auto simp: sa1_def assembler_ok_def)
  have len: "length (sa_entries sa1) < sa_max_concurrent sa1"
    using sa(4) by (simp add: sa1_def split_prune_def Let_def order.strict_trans1 [OF length_filter_le])
  have ok1: "assembler_ok sa1" "n \<le> unat (sa_max_parts sa1)" "sa_ttl sa1 = sa_ttl sa"
    using sa by (simp_all add: sa1_def split_prune_ok)
  note acc = accepted_part [OF part ok1(2)]
  have rej: "\<not> split_rejected sa1 split" and pid: "si_part_id split = pid" using acc len by auto
  let ?sa = "with_entry sa1 pid ?e"
  have st': "store_part ?sa f split ?e now = (res, sa')"
    using st split_add_accepted [OF is_split part(2), of sa now] rej pid look by (simp add: sa1_def Let_def)
  have "entry_ok (sa_max_parts sa1) ?e"
    using rej by (auto simp: split_rejected_def entry_ok_def new_entry_def unat_gt_0)
  then have ok2: "assembler_ok ?sa"
    using ok1(1) look len by (auto simp: assembler_ok_def update_new_key map_of_eq_None_iff)
  have upd: "now \<le> se_last_update ?e" by (simp add: new_entry_def)
  have "n \<le> unat (sa_max_parts ?sa)" using ok1(2) by simp
  note stored_collecting [OF part ok2 this map_of_with_entry holds_new [OF part] upd refl order.refl st']
  then show "{i} \<noteq> {..<n} \<Longrightarrow> res = Inr None \<and> collecting pid n p ?e now {i} sa'"
    and "{i} = {..<n} \<Longrightarrow> res = Inr (Some (assembled_frame ?e (concat (map p [0..<n]))))
      \<and> map_of (sa_entries sa') pid = None"
    and "sa_ttl sa' = sa_ttl sa"
    using ok1(3) by simp_all
qed

text \<open>A sequence of arrivals: index of the part, the frame that carries it, the time.\<close>

definition in_time :: "u16 \<Rightarrow> nat \<Rightarrow> (nat \<Rightarrow> bytes) \<Rightarrow> Instant \<Rightarrow> Duration \<Rightarrow> (nat \<times> Frame \<times> Instant) list \<Rightarrow> bool" where
  "in_time pid n p t0 ttl as \<longleftrightarrow>
     (\<forall>(i, f, t) \<in> set as. part_of pid n p i f \<and> t0 \<le> t \<and> t < t0 + ttl)"

lemma add_all_collecting:
  "collecting pid n p e0 t0 R sa \<Longrightarrow> in_time pid n p t0 (sa_ttl sa) as \<Longrightarrow> R \<union> fst ` set as \<noteq> {..<n} \<Longrightarrow>
   add_all sa (map snd as) = (rs, sa') \<Longrightarrow>
     rs = replicate (length as) (Inr None) \<and> collecting pid n p e0 t0 (R \<union> fst ` set as) sa' \<and> sa_ttl sa' = sa_ttl sa"
proof (induction as arbitrary: R sa rs)
  case (Cons a as)
  obtain i f t where a: "a = (i, f, t)" by (cases a)
  obtain res sa1 rs1 where st: "split_add sa f t = (res, sa1)" and run: "add_all sa1 (map snd as) = (rs1, sa')"
    and rs: "rs = res # rs1"
    using Cons.prems(4) by (auto simp: a Let_def split: prod.splits)
  have i: "part_of pid n p i f" "t0 \<le> t" "t < t0 + sa_ttl sa" and rest: "in_time pid n p t0 (sa_ttl sa) as"
    using Cons.prems(2) by (auto simp: a in_time_def)
  have idx: "fst ` set as \<subseteq> {..<n}" using rest by (auto simp: in_time_def part_of_def)
  have "insert i R \<noteq> {..<n}" using Cons.prems(3) idx by (auto simp: a)
  with add_collecting [OF Cons.prems(1) i st]
  have "res = Inr None" and c: "collecting pid n p e0 t0 (insert i R) sa1" and ttl: "sa_ttl sa1 = sa_ttl sa"
    by auto
  moreover have "insert i R \<union> fst ` set as \<noteq> {..<n}" using Cons.prems(3) by (simp add: a)
  ultimately show ?case
    using Cons.IH [OF c _ _ run] rest rs by (simp add: a ttl)
qed auto

lemma add_all_append:
  "add_all sa (xs @ ys) =
     (let (rs, sa1) = add_all sa xs; (rs', sa2) = add_all sa1 ys in (rs @ rs', sa2))"
  by (induction xs arbitrary: sa) (auto simp: Let_def split: prod.splits)

lemma add_all_reassembles:
  assumes sa: "assembler_ok sa" "n \<le> unat (sa_max_parts sa)" "map_of (sa_entries sa) pid = None"
      "length (sa_entries sa) < sa_max_concurrent sa"
    and as: "as = (i0, f0, t0) # rest" "in_time pid n p t0 (sa_ttl sa) as"
    and all: "fst ` set as = {..<n}" and last: "fst (last as) \<notin> fst ` set (butlast as)"
    and run: "add_all sa (map snd as) = (rs, sa')"
  shows "\<exists>f. rs = replicate (length as - 1) (Inr None) @ [Inr (Some f)]
      \<and> fr_payload f = concat (map p [0..<n]) \<and> fr_header f = (fr_header f0)\<lparr>fh_is_split := False\<rparr>
      \<and> fr_ordering_index f = fr_ordering_index f0 \<and> fr_ordering_channel f = fr_ordering_channel f0
      \<and> fr_sequence_index f = fr_sequence_index f0"
    and "map_of (sa_entries sa') pid = None"
proof -
  have part0: "part_of pid n p i0 f0" using as by (auto simp: in_time_def)
  then obtain split where split: "fr_split f0 = Some split" by (auto simp: part_of_def)
  let ?e = "new_entry f0 split t0" and ?pl = "concat (map p [0..<n])"
  obtain r1 sa1 where s1: "split_add sa f0 t0 = (r1, sa1)" by (cases "split_add sa f0 t0")
  note first = add_first [OF sa part0 split s1]
  have f: "fr_payload f = ?pl \<and> fr_header f = (fr_header f0)\<lparr>fh_is_split := False\<rparr>
      \<and> fr_ordering_index f = fr_ordering_index f0 \<and> fr_ordering_channel f = fr_ordering_channel f0
      \<and> fr_sequence_index f = fr_sequence_index f0" if "f = assembled_frame ?e ?pl" for f
    using that by (simp add: assembled_frame_def new_entry_def)
  have "rs = replicate (length as - 1) (Inr None) @ [Inr (Some (assembled_frame ?e ?pl))] \<and> map_of (sa_entries sa') pid = None"
  proof (cases rest rule: rev_cases)
    case Nil
    then have "{i0} = {..<n}" using all as(1) by simp
    then show ?thesis using first(2) run s1 as(1) Nil by auto
  next
    case (snoc mid la)
    obtain il fl tl where la: "la = (il, fl, tl)" by (cases la)
    have as': "as = (i0, f0, t0) # mid @ [(il, fl, tl)]" using as(1) snoc la by simp
    have il: "il \<notin> insert i0 (fst ` set mid)" and ins: "insert il (insert i0 (fst ` set mid)) = {..<n}"
      using last all by (auto simp: as' butlast_append)
    then have ne: "insert i0 (fst ` set mid) \<noteq> {..<n}" "{i0} \<noteq> {..<n}" by auto
    have c1: "r1 = Inr None" "collecting pid n p ?e t0 {i0} sa1" and ttl: "sa_ttl sa1 = sa_ttl sa"
      using first(1) [OF ne(2)] first(3) by auto
    obtain r2 sa2 where s2: "add_all sa1 (map snd mid) = (r2, sa2)" by (cases "add_all sa1 (map snd mid)")
    have mid: "in_time pid n p t0 (sa_ttl sa1) mid" using as(2) ttl by (auto simp: in_time_def as')
    have c2: "r2 = replicate (length mid) (Inr None)" "collecting pid n p ?e t0 ({i0} \<union> fst ` set mid) sa2" "sa_ttl sa2 = sa_ttl sa"
      using add_all_collecting [OF c1(2) mid _ s2] ne(1) ttl by auto
    obtain r3 sa3 where s3: "split_add sa2 fl tl = (r3, sa3)" by (cases "split_add sa2 fl tl")
    have pl: "part_of pid n p il fl" "t0 \<le> tl" "tl < t0 + sa_ttl sa2" using as(2) c2(3) by (auto simp: in_time_def as')
    have c3: "r3 = Inr (Some (assembled_frame ?e ?pl))" "map_of (sa_entries sa3) pid = None"
      using add_collecting(2) [OF c2(2) pl s3] il ins by auto
    have "rs = r1 # r2 @ [r3]" "sa' = sa3"
      using run by (simp_all add: as' s1 add_all_append s2 s3)
    then show ?thesis using c1 c2(1) c3 by (simp add: as')
  qed
  then show "\<exists>f. rs = replicate (length as - 1) (Inr None) @ [Inr (Some f)]
      \<and> fr_payload f = concat (map p [0..<n]) \<and> fr_header f = (fr_header f0)\<lparr>fh_is_split := False\<rparr>
      \<and> fr_ordering_index f = fr_ordering_index f0 \<and> fr_ordering_channel f = fr_ordering_channel f0
      \<and> fr_sequence_index f = fr_sequence_index f0" and "map_of (sa_entries sa') pid = None"
    using f by blast+
qed

text \<open>C8: the parts of a split payload, arriving in any order, with duplicates, all within the time to
  live, give back one frame when the last missing part arrives and nothing before that: the frame
  carries the parts joined in index order and the ordering of the first part to arrive, and the
  compound is forgotten.\<close>

theorem split_reassembly:
  assumes "assembler_ok sa" "n \<le> unat (sa_max_parts sa)" "map_of (sa_entries sa) pid = None"
      "length (sa_entries sa) < sa_max_concurrent sa"
    and "as = (i0, f0, t0) # rest" "in_time pid n p t0 (sa_ttl sa) as"
    and "fst ` set as = {..<n}" and "fst (last as) \<notin> fst ` set (butlast as)"
  shows "\<exists>f sa'. add_all sa (map snd as) = (replicate (length as - 1) (Inr None) @ [Inr (Some f)], sa')
      \<and> fr_payload f = concat (map p [0..<n]) \<and> fr_header f = (fr_header f0)\<lparr>fh_is_split := False\<rparr>
      \<and> fr_ordering_index f = fr_ordering_index f0 \<and> fr_ordering_channel f = fr_ordering_channel f0
      \<and> map_of (sa_entries sa') pid = None"
proof -
  obtain rs sa' where run: "add_all sa (map snd as) = (rs, sa')" by (cases "add_all sa (map snd as)")
  from add_all_reassembles [OF assms run] run show ?thesis by blast
qed

definition sample_part :: "nat \<Rightarrow> Frame" where
  "sample_part i =
     \<lparr>fr_header = \<lparr>fh_reliability = ReliableOrdered, fh_is_split = True, fh_needs_bas = False\<rparr>,
      fr_bit_length = 8, fr_reliable_index = Some (of_nat i), fr_sequence_index = None,
      fr_ordering_index = Some 4, fr_ordering_channel = Some 1,
      fr_split = Some \<lparr>si_part_count = of_nat 3, si_part_id = 7, si_part_index = of_nat i\<rparr>, fr_payload = [of_nat i]\<rparr>"

lemma assembler_new_fields:
  "sa_entries (assembler_new ttl mp mc) = []" "sa_ttl (assembler_new ttl mp mc) = (if ttl = 0 then secs 30 else ttl)"
  "sa_max_parts (assembler_new ttl mp mc) = max mp 1" "sa_max_concurrent (assembler_new ttl mp mc) = max mc 1"
  by (simp_all add: assembler_new_def)

theorem split_reassembly_witness:
  "\<exists>f sa'. add_all (assembler_new 0 16 4) [(sample_part 2, 100), (sample_part 0, 101), (sample_part 2, 101), (sample_part 1, 109)]
        = (replicate 3 (Inr None) @ [Inr (Some f)], sa') \<and> fr_payload f = [0, 1, 2]"
proof -
  let ?as = "[(2, sample_part 2, 100), (0, sample_part 0, 101), (2, sample_part 2, 101), (1, sample_part 1, 109)] :: (nat \<times> Frame \<times> Instant) list"
  have "\<exists>f sa'. add_all (assembler_new 0 16 4) (map snd ?as) = (replicate (length ?as - 1) (Inr None) @ [Inr (Some f)], sa')
      \<and> fr_payload f = concat (map (\<lambda>i. [of_nat i]) [0..<3]) \<and> fr_header f = (fr_header (sample_part 2))\<lparr>fh_is_split := False\<rparr>
      \<and> fr_ordering_index f = fr_ordering_index (sample_part 2) \<and> fr_ordering_channel f = fr_ordering_channel (sample_part 2)
      \<and> map_of (sa_entries sa') 7 = None"
    by (rule split_reassembly [where rest = "tl ?as"])
      (auto simp: assembler_new_ok in_time_def part_of_def sample_part_def assembler_new_fields secs_def)
  then show ?thesis by (auto simp: upt_rec numeral_eq_Suc)
qed

lemma add_all_ok: "assembler_ok sa \<Longrightarrow> assembler_ok (snd (add_all sa as))"
proof (induction as arbitrary: sa)
  case (Cons a as)
  obtain f t where a: "a = (f, t)" by (cases a)
  obtain r sa1 where "split_add sa f t = (r, sa1)" by (cases "split_add sa f t")
  with split_add_ok [OF Cons.prems this] Cons.IH [of sa1] show ?case by (simp add: a split_beta)
qed simp

text \<open>Whatever parts arrive, the assembler never holds more compounds than allowed at once, none with
  more parts than allowed, and for each of them the counter of received parts is the number of
  parts present.\<close>

theorem assembler_bounded:
  "assembler_ok (snd (add_all (assembler_new ttl max_parts max_concurrent) as))"
  by (simp add: add_all_ok assembler_new_ok)

end
