(* ===== verification/BinaryHeap.thy ===== *)
theory BinaryHeap
  imports Main "HOL-Library.Multiset"
begin

text \<open>
  \<^verbatim>\<open>std::collections::BinaryHeap\<close>, which the session keeps its outgoing frames in.  The heap is the
  array of the standard library's implementation, with its \<^verbatim>\<open>sift_up\<close> on a push and
  \<^verbatim>\<open>sift_down_to_bottom\<close> on a pop, so that ties are broken as the program breaks them.  Elements
  are compared by a key that the top minimises.  The locale \<open>priority_queue\<close> is the contract the
  session relies on.
\<close>

definition swap :: "nat \<Rightarrow> nat \<Rightarrow> 'a list \<Rightarrow> 'a list" where
  "swap i j xs = xs[i := xs ! j, j := xs ! i]"

definition par :: "nat \<Rightarrow> nat" where
  "par i = (i - 1) div 2"

function sift_up :: "('a \<Rightarrow> nat) \<Rightarrow> nat \<Rightarrow> 'a list \<Rightarrow> 'a list" where
  "sift_up k pos xs =
     (if pos = 0 then xs
      else if k (xs ! par pos) \<le> k (xs ! pos) then xs
      else sift_up k (par pos) (swap pos (par pos) xs))"
  by pat_completeness auto
termination by (relation "measure (\<lambda>(k, pos, xs). pos)") (auto simp: par_def)

lemma length_swap [simp]: "length (swap i j xs) = length xs"
  by (simp add: swap_def)

function sift_down_to_bottom :: "('a \<Rightarrow> nat) \<Rightarrow> nat \<Rightarrow> 'a list \<Rightarrow> 'a list \<times> nat" where
  "sift_down_to_bottom k pos xs =
     (let child = 2 * pos + 1
      in if child \<le> length xs - 2 then
           (let c = (if k (xs ! (child + 1)) \<le> k (xs ! child) then child + 1 else child)
            in sift_down_to_bottom k c (swap pos c xs))
         else if child + 1 = length xs then (swap pos child xs, child)
         else (xs, pos))"
  by pat_completeness auto
termination by (relation "measure (\<lambda>(k, pos, xs). length xs - pos)") (auto simp: Let_def split: if_splits)

declare sift_up.simps [simp del] sift_down_to_bottom.simps [simp del]

definition heap_push :: "('a \<Rightarrow> nat) \<Rightarrow> 'a \<Rightarrow> 'a list \<Rightarrow> 'a list" where
  "heap_push k x xs = sift_up k (length xs) (xs @ [x])"

definition heap_pop :: "('a \<Rightarrow> nat) \<Rightarrow> 'a list \<Rightarrow> ('a \<times> 'a list) option" where
  "heap_pop k xs =
     (if xs = [] then None
      else let item = last xs; rest = butlast xs
           in if rest = [] then Some (item, [])
              else let (ys, pos) = sift_down_to_bottom k 0 (rest[0 := item])
                   in Some (hd rest, sift_up k pos ys))"

lemma length_sift_up [simp]: "length (sift_up k pos xs) = length xs"
  by (induction k pos xs rule: sift_up.induct) (subst sift_up.simps, simp)

lemma length_sift_down: "length (fst (sift_down_to_bottom k pos xs)) = length xs"
  by (induction k pos xs rule: sift_down_to_bottom.induct) (subst sift_down_to_bottom.simps, simp add: Let_def)

text \<open>A pop shortens the array, heap or not: loops that pop until the end terminate.\<close>

lemma heap_pop_shorter: "heap_pop k xs = Some (x, xs') \<Longrightarrow> length xs = Suc (length xs')"
  using length_sift_down [of k 0 "(butlast xs)[0 := last xs]"]
  by (cases xs rule: rev_cases) (auto simp: heap_pop_def Let_def split: if_splits prod.splits)

section \<open>The contract\<close>

locale priority_queue =
  fixes ok :: "'q \<Rightarrow> bool" and elems :: "'q \<Rightarrow> 'a multiset" and key :: "'a \<Rightarrow> nat"
    and empty :: 'q and push :: "'a \<Rightarrow> 'q \<Rightarrow> 'q" and pop :: "'q \<Rightarrow> ('a \<times> 'q) option"
  assumes ok_empty: "ok empty" and elems_empty: "elems empty = {#}"
    and ok_push: "ok q \<Longrightarrow> ok (push x q)" and elems_push: "elems (push x q) = add_mset x (elems q)"
    and pop_None: "pop q = None \<longleftrightarrow> elems q = {#}"
    and ok_pop: "ok q \<Longrightarrow> pop q = Some (x, q') \<Longrightarrow> ok q'"
    and elems_pop: "ok q \<Longrightarrow> pop q = Some (x, q') \<Longrightarrow> elems q = add_mset x (elems q')"
    and pop_least: "ok q \<Longrightarrow> pop q = Some (x, q') \<Longrightarrow> y \<in># elems q' \<Longrightarrow> key x \<le> key y"
begin

lemma pop_size: "ok q \<Longrightarrow> pop q = Some (x, q') \<Longrightarrow> size (elems q') < size (elems q)"
  by (simp add: elems_pop)

lemma elems_push_all: "elems (fold push xs q) = mset xs + elems q"
  by (induction xs arbitrary: q) (simp_all add: elems_push)

lemma ok_push_all: "ok q \<Longrightarrow> ok (fold push xs q)"
  by (induction xs arbitrary: q) (simp_all add: ok_push)

end

section \<open>The array heap keeps it\<close>

definition heap_ok :: "('a \<Rightarrow> nat) \<Rightarrow> 'a list \<Rightarrow> bool" where
  "heap_ok k xs \<longleftrightarrow> (\<forall>i < length xs. 0 < i \<longrightarrow> k (xs ! par i) \<le> k (xs ! i))"

text \<open>Heap order everywhere but between \<open>pos\<close> and its parent; the children respect the grandparent.\<close>

definition up_inv :: "('a \<Rightarrow> nat) \<Rightarrow> nat \<Rightarrow> 'a list \<Rightarrow> bool" where
  "up_inv k pos xs \<longleftrightarrow>
     (\<forall>i < length xs. 0 < i \<longrightarrow> i \<noteq> pos \<longrightarrow> k (xs ! par i) \<le> k (xs ! i)) \<and>
     (\<forall>i < length xs. 0 < i \<longrightarrow> 0 < pos \<longrightarrow> par i = pos \<longrightarrow> k (xs ! par pos) \<le> k (xs ! i))"

text \<open>Heap order everywhere but around \<open>pos\<close>.\<close>

definition down_inv :: "('a \<Rightarrow> nat) \<Rightarrow> nat \<Rightarrow> 'a list \<Rightarrow> bool" where
  "down_inv k pos xs \<longleftrightarrow>
     (\<forall>i < length xs. 0 < i \<longrightarrow> i \<noteq> pos \<longrightarrow> par i \<noteq> pos \<longrightarrow> k (xs ! par i) \<le> k (xs ! i)) \<and>
     (\<forall>i < length xs. 0 < i \<longrightarrow> 0 < pos \<longrightarrow> par i = pos \<longrightarrow> k (xs ! par pos) \<le> k (xs ! i))"

lemma par_less: "0 < i \<Longrightarrow> par i < i"
  by (auto simp: par_def)

lemma par_eq_iff: "0 < i \<Longrightarrow> par i = p \<longleftrightarrow> i = 2 * p + 1 \<or> i = 2 * p + 2"
  by (auto simp: par_def)

lemma nth_swap:
  "i < length xs \<Longrightarrow> j < length xs \<Longrightarrow> m < length xs \<Longrightarrow>
     swap i j xs ! m = (if m = i then xs ! j else if m = j then xs ! i else xs ! m)"
  by (auto simp: swap_def nth_list_update)

lemma mset_swap_eq [simp]: "i < length xs \<Longrightarrow> j < length xs \<Longrightarrow> mset (swap i j xs) = mset xs"
  by (simp add: swap_def mset_swap)

lemma mset_sift_up: "pos < length xs \<Longrightarrow> mset (sift_up k pos xs) = mset xs"
proof (induction k pos xs rule: sift_up.induct)
  case (1 k pos xs)
  then show ?case using par_less [of pos] by (subst sift_up.simps) auto
qed

lemma sift_up_heap: "pos < length xs \<Longrightarrow> up_inv k pos xs \<Longrightarrow> heap_ok k (sift_up k pos xs)"
proof (induction k pos xs rule: sift_up.induct)
  case (1 k pos xs)
  note inv = 1(3) [unfolded up_inv_def]
  show ?case
  proof (cases "pos = 0 \<or> k (xs ! par pos) \<le> k (xs ! pos)")
    case True
    then have "heap_ok k xs" using inv by (auto simp: heap_ok_def)
    with True show ?thesis by (subst sift_up.simps) auto
  next
    case False
    let ?p = "par pos" and ?ys = "swap pos (par pos) xs"
    have p: "?p < pos" "?p < length xs" using False 1(2) par_less [of pos] by auto
    have nth: "?ys ! m = (if m = pos then xs ! ?p else if m = ?p then xs ! pos else xs ! m)"
      if "m < length xs" for m using that p 1(2) by (simp add: nth_swap)
    have "up_inv k ?p ?ys"
      unfolding up_inv_def
    proof (intro conjI allI impI)
      fix i
      assume i: "i < length ?ys" "0 < i" "i \<noteq> ?p"
      have "par i < length xs" "par i < i" using i par_less [of i] by auto
      then show "k (?ys ! par i) \<le> k (?ys ! i)"
        using i False inv nth [of i] nth [of "par i"] by (auto split: if_splits)
    next
      fix i
      assume i: "i < length ?ys" "0 < i" "0 < ?p" "par i = ?p"
      have "par ?p < ?p" using i(3) by (rule par_less)
      then have "?ys ! par ?p = xs ! par ?p" using nth [of "par ?p"] p by auto
      moreover have "k (xs ! par ?p) \<le> k (xs ! ?p)" using inv i(3) p by auto
      moreover have "k (xs ! ?p) \<le> k (?ys ! i)"
      proof (cases "i = pos")
        case True
        then show ?thesis using nth [of i] i(1) by simp
      next
        case False
        moreover have "i < length xs" using i(1) by simp
        ultimately have "k (xs ! par i) \<le> k (xs ! i)" using inv i(2) by blast
        then show ?thesis using False i nth [of i] par_less [of i] by auto
      qed
      ultimately show "k (?ys ! par ?p) \<le> k (?ys ! i)" by simp
    qed
    then show ?thesis using 1(1) False p by (subst sift_up.simps) auto
  qed
qed

lemma down_inv_move:
  assumes inv: "down_inv k pos xs" and c: "c < length xs" "0 < c" "par c = pos"
    and least: "\<And>i. i < length xs \<Longrightarrow> 0 < i \<Longrightarrow> par i = pos \<Longrightarrow> k (xs ! c) \<le> k (xs ! i)"
  shows "down_inv k c (swap pos c xs)"
  unfolding down_inv_def
proof (intro conjI allI impI)
  let ?ys = "swap pos c xs"
  note invD = inv [unfolded down_inv_def]
  have pos: "pos < c" using c par_less [of c] by auto
  have nth: "?ys ! m = (if m = pos then xs ! c else if m = c then xs ! pos else xs ! m)"
    if "m < length xs" for m using that pos c by (simp add: nth_swap)
  {
    fix i
    assume i: "i < length ?ys" "0 < i" "i \<noteq> c" "par i \<noteq> c"
    have "par i < i" using i(2) by (rule par_less)
    then show "k (?ys ! par i) \<le> k (?ys ! i)"
      using i invD c least [of i] nth [of i] nth [of "par i"] by (cases "i = pos") auto
  next
    fix i
    assume i: "i < length ?ys" "0 < i" "0 < c" "par i = c"
    have "par i < i" using i(2) by (rule par_less)
    then show "k (?ys ! par c) \<le> k (?ys ! i)"
      using i invD c pos nth [of i] nth [of "par c"] by auto
  }
qed

lemma down_inv_leaf: "down_inv k pos xs \<Longrightarrow> length xs \<le> 2 * pos + 1 \<Longrightarrow> up_inv k pos xs"
proof -
  assume "length xs \<le> 2 * pos + 1"
  then have "par i \<noteq> pos" if "i < length xs" "0 < i" for i using that par_eq_iff [of i pos] by auto
  then show "down_inv k pos xs \<Longrightarrow> up_inv k pos xs" by (simp add: up_inv_def down_inv_def)
qed

lemma sift_down_spec:
  "pos < length xs \<Longrightarrow> down_inv k pos xs \<Longrightarrow> sift_down_to_bottom k pos xs = (ys, p) \<Longrightarrow>
     up_inv k p ys \<and> p < length ys \<and> length ys = length xs \<and> mset ys = mset xs"
proof (induction k pos xs arbitrary: ys p rule: sift_down_to_bottom.induct)
  case (1 k pos xs)
  let ?child = "2 * pos + 1"
  have child: "par i = pos \<longleftrightarrow> i = ?child \<or> i = ?child + 1" if "0 < i" for i
    using par_eq_iff [OF that] by simp
  note step = 1(4) [unfolded sift_down_to_bottom.simps [of k pos xs] Let_def]
  consider (two) "?child \<le> length xs - 2" | (one) "\<not> ?child \<le> length xs - 2" "?child + 1 = length xs"
    | (none) "length xs \<le> ?child" using 1(2) by linarith
  then show ?case
  proof cases
    case two
    define c where "c = (if k (xs ! (?child + 1)) \<le> k (xs ! ?child) then ?child + 1 else ?child)"
    have c: "c < length xs" "0 < c" "par c = pos" using two child [of c] by (auto simp: c_def)
    have "down_inv k c (swap pos c xs)"
      using c child by (intro down_inv_move [OF 1(3)]) (auto simp: c_def)
    moreover have "sift_down_to_bottom k c (swap pos c xs) = (ys, p)" using step two by (simp add: c_def)
    ultimately show ?thesis
      using 1(1) [OF refl two c_def, of ys p] c 1(2) by simp
  next
    case one
    then have ys: "ys = swap pos ?child xs" "p = ?child" using step by auto
    have c: "?child < length xs" using one by simp
    have "down_inv k ?child (swap pos ?child xs)"
      using c child one by (intro down_inv_move [OF 1(3)]) auto
    then have "up_inv k ?child (swap pos ?child xs)" using one by (intro down_inv_leaf) simp_all
    then show ?thesis using c 1(2) by (simp add: ys)
  next
    case none
    then have ys: "ys = xs" "p = pos" using step 1(2) by (auto split: if_splits)
    then show ?thesis using none 1(2,3) by (simp add: down_inv_leaf)
  qed
qed

lemma heap_ok_root:
  assumes "heap_ok k xs" and "i < length xs"
  shows "k (xs ! 0) \<le> k (xs ! i)"
  using assms(2)
proof (induction i rule: less_induct)
  case (less i)
  then show ?case
    using assms(1) par_less [of i] by (cases "i = 0") (auto simp: heap_ok_def intro: le_trans)
qed

lemma heap_push_ok: "heap_ok k xs \<Longrightarrow> heap_ok k (heap_push k x xs)"
  unfolding heap_push_def
proof (rule sift_up_heap)
  assume h: "heap_ok k xs"
  have "par i < length xs" if "i < length xs" "0 < i" for i using that par_less [of i] by simp
  then show "up_inv k (length xs) (xs @ [x])"
    using h by (auto simp: up_inv_def heap_ok_def nth_append par_eq_iff less_Suc_eq)
qed simp

lemma heap_push_mset: "mset (heap_push k x xs) = add_mset x (mset xs)"
  by (simp add: heap_push_def mset_sift_up)

lemma heap_push_length [simp]: "length (heap_push k x xs) = Suc (length xs)"
  by (metis heap_push_mset size_add_mset size_mset)

lemma heap_ok_prefix: "heap_ok k (xs @ ys) \<Longrightarrow> heap_ok k xs"
  unfolding heap_ok_def
proof (intro allI impI)
  fix i
  assume h: "\<forall>i < length (xs @ ys). 0 < i \<longrightarrow> k ((xs @ ys) ! par i) \<le> k ((xs @ ys) ! i)"
    and i: "i < length xs" "0 < i"
  then have "par i < length xs" using par_less [of i] by simp
  with h i show "k (xs ! par i) \<le> k (xs ! i)" by (auto simp: nth_append dest!: spec [of _ i])
qed

lemma heap_pop_spec:
  assumes pop: "heap_pop k xs = Some (x, xs')" and h: "heap_ok k xs"
  shows "x = hd xs" and "mset xs = add_mset x (mset xs')" and "heap_ok k xs'"
proof -
  have "xs \<noteq> []" using pop by (auto simp: heap_pop_def)
  then obtain rest item where xs: "xs = rest @ [item]" by (metis append_butlast_last_id)
  have "x = hd xs \<and> mset xs = add_mset x (mset xs') \<and> heap_ok k xs'"
  proof (cases rest)
    case Nil
    then show ?thesis using pop by (auto simp: heap_pop_def xs heap_ok_def)
  next
    case (Cons r rs)
    obtain ys p where d: "sift_down_to_bottom k 0 (item # rs) = (ys, p)" by fastforce
    have x: "x = r" "xs' = sift_up k p ys"
      using pop d by (auto simp: heap_pop_def xs Cons Let_def)
    have "heap_ok k (r # rs)" using h heap_ok_prefix [of k "r # rs"] by (simp add: xs Cons)
    then have "down_inv k 0 (item # rs)"
      by (auto simp: down_inv_def heap_ok_def nth_Cons')
    from sift_down_spec [OF _ this d] have ys: "up_inv k p ys" "p < length ys" "mset ys = mset (item # rs)"
      by auto
    then show ?thesis
      using x sift_up_heap [OF ys(2,1)] mset_sift_up [OF ys(2), of k] by (simp add: xs Cons)
  qed
  then show "x = hd xs" and "mset xs = add_mset x (mset xs')" and "heap_ok k xs'" by auto
qed

lemma heap_pop_None: "heap_pop k xs = None \<longleftrightarrow> xs = []"
  by (auto simp: heap_pop_def Let_def split: prod.splits)

lemma heap_pop_least:
  assumes "heap_pop k xs = Some (x, xs')" and "heap_ok k xs" and "y \<in># mset xs'"
  shows "k x \<le> k y"
proof -
  have "y \<in> set xs" using heap_pop_spec(2) [OF assms(1,2)] assms(3) by (metis set_mset_mset union_iff add_mset_add_single)
  then obtain i where "i < length xs" "y = xs ! i" by (metis in_set_conv_nth)
  moreover have "x = xs ! 0" using heap_pop_spec(1) [OF assms(1,2)] \<open>y \<in> set xs\<close> by (cases xs) auto
  ultimately show ?thesis using heap_ok_root [OF assms(2)] by simp
qed

interpretation binary_heap: priority_queue "heap_ok k" mset k "[]" "heap_push k" "heap_pop k" for k
  by unfold_locales
    (auto simp: heap_ok_def [of _ "[]"] heap_push_mset heap_pop_None heap_push_ok heap_pop_least
      dest: heap_pop_spec)

end
