(* ===== verification/SessionState.thy ===== *)
theory SessionState
  imports Main "HOL-Library.Sublist"
begin

text \<open>
  \<^verbatim>\<open>src/session/state.rs\<close> and \<^verbatim>\<open>src/session/priority.rs\<close>: the connection states, the transitions the
  session allows between them, and the send priorities.  The step relation \<open>transition\<close> and its
  reachability are inductive; the lemmas show that a session moves through the handshake one
  state at a time and never back.
\<close>

datatype SessionState =
    Offline | Req1Recv | Reply1Sent | Req2Recv | Reply2Sent | ConnReqRecv | ConnReqAcceptedSent
  | NewIncomingRecv | Connected | Closing | Closed

definition can_transition_to :: "SessionState \<Rightarrow> SessionState \<Rightarrow> bool" where
  "can_transition_to s t =
     (if s = t then True
      else (s, t) \<in> {(Offline, Req1Recv), (Req1Recv, Reply1Sent), (Reply1Sent, Req2Recv),
                     (Req2Recv, Reply2Sent), (Reply2Sent, ConnReqRecv), (ConnReqRecv, ConnReqAcceptedSent),
                     (ConnReqAcceptedSent, NewIncomingRecv), (NewIncomingRecv, Connected),
                     (Connected, Closing), (Closing, Closed)})"

datatype RakPriority = Immediate | High | Normal | Low

fun as_index :: "RakPriority \<Rightarrow> nat" where
  "as_index Immediate = 0"
| "as_index High = 1"
| "as_index Normal = 2"
| "as_index Low = 3"

lemma as_index_less: "as_index p < 4"
  by (cases p) simp_all

instantiation RakPriority :: linorder
begin

definition less_eq_RakPriority :: "RakPriority \<Rightarrow> RakPriority \<Rightarrow> bool" where
  "less_eq_RakPriority p q \<longleftrightarrow> as_index p \<le> as_index q"

definition less_RakPriority :: "RakPriority \<Rightarrow> RakPriority \<Rightarrow> bool" where
  "less_RakPriority p q \<longleftrightarrow> as_index p < as_index q"

instance
proof
  fix p q :: RakPriority
  show "p \<le> q \<Longrightarrow> q \<le> p \<Longrightarrow> p = q"
    by (cases p; cases q) (simp_all add: less_eq_RakPriority_def)
qed (auto simp: less_eq_RakPriority_def less_RakPriority_def)

end

section \<open>Runs\<close>

text \<open>\<^verbatim>\<open>transition_to\<close> takes a step when it is allowed and otherwise leaves the state alone.\<close>

definition try_transition :: "SessionState \<Rightarrow> SessionState \<Rightarrow> SessionState" where
  "try_transition s t = (if can_transition_to s t then t else s)"

inductive transition :: "SessionState \<Rightarrow> SessionState \<Rightarrow> bool" where
  step: "can_transition_to s t \<Longrightarrow> transition s t"

inductive reachable :: "SessionState \<Rightarrow> SessionState \<Rightarrow> bool" where
  stay: "reachable s s"
| trans: "reachable s t \<Longrightarrow> transition t u \<Longrightarrow> reachable s u"

inductive_cases transitionE: "transition s t"
inductive_simps transition_iff: "transition s t"

text \<open>The states in the order of the handshake and the shutdown.\<close>

fun rank :: "SessionState \<Rightarrow> nat" where
  "rank Offline = 0"
| "rank Req1Recv = 1"
| "rank Reply1Sent = 2"
| "rank Req2Recv = 3"
| "rank Reply2Sent = 4"
| "rank ConnReqRecv = 5"
| "rank ConnReqAcceptedSent = 6"
| "rank NewIncomingRecv = 7"
| "rank Connected = 8"
| "rank Closing = 9"
| "rank Closed = 10"

definition handshake_order :: "SessionState list" where
  "handshake_order =
     [Req1Recv, Reply1Sent, Req2Recv, Reply2Sent, ConnReqRecv, ConnReqAcceptedSent,
      NewIncomingRecv, Connected, Closing, Closed]"

lemma can_transition_rank: "can_transition_to s t \<longleftrightarrow> rank t = rank s \<or> rank t = Suc (rank s)"
  by (cases s; cases t) (simp_all add: can_transition_to_def)

lemma rank_inject: "rank s = rank t \<longleftrightarrow> s = t"
  by (cases s; cases t) simp_all

lemma reachable_rank: "reachable s t \<Longrightarrow> rank s \<le> rank t"
  by (induction rule: reachable.induct) (auto simp: transition_iff can_transition_rank)

lemma handshake_order_nth: "rank s = Suc n \<Longrightarrow> handshake_order ! n = s \<and> n < length handshake_order"
  by (cases s) (auto simp: handshake_order_def)

lemma rank_pred: "rank t = Suc n \<Longrightarrow> \<exists>u. rank u = n"
  by (cases t) (auto intro: exI [of _ Offline] exI [of _ Req1Recv] exI [of _ Reply1Sent]
      exI [of _ Req2Recv] exI [of _ Reply2Sent] exI [of _ ConnReqRecv] exI [of _ ConnReqAcceptedSent]
      exI [of _ NewIncomingRecv] exI [of _ Connected] exI [of _ Closing])

lemma reachable_iff: "reachable s t \<longleftrightarrow> rank s \<le> rank t"
proof
  show "rank s \<le> rank t \<Longrightarrow> reachable s t"
  proof (induction "rank t - rank s" arbitrary: t)
    case 0
    then have "t = s" using rank_inject [of t s] by simp
    then show ?case by (simp add: reachable.stay)
  next
    case (Suc n)
    then have "rank t = Suc (rank s + n)" by simp
    then obtain u where u: "rank u = rank s + n" using rank_pred by blast
    then have "reachable s u" using Suc(1) [of u] by simp
    moreover have "transition u t"
      using u Suc(2) by (auto simp: transition_iff can_transition_rank)
    ultimately show ?case by (rule reachable.trans)
  qed
qed (rule reachable_rank)

text \<open>A run of requested transitions.\<close>

definition run_transitions :: "SessionState \<Rightarrow> SessionState list \<Rightarrow> SessionState" where
  "run_transitions s nexts = foldl try_transition s nexts"

lemma run_transitions_visits:
  "rank s \<le> rank (run_transitions s nexts) \<and>
   subseq (take (rank (run_transitions s nexts) - rank s) (drop (rank s) handshake_order)) nexts"
proof (induction nexts arbitrary: s)
  case Nil
  then show ?case by (simp add: run_transitions_def)
next
  case (Cons t nexts)
  show ?case
  proof (cases "can_transition_to s t \<and> t \<noteq> s")
    case True
    then have r: "rank t = Suc (rank s)" using can_transition_rank [of s t] rank_inject [of t s] by auto
    have d: "drop (rank s) handshake_order = t # drop (rank t) handshake_order"
      using handshake_order_nth [OF r] by (simp add: r Cons_nth_drop_Suc [symmetric])
    have run: "run_transitions s (t # nexts) = run_transitions t nexts"
      using True by (simp add: run_transitions_def try_transition_def)
    show ?thesis
    proof (cases "rank (run_transitions t nexts) - rank s")
      case 0
      then show ?thesis using Cons [of t] r by (simp add: run)
    next
      case (Suc n)
      then have "rank (run_transitions t nexts) - Suc (rank s) = n" by simp
      then show ?thesis using Suc Cons [of t] r by (auto simp: run d)
    qed
  next
    case False
    then have "run_transitions s (t # nexts) = run_transitions s nexts"
      by (auto simp: run_transitions_def try_transition_def)
    then show ?thesis using Cons [of s] by auto
  qed
qed

end
