(* ===== verification/Session.thy ===== *)
theory Session
  imports AckQueue ReliableTracker OrderingChannels SplitAssembler BinaryHeap SessionState Tunables
begin

text \<open>
  \<^verbatim>\<open>src/session/mod.rs\<close>, lines 35 to 445: the session's record, its construction from the tunables and
  the operations that only read or set fields.

  Floating-point state is real-valued.  \<open>rnd\<close> stands for the rounding of an IEEE 754 operation to a
  representable number: it is an argument of every operation that computes, and the lemmas
  hold whatever it is.  A session is only built from finite parameters, so NaN and the infinities
  do not occur in its state.  Counters that the code updates with \<^verbatim>\<open>saturating_add\<close> saturate.
\<close>

section \<open>Floating-point operations\<close>

type_synonym rounding = "real \<Rightarrow> real"

definition f64_clamp :: "real \<Rightarrow> real \<Rightarrow> real \<Rightarrow> real" where
  "f64_clamp lo hi x = (if x < lo then lo else if x > hi then hi else x)"

definition as_secs_f64 :: "rounding \<Rightarrow> Duration \<Rightarrow> real" where
  "as_secs_f64 rnd d = rnd (rnd (real (d div 1000000000)) + rnd (real (d mod 1000000000) / 1000000000))"

text \<open>\<^verbatim>\<open>Duration::from_secs_f64\<close>: to the nearest nanosecond, ties to even.\<close>

definition from_secs_f64 :: "real \<Rightarrow> Duration" where
  "from_secs_f64 x =
     (let y = x * 1000000000; f = \<lfloor>y\<rfloor>; r = y - of_int f
      in nat (if r < 1 / 2 then f else if r > 1 / 2 then f + 1 else if even f then f else f + 1))"

lemma as_secs_f64_exact: "as_secs_f64 id d = real d / 1000000000"
proof -
  have "real d = real (d div 1000000000) * 1000000000 + real (d mod 1000000000)"
    by (metis div_mult_mod_eq of_nat_add of_nat_mult of_nat_numeral)
  then show ?thesis by (simp add: as_secs_f64_def field_simps)
qed

lemma f64_clamp_bounds: "lo \<le> hi \<Longrightarrow> lo \<le> f64_clamp lo hi x" "lo \<le> hi \<Longrightarrow> f64_clamp lo hi x \<le> hi"
  by (simp_all add: f64_clamp_def)

lemma f64_clamp_id: "lo \<le> x \<Longrightarrow> x \<le> hi \<Longrightarrow> f64_clamp lo hi x = x"
  by (simp add: f64_clamp_def)

section \<open>Data\<close>

record TrackedDatagram =
  td_datagram :: Datagram
  td_send_time :: Instant
  td_next_send :: Instant
  td_retries :: nat
  td_nack_resend_pending :: bool
  td_resendable :: bool
  td_receipt_ids :: "u64 list"

record ReceiptProgress =
  rp_acked :: usize
  rp_nacked :: usize
  rp_acked_receipt_ids :: "u64 list"

definition receipt_progress_default :: ReceiptProgress where
  "receipt_progress_default = \<lparr>rp_acked = 0, rp_nacked = 0, rp_acked_receipt_ids = []\<rparr>"

datatype QueuePayloadResult = Enqueued usize | Dropped | Deferred | DisconnectRequested

record SessionMetrics =
  m_ingress_datagrams :: nat
  m_ingress_frames :: nat
  m_duplicate_reliable_drops :: nat
  m_ordered_stale_drops :: nat
  m_ordered_buffer_full_drops :: nat
  m_sequenced_stale_drops :: nat
  m_sequenced_missing_index_drops :: nat
  m_reliable_sent_datagrams :: nat
  m_resent_datagrams :: nat
  m_ack_out_datagrams :: nat
  m_nack_out_datagrams :: nat
  m_acked_datagrams :: nat
  m_nacked_datagrams :: nat
  m_split_ttl_drops :: nat
  m_outgoing_queue_drops :: nat
  m_outgoing_queue_defers :: nat
  m_outgoing_queue_disconnects :: nat
  m_backpressure_delays :: nat
  m_backpressure_drops :: nat
  m_backpressure_disconnects :: nat

definition metrics_default :: SessionMetrics where
  "metrics_default =
     \<lparr>m_ingress_datagrams = 0, m_ingress_frames = 0, m_duplicate_reliable_drops = 0,
      m_ordered_stale_drops = 0, m_ordered_buffer_full_drops = 0, m_sequenced_stale_drops = 0,
      m_sequenced_missing_index_drops = 0, m_reliable_sent_datagrams = 0, m_resent_datagrams = 0,
      m_ack_out_datagrams = 0, m_nack_out_datagrams = 0, m_acked_datagrams = 0, m_nacked_datagrams = 0,
      m_split_ttl_drops = 0, m_outgoing_queue_drops = 0, m_outgoing_queue_defers = 0,
      m_outgoing_queue_disconnects = 0, m_backpressure_delays = 0, m_backpressure_drops = 0,
      m_backpressure_disconnects = 0\<rparr>"

record QueuedFrame =
  qf_weight :: nat
  qf_encoded_size :: usize
  qf_is_reliable :: bool
  qf_priority :: RakPriority
  qf_receipt_id :: "u64 option"
  qf_frame :: Frame

datatype BackpressureAction = BpAllow | BpDrop | BpDefer | BpDisconnect

text \<open>\<^verbatim>\<open>impl Ord for QueuedFrame\<close> compares the weights in reverse, so the heap's greatest item is
  the frame of least weight: the key of the heap is the weight.\<close>

definition qf_cmp :: "QueuedFrame \<Rightarrow> QueuedFrame \<Rightarrow> Ordering" where
  "qf_cmp a b = ord_cmp (qf_weight b) (qf_weight a)"

record Session =
  ss_state :: SessionState
  ss_mtu :: usize
  ss_last_activity :: Instant
  ss_last_keepalive_sent :: Instant
  ss_datagram_read_index :: Sequence24
  ss_datagram_write_index :: Sequence24
  ss_reliable_write_index :: Sequence24
  ss_split_write_index :: u16
  ss_ordering_write_index :: "Sequence24 list"
  ss_sequencing_write_index :: "Sequence24 list"
  ss_reliable_tracker :: ReliableTracker
  ss_split_assembler :: SplitAssembler
  ss_ordering :: OrderingChannels
  ss_outgoing_heap :: "QueuedFrame list"
  ss_outgoing_next_weights :: "nat list"
  ss_last_min_weight :: nat
  ss_outgoing_acks :: AckQueue
  ss_outgoing_nacks :: AckQueue
  ss_ack_flush_interval :: Duration
  ss_nack_flush_interval :: Duration
  ss_ack_max_ranges_per_datagram :: usize
  ss_nack_max_ranges_per_datagram :: usize
  ss_ack_nack_priority :: AckNackPriority
  ss_next_ack_flush_at :: Instant
  ss_next_nack_flush_at :: Instant
  ss_incoming_acks :: "SequenceRange list"
  ss_incoming_nacks :: "SequenceRange list"
  ss_sent_datagrams :: "(Sequence24, TrackedDatagram) btree"
  ss_receipt_tracking :: "(u64 \<times> usize) list"
  ss_resend_rto :: Duration
  ss_min_resend_rto :: Duration
  ss_max_resend_rto :: Duration
  ss_srtt_ms :: "real option"
  ss_rttvar_ms :: real
  ss_congestion_window_packets :: real
  ss_min_congestion_window_packets :: real
  ss_max_congestion_window_packets :: real
  ss_slow_start_threshold_packets :: real
  ss_congestion_additive_gain :: real
  ss_multiplicative_decrease_nack :: real
  ss_multiplicative_decrease_timeout :: real
  ss_high_rtt_threshold_ms :: real
  ss_high_rtt_additive_scale :: real
  ss_nack_loss_backoff_cooldown :: Duration
  ss_next_nack_loss_backoff :: Instant
  ss_pacing_enabled :: bool
  ss_pacing_gain :: real
  ss_pacing_min_rate_bytes_per_sec :: real
  ss_pacing_max_rate_bytes_per_sec :: real
  ss_pacing_budget_max_bytes :: real
  ss_pacing_budget_bytes :: real
  ss_pacing_rate_bytes_per_sec :: real
  ss_last_pacing_update :: Instant
  ss_outgoing_queued_bytes :: usize
  ss_outgoing_queue_max_frames :: usize
  ss_outgoing_queue_max_bytes :: usize
  ss_outgoing_queue_soft_ratio :: real
  ss_backpressure_mode :: BackpressureMode
  ss_zeroize_dropped_payloads :: bool
  ss_disconnect_requested_by_backpressure :: bool
  ss_metrics :: SessionMetrics

text \<open>\<^verbatim>\<open>self.metrics.c = self.metrics.c.saturating_add(1)\<close>\<close>

abbreviation bump :: "((nat \<Rightarrow> nat) \<Rightarrow> SessionMetrics \<Rightarrow> SessionMetrics) \<Rightarrow> Session \<Rightarrow> Session" where
  "bump upd s \<equiv> s\<lparr>ss_metrics := upd (\<lambda>n. sat_add n 1) (ss_metrics s)\<rparr>"

section \<open>Construction\<close>

text \<open>\<open>(1 << level) * level + level\<close>, the initial weight of a priority level.\<close>

definition level_weight :: "nat \<Rightarrow> nat" where
  "level_weight level = 2 ^ level * level + level"

fun f_real :: "f64 \<Rightarrow> real option" where
  "f_real (Fin r) = Some r"
| "f_real _ = None"

text \<open>
  The parameters of a session as reals.  \<open>None\<close> is a parameter that is not finite, or a pair of
  bounds on which \<^verbatim>\<open>Duration::clamp\<close> panics.
\<close>

record RealParams =
  rp_init_cwnd :: real
  rp_min_cwnd :: real
  rp_max_cwnd :: real
  rp_ssthresh :: real
  rp_gain :: real
  rp_dec_nack :: real
  rp_dec_timeout :: real
  rp_rtt_threshold :: real
  rp_rtt_scale :: real
  rp_pacing_gain :: real
  rp_pacing_min :: real
  rp_pacing_max :: real
  rp_soft_ratio :: real

definition real_params :: "SessionTunables \<Rightarrow> RealParams option" where
  "real_params t =
     (let cg = resolved_congestion_settings t
      in case (f_real (cg_initial_congestion_window cg), f_real (cg_min_congestion_window cg),
               f_real (cg_max_congestion_window cg), f_real (cg_slow_start_threshold cg),
               f_real (cg_additive_gain cg), f_real (cg_multiplicative_decrease_nack cg),
               f_real (cg_multiplicative_decrease_timeout cg), f_real (cg_high_rtt_threshold_ms cg),
               f_real (cg_high_rtt_additive_scale cg), f_real (tun_pacing_gain t),
               f_real (tun_pacing_min_rate_bytes_per_sec t), f_real (tun_pacing_max_rate_bytes_per_sec t),
               f_real (tun_outgoing_queue_soft_ratio t)) of
           (Some ic, Some mn, Some mx, Some ss, Some ga, Some dn, Some dt, Some ht, Some hs,
            Some pg, Some pmin, Some pmax, Some sr) \<Rightarrow>
             if cg_min_resend_rto cg \<le> cg_max_resend_rto cg
             then Some \<lparr>rp_init_cwnd = ic, rp_min_cwnd = mn, rp_max_cwnd = mx, rp_ssthresh = ss, rp_gain = ga,
                        rp_dec_nack = dn, rp_dec_timeout = dt, rp_rtt_threshold = ht, rp_rtt_scale = hs,
                        rp_pacing_gain = pg, rp_pacing_min = pmin, rp_pacing_max = pmax, rp_soft_ratio = sr\<rparr>
             else None
         | _ \<Rightarrow> None)"

definition session_init :: "rounding \<Rightarrow> Instant \<Rightarrow> usize \<Rightarrow> SessionTunables \<Rightarrow> RealParams \<Rightarrow> Session" where
  "session_init rnd now mtu t p =
     (let cg = resolved_congestion_settings t;
          min_cwnd = max (rp_min_cwnd p) 1;
          max_cwnd = max (rp_max_cwnd p) min_cwnd;
          initial_cwnd = max (f64_clamp min_cwnd max_cwnd (rp_init_cwnd p)) 1;
          slow_start_threshold = f64_clamp min_cwnd max_cwnd (rp_ssthresh p);
          pacing_min_rate = max (rp_pacing_min p) 1;
          pacing_max_rate = max (rp_pacing_max p) pacing_min_rate;
          pacing_budget_max = rnd (real (max (tun_pacing_max_burst_bytes t) 1));
          initial_pacing_budget = (if tun_pacing_start_full t then pacing_budget_max else 0);
          af = resolved_ack_nack_flush_settings t
      in \<lparr>ss_state = Offline,
          ss_mtu = mtu,
          ss_last_activity = now,
          ss_last_keepalive_sent = now,
          ss_datagram_read_index = seq_new 0,
          ss_datagram_write_index = seq_new 0,
          ss_reliable_write_index = seq_new 0,
          ss_split_write_index = 0,
          ss_ordering_write_index = replicate 16 (seq_new 0),
          ss_sequencing_write_index = replicate 16 (seq_new 0),
          ss_reliable_tracker = tracker_new (tun_reliable_window t),
          ss_split_assembler = assembler_new (tun_split_ttl t) (tun_max_split_parts t) (tun_max_concurrent_splits t),
          ss_ordering = channels_new (tun_max_ordering_channels t) (tun_max_ordered_pending_per_channel t) (tun_max_order_gap t),
          ss_outgoing_heap = [],
          ss_outgoing_next_weights = map level_weight [0..<4],
          ss_last_min_weight = 0,
          ss_outgoing_acks = ackq_new (tun_ack_queue_capacity t),
          ss_outgoing_nacks = ackq_new (tun_ack_queue_capacity t),
          ss_ack_flush_interval = af_ack_flush_interval af,
          ss_nack_flush_interval = af_nack_flush_interval af,
          ss_ack_max_ranges_per_datagram = af_ack_max_ranges_per_datagram af,
          ss_nack_max_ranges_per_datagram = af_nack_max_ranges_per_datagram af,
          ss_ack_nack_priority = af_ack_nack_priority af,
          ss_next_ack_flush_at = now,
          ss_next_nack_flush_at = now,
          ss_incoming_acks = [],
          ss_incoming_nacks = [],
          ss_sent_datagrams = [],
          ss_receipt_tracking = [],
          ss_resend_rto = min (max (cg_resend_rto cg) (cg_min_resend_rto cg)) (cg_max_resend_rto cg),
          ss_min_resend_rto = cg_min_resend_rto cg,
          ss_max_resend_rto = cg_max_resend_rto cg,
          ss_srtt_ms = None,
          ss_rttvar_ms = 0,
          ss_congestion_window_packets = initial_cwnd,
          ss_min_congestion_window_packets = min_cwnd,
          ss_max_congestion_window_packets = max_cwnd,
          ss_slow_start_threshold_packets = slow_start_threshold,
          ss_congestion_additive_gain = max (rp_gain p) 0.01,
          ss_multiplicative_decrease_nack = f64_clamp 0.1 0.99 (rp_dec_nack p),
          ss_multiplicative_decrease_timeout = f64_clamp 0.1 0.99 (rp_dec_timeout p),
          ss_high_rtt_threshold_ms = max (rp_rtt_threshold p) 1,
          ss_high_rtt_additive_scale = f64_clamp 0.05 1 (rp_rtt_scale p),
          ss_nack_loss_backoff_cooldown = max (cg_nack_backoff_cooldown cg) (millis 1),
          ss_next_nack_loss_backoff = now,
          ss_pacing_enabled = tun_pacing_enabled t,
          ss_pacing_gain = max (rp_pacing_gain p) 0.05,
          ss_pacing_min_rate_bytes_per_sec = pacing_min_rate,
          ss_pacing_max_rate_bytes_per_sec = pacing_max_rate,
          ss_pacing_budget_max_bytes = pacing_budget_max,
          ss_pacing_budget_bytes = initial_pacing_budget,
          ss_pacing_rate_bytes_per_sec = pacing_min_rate,
          ss_last_pacing_update = now,
          ss_outgoing_queued_bytes = 0,
          ss_outgoing_queue_max_frames = max (tun_outgoing_queue_max_frames t) 1,
          ss_outgoing_queue_max_bytes = max (tun_outgoing_queue_max_bytes t) 1,
          ss_outgoing_queue_soft_ratio = f64_clamp 0.05 0.99 (rp_soft_ratio p),
          ss_backpressure_mode = tun_backpressure_mode t,
          ss_zeroize_dropped_payloads = tun_best_effort_zeroize_dropped_payloads t,
          ss_disconnect_requested_by_backpressure = False,
          ss_metrics = metrics_default\<rparr>)"

definition with_tunables :: "rounding \<Rightarrow> Instant \<Rightarrow> usize \<Rightarrow> SessionTunables \<Rightarrow> Session option" where
  "with_tunables rnd now mtu t = map_option (session_init rnd now mtu t) (real_params t)"

definition session_new :: "rounding \<Rightarrow> Instant \<Rightarrow> usize \<Rightarrow> Session option" where
  "session_new rnd now mtu = with_tunables rnd now mtu tunables_default"

section \<open>Fields\<close>

definition transition_to :: "Session \<Rightarrow> SessionState \<Rightarrow> bool \<times> Session" where
  "transition_to s nxt =
     (if can_transition_to (ss_state s) nxt then (True, s\<lparr>ss_state := nxt\<rparr>) else (False, s))"

definition set_mtu :: "Session \<Rightarrow> usize \<Rightarrow> Session" where
  "set_mtu s mtu = s\<lparr>ss_mtu := mtu\<rparr>"

definition touch_activity :: "Session \<Rightarrow> Instant \<Rightarrow> Session" where
  "touch_activity s now = s\<lparr>ss_last_activity := now\<rparr>"

definition idle_for :: "Session \<Rightarrow> Instant \<Rightarrow> Duration" where
  "idle_for s now = now - ss_last_activity s"

definition should_send_keepalive :: "Session \<Rightarrow> Instant \<Rightarrow> Duration \<Rightarrow> bool" where
  "should_send_keepalive s now interval =
     (if ss_state s \<noteq> Connected \<or> interval = 0 then False
      else idle_for s now \<ge> interval \<and> now - ss_last_keepalive_sent s \<ge> interval)"

definition mark_keepalive_sent :: "Session \<Rightarrow> Instant \<Rightarrow> Session" where
  "mark_keepalive_sent s now = s\<lparr>ss_last_keepalive_sent := now\<rparr>"

definition next_datagram_sequence :: "Session \<Rightarrow> Sequence24 \<times> Session" where
  "next_datagram_sequence s =
     (ss_datagram_write_index s, s\<lparr>ss_datagram_write_index := seq_next (ss_datagram_write_index s)\<rparr>)"

definition pending_outgoing_frames :: "Session \<Rightarrow> usize" where
  "pending_outgoing_frames s = length (ss_outgoing_heap s)"

definition pending_outgoing_bytes :: "Session \<Rightarrow> usize" where
  "pending_outgoing_bytes s = ss_outgoing_queued_bytes s"

definition force_control_flush_deadlines :: "Session \<Rightarrow> Instant \<Rightarrow> Session" where
  "force_control_flush_deadlines s now =
     (let s1 = (if \<not> ackq_is_empty (ss_outgoing_acks s) then s\<lparr>ss_next_ack_flush_at := now\<rparr> else s)
      in if \<not> ackq_is_empty (ss_outgoing_nacks s1) then s1\<lparr>ss_next_nack_flush_at := now\<rparr> else s1)"

definition take_backpressure_disconnect :: "Session \<Rightarrow> bool \<times> Session" where
  "take_backpressure_disconnect s =
     (ss_disconnect_requested_by_backpressure s, s\<lparr>ss_disconnect_requested_by_backpressure := False\<rparr>)"

record SessionMetricsSnapshot =
  sn_metrics :: SessionMetrics
  sn_pending_outgoing_frames :: usize
  sn_pending_outgoing_bytes :: usize
  sn_srtt_ms :: real
  sn_rttvar_ms :: real
  sn_resend_rto_ms :: real
  sn_congestion_window_packets :: real
  sn_resend_ratio :: real
  sn_pacing_budget_bytes :: real
  sn_pacing_rate_bytes_per_sec :: real

text \<open>The snapshot repeats the twenty counters field by field; here they are one field.\<close>

definition metrics_snapshot :: "rounding \<Rightarrow> Session \<Rightarrow> SessionMetricsSnapshot" where
  "metrics_snapshot rnd s =
     (let m = ss_metrics s;
          resend_ratio = (if m_reliable_sent_datagrams m = 0 then 0
                          else rnd (rnd (real (m_resent_datagrams m)) / rnd (real (m_reliable_sent_datagrams m))))
      in \<lparr>sn_metrics = m,
          sn_pending_outgoing_frames = pending_outgoing_frames s,
          sn_pending_outgoing_bytes = pending_outgoing_bytes s,
          sn_srtt_ms = (case ss_srtt_ms s of None \<Rightarrow> 0 | Some v \<Rightarrow> v),
          sn_rttvar_ms = ss_rttvar_ms s,
          sn_resend_rto_ms = rnd (as_secs_f64 rnd (ss_resend_rto s) * 1000),
          sn_congestion_window_packets = ss_congestion_window_packets s,
          sn_resend_ratio = resend_ratio,
          sn_pacing_budget_bytes = ss_pacing_budget_bytes s,
          sn_pacing_rate_bytes_per_sec = ss_pacing_rate_bytes_per_sec s\<rparr>)"

section \<open>Sessions built from validated tunables\<close>

text \<open>Congestion window, pacing budget and retransmission timeout stay within these bounds.\<close>

definition control_bounds :: "Session \<Rightarrow> bool" where
  "control_bounds s \<longleftrightarrow>
     1 \<le> ss_min_congestion_window_packets s
     \<and> ss_min_congestion_window_packets s \<le> ss_congestion_window_packets s
     \<and> ss_congestion_window_packets s \<le> ss_max_congestion_window_packets s
     \<and> ss_min_congestion_window_packets s \<le> ss_slow_start_threshold_packets s
     \<and> ss_slow_start_threshold_packets s \<le> ss_max_congestion_window_packets s
     \<and> 0 \<le> ss_pacing_budget_bytes s \<and> ss_pacing_budget_bytes s \<le> ss_pacing_budget_max_bytes s
     \<and> 1 \<le> ss_pacing_min_rate_bytes_per_sec s
     \<and> ss_pacing_min_rate_bytes_per_sec s \<le> ss_pacing_rate_bytes_per_sec s
     \<and> ss_pacing_rate_bytes_per_sec s \<le> ss_pacing_max_rate_bytes_per_sec s
     \<and> ss_resend_rto s \<le> ss_max_resend_rto s"

lemma session_init_control_bounds:
  assumes "\<And>x. 0 \<le> x \<Longrightarrow> 0 \<le> rnd x"
  shows "control_bounds (session_init rnd now mtu t p)"
  using assms [of "real (max (tun_pacing_max_burst_bytes t) 1)"]
  by (auto simp: control_bounds_def session_init_def Let_def f64_clamp_def)

lemma f_finite_real: "f_is_finite x \<longleftrightarrow> (\<exists>r. f_real x = Some r)"
  by (cases x) auto

lemma validated_finite:
  assumes "tunables_validate t = Inr ()"
  defines "cg \<equiv> resolved_congestion_settings t"
  shows "f_is_finite (cg_initial_congestion_window cg)" "f_is_finite (cg_min_congestion_window cg)"
    "f_is_finite (cg_max_congestion_window cg)" "f_is_finite (cg_additive_gain cg)"
    "f_is_finite (cg_multiplicative_decrease_nack cg)" "f_is_finite (cg_multiplicative_decrease_timeout cg)"
    "f_is_finite (cg_high_rtt_threshold_ms cg)" "f_is_finite (cg_high_rtt_additive_scale cg)"
    "f_is_finite (tun_pacing_gain t)" "f_is_finite (tun_pacing_min_rate_bytes_per_sec t)"
    "f_is_finite (tun_pacing_max_rate_bytes_per_sec t)" "f_is_finite (tun_outgoing_queue_soft_ratio t)"
    "cg_min_resend_rto cg \<le> cg_max_resend_rto cg"
    "cg_slow_start_threshold cg = NaN \<or> f_is_finite (cg_slow_start_threshold cg)"
proof -
  have c: "list_all (\<lambda>ch. \<not> fst ch) (congestion_checks cg)" and p: "list_all (\<lambda>ch. \<not> fst ch) (pacing_queue_checks t)"
    using assms by (simp_all add: tunables_valid_iff tunables_checks_def)
  from c show f: "f_is_finite (cg_initial_congestion_window cg)" "f_is_finite (cg_min_congestion_window cg)"
    "f_is_finite (cg_max_congestion_window cg)" "f_is_finite (cg_additive_gain cg)"
    "f_is_finite (cg_multiplicative_decrease_nack cg)" "f_is_finite (cg_multiplicative_decrease_timeout cg)"
    "f_is_finite (cg_high_rtt_threshold_ms cg)" "f_is_finite (cg_high_rtt_additive_scale cg)"
    "cg_min_resend_rto cg \<le> cg_max_resend_rto cg"
    by (simp_all add: congestion_checks_def validate_positive_f64_def validate_fraction_def)
  from p show "f_is_finite (tun_pacing_gain t)" "f_is_finite (tun_pacing_min_rate_bytes_per_sec t)"
    "f_is_finite (tun_pacing_max_rate_bytes_per_sec t)" "f_is_finite (tun_outgoing_queue_soft_ratio t)"
    by (simp_all add: pacing_queue_checks_def validate_positive_f64_def)
  have "\<not> f_lt (cg_slow_start_threshold cg) (cg_min_congestion_window cg)"
    "\<not> f_lt (cg_max_congestion_window cg) (cg_slow_start_threshold cg)"
    using c by (simp_all add: congestion_checks_def)
  then show "cg_slow_start_threshold cg = NaN \<or> f_is_finite (cg_slow_start_threshold cg)"
    using f(2,3) by (cases "cg_slow_start_threshold cg"; cases "cg_min_congestion_window cg"; cases "cg_max_congestion_window cg") simp_all
qed

lemma validated_real_params:
  assumes "tunables_validate t = Inr ()" and "cg_slow_start_threshold (resolved_congestion_settings t) \<noteq> NaN"
  shows "\<exists>p. real_params t = Some p"
proof -
  note fin = validated_finite [OF assms(1)]
  have "f_is_finite (cg_slow_start_threshold (resolved_congestion_settings t))" using fin(14) assms(2) by blast
  note reals = this fin(1-12)
  show ?thesis
    using reals [unfolded f_finite_real] fin(13) by (auto simp: real_params_def Let_def)
qed



text \<open>A run of requested transitions.\<close>

definition transitions :: "Session \<Rightarrow> SessionState list \<Rightarrow> Session" where
  "transitions s nexts = foldl (\<lambda>s nxt. snd (transition_to s nxt)) s nexts"

lemma transitions_state: "ss_state (transitions s nexts) = run_transitions (ss_state s) nexts"
  unfolding transitions_def run_transitions_def
  by (induction nexts arbitrary: s) (simp_all add: transition_to_def try_transition_def)

text \<open>C28: a session is \<open>Connected\<close> only after every step of the handshake was requested, in order, whatever
  other transitions were requested in between.\<close>

theorem connected_after_handshake:
  assumes "ss_state (transitions (session_init rnd now mtu t p) nexts) = Connected"
  shows "subseq [Req1Recv, Reply1Sent, Req2Recv, Reply2Sent, ConnReqRecv, ConnReqAcceptedSent, NewIncomingRecv, Connected] nexts"
proof -
  have init: "ss_state (session_init rnd now mtu t p) = Offline" by (simp add: session_init_def Let_def)
  show ?thesis
    using run_transitions_visits [of Offline nexts] assms
    by (simp add: transitions_state init handshake_order_def)
qed

theorem connected_after_handshake_witness:
  "subseq [Req1Recv, Reply1Sent, Req2Recv, Reply2Sent, ConnReqRecv, ConnReqAcceptedSent, NewIncomingRecv, Connected]
     [Connected, Req1Recv, Reply1Sent, Req1Recv, Req2Recv, Reply2Sent, ConnReqRecv, Closed, ConnReqAcceptedSent, NewIncomingRecv, Connected]"
proof (rule connected_after_handshake)
  show "ss_state (transitions (session_init id 0 1200 tunables_default p)
      [Connected, Req1Recv, Reply1Sent, Req1Recv, Req2Recv, Reply2Sent, ConnReqRecv, Closed, ConnReqAcceptedSent, NewIncomingRecv, Connected]) = Connected"
    for p
    by (simp add: transitions_state run_transitions_def session_init_def Let_def try_transition_def can_transition_to_def)
qed

text \<open>The session of the default tunables.\<close>

definition default_params :: RealParams where
  "default_params = \<lparr>rp_init_cwnd = 64, rp_min_cwnd = 8, rp_max_cwnd = 1024, rp_ssthresh = 128, rp_gain = 1,
     rp_dec_nack = 0.85, rp_dec_timeout = 0.6, rp_rtt_threshold = 180, rp_rtt_scale = 0.6,
     rp_pacing_gain = 1, rp_pacing_min = 24576, rp_pacing_max = 33554432, rp_soft_ratio = 0.85\<rparr>"

definition default_session :: Session where
  "default_session = session_init id 0 1200 tunables_default default_params"

lemma session_new_default: "session_new id 0 1200 = Some default_session"
  by (simp add: session_new_def with_tunables_def real_params_def default_session_def default_params_def tunables_default_def
      resolved_congestion_settings_def Let_def millis_def)

end
