(* ===== verification/RateLimiter.thy ===== *)
theory RateLimiter
  imports HashMap TransportConfig Session
begin

text \<open>
  \<^verbatim>\<open>src/transport/rate_limiter.rs\<close>: the packet counters per address and for all addresses in a time
  window, the blocked addresses, the exceptions, and the token buckets that bound the cost of
  processing.  \<^verbatim>\<open>HashMap\<close> and \<^verbatim>\<open>HashSet\<close> are association lists and lists with distinct keys; a reading
  of \<^verbatim>\<open>Instant::now()\<close> is an argument.  Tokens are real numbers and \<open>rnd\<close> the rounding of the
  floating-point operations, as in \<open>Session\<close>.
\<close>

section \<open>Data\<close>

definition MIN_RATE_WINDOW :: Duration where "MIN_RATE_WINDOW = millis 1"
definition MIN_BLOCK_DURATION :: Duration where "MIN_BLOCK_DURATION = millis 1"
definition MIN_PROCESSING_IDLE_TTL :: Duration where "MIN_PROCESSING_IDLE_TTL = millis 1"

datatype BlockReason = RateExceeded | Manual | HandshakeHeuristic | CookieMismatchGuard

datatype RateLimitDecision = RlAllow | GlobalLimit | IpBlocked (newly_blocked: bool) (block_reason: BlockReason)

datatype ProcessingBudgetDecision = PbAllow | IpExhausted | GlobalExhausted

record BlockState =
  bs_blocked_until :: "Instant option"
  bs_reason :: BlockReason

record RateLimiterMetrics =
  rm_global_limit_hits :: nat
  rm_ip_block_hits :: nat
  rm_ip_block_hits_rate_exceeded :: nat
  rm_ip_block_hits_manual :: nat
  rm_ip_block_hits_handshake_heuristic :: nat
  rm_ip_block_hits_cookie_mismatch_guard :: nat
  rm_addresses_blocked :: nat
  rm_addresses_blocked_rate_exceeded :: nat
  rm_addresses_blocked_manual :: nat
  rm_addresses_blocked_handshake_heuristic :: nat
  rm_addresses_blocked_cookie_mismatch_guard :: nat
  rm_addresses_unblocked :: nat

definition rate_metrics_default :: RateLimiterMetrics where
  "rate_metrics_default =
     \<lparr>rm_global_limit_hits = 0, rm_ip_block_hits = 0, rm_ip_block_hits_rate_exceeded = 0,
      rm_ip_block_hits_manual = 0, rm_ip_block_hits_handshake_heuristic = 0,
      rm_ip_block_hits_cookie_mismatch_guard = 0, rm_addresses_blocked = 0,
      rm_addresses_blocked_rate_exceeded = 0, rm_addresses_blocked_manual = 0,
      rm_addresses_blocked_handshake_heuristic = 0, rm_addresses_blocked_cookie_mismatch_guard = 0,
      rm_addresses_unblocked = 0\<rparr>"

record ProcessingBudgetMetrics =
  pm_drops_total :: nat
  pm_drops_ip_exhausted :: nat
  pm_drops_global_exhausted :: nat
  pm_consumed_units_total :: nat

definition budget_metrics_default :: ProcessingBudgetMetrics where
  "budget_metrics_default =
     \<lparr>pm_drops_total = 0, pm_drops_ip_exhausted = 0, pm_drops_global_exhausted = 0, pm_consumed_units_total = 0\<rparr>"

record ProcessingTokenBucket =
  tb_tokens :: real
  tb_last_refill :: Instant

record ProcessingBudgetState =
  pb_config :: ProcessingBudgetConfig
  pb_global_bucket :: ProcessingTokenBucket
  pb_per_ip_buckets :: "(IpAddr \<times> ProcessingTokenBucket) list"
  pb_metrics :: ProcessingBudgetMetrics

record RateLimiter =
  rl_window_start :: Instant
  rl_window_count :: usize
  rl_per_ip_limit :: usize
  rl_global_limit :: usize
  rl_window :: Duration
  rl_block_duration :: Duration
  rl_ip_state :: "(IpAddr \<times> usize) list"
  rl_blocked :: "(IpAddr \<times> BlockState) list"
  rl_exceptions :: "IpAddr list"
  rl_metrics :: RateLimiterMetrics
  rl_processing_budget :: ProcessingBudgetState

section \<open>Token buckets\<close>

definition with_full_tokens :: "Instant \<Rightarrow> nat \<Rightarrow> ProcessingTokenBucket" where
  "with_full_tokens now burst = \<lparr>tb_tokens = real burst, tb_last_refill = now\<rparr>"

definition bucket_refill :: "rounding \<Rightarrow> ProcessingTokenBucket \<Rightarrow> Instant \<Rightarrow> nat \<Rightarrow> nat \<Rightarrow> ProcessingTokenBucket" where
  "bucket_refill rnd b now refill_per_sec burst =
     (if now \<le> tb_last_refill b then b
      else let elapsed = as_secs_f64 rnd (now - tb_last_refill b);
               refill = rnd (elapsed * real refill_per_sec)
           in b\<lparr>tb_last_refill := now, tb_tokens := f64_clamp 0 (real burst) (rnd (tb_tokens b + refill))\<rparr>)"

definition can_consume :: "ProcessingTokenBucket \<Rightarrow> nat \<Rightarrow> bool" where
  "can_consume b cost \<longleftrightarrow> tb_tokens b \<ge> real cost"

definition bucket_consume :: "rounding \<Rightarrow> ProcessingTokenBucket \<Rightarrow> nat \<Rightarrow> ProcessingTokenBucket" where
  "bucket_consume rnd b cost = b\<lparr>tb_tokens := max (rnd (tb_tokens b - real cost)) 0\<rparr>"

definition normalize_duration :: "Duration \<Rightarrow> Duration \<Rightarrow> Duration" where
  "normalize_duration v minimum = (if v = 0 then minimum else v)"

definition normalize_processing_budget_config :: "ProcessingBudgetConfig \<Rightarrow> ProcessingBudgetConfig" where
  "normalize_processing_budget_config c =
     (if \<not> pc_enabled c then c
      else c\<lparr>pc_per_ip_refill_units_per_sec := max (pc_per_ip_refill_units_per_sec c) 1,
             pc_per_ip_burst_units := max (pc_per_ip_burst_units c) 1,
             pc_global_refill_units_per_sec := max (pc_global_refill_units_per_sec c) 1,
             pc_global_burst_units := max (pc_global_burst_units c) 1,
             pc_bucket_idle_ttl := normalize_duration (pc_bucket_idle_ttl c) MIN_PROCESSING_IDLE_TTL\<rparr>)"

definition budget_new :: "ProcessingBudgetConfig \<Rightarrow> Instant \<Rightarrow> ProcessingBudgetState" where
  "budget_new config now =
     (let config = normalize_processing_budget_config config
      in \<lparr>pb_config = config, pb_global_bucket = with_full_tokens now (pc_global_burst_units config),
          pb_per_ip_buckets = [], pb_metrics = budget_metrics_default\<rparr>)"

definition budget_set_config :: "ProcessingBudgetState \<Rightarrow> ProcessingBudgetConfig \<Rightarrow> Instant \<Rightarrow> ProcessingBudgetState" where
  "budget_set_config pb config now =
     (let config = normalize_processing_budget_config config
      in pb\<lparr>pb_config := config, pb_global_bucket := with_full_tokens now (pc_global_burst_units config),
            pb_per_ip_buckets := []\<rparr>)"

definition budget_tick :: "ProcessingBudgetState \<Rightarrow> Instant \<Rightarrow> ProcessingBudgetState" where
  "budget_tick pb now =
     (if \<not> pc_enabled (pb_config pb) then pb\<lparr>pb_per_ip_buckets := []\<rparr>
      else pb\<lparr>pb_per_ip_buckets :=
             filter (\<lambda>(_, b). now - tb_last_refill b \<le> pc_bucket_idle_ttl (pb_config pb)) (pb_per_ip_buckets pb)\<rparr>)"

definition budget_cost :: "ProcessingBudgetConfig \<Rightarrow> usize \<Rightarrow> nat" where
  "budget_cost c cost_units = min (max cost_units 1) (max (min (pc_per_ip_burst_units c) (pc_global_burst_units c)) 1)"

definition budget_drop_global :: "ProcessingBudgetMetrics \<Rightarrow> ProcessingBudgetMetrics" where
  "budget_drop_global m =
     m\<lparr>pm_drops_total := sat_add (pm_drops_total m) 1, pm_drops_global_exhausted := sat_add (pm_drops_global_exhausted m) 1\<rparr>"

definition budget_drop_ip :: "ProcessingBudgetMetrics \<Rightarrow> ProcessingBudgetMetrics" where
  "budget_drop_ip m =
     m\<lparr>pm_drops_total := sat_add (pm_drops_total m) 1, pm_drops_ip_exhausted := sat_add (pm_drops_ip_exhausted m) 1\<rparr>"

definition budget_consume :: "rounding \<Rightarrow> ProcessingBudgetState \<Rightarrow> IpAddr \<Rightarrow> usize \<Rightarrow> Instant
    \<Rightarrow> ProcessingBudgetDecision \<times> ProcessingBudgetState" where
  "budget_consume rnd pb ip cost_units now =
     (let c = pb_config pb
      in if \<not> pc_enabled c then (PbAllow, pb)
         else let cost = budget_cost c cost_units;
                  global = bucket_refill rnd (pb_global_bucket pb) now (pc_global_refill_units_per_sec c) (pc_global_burst_units c);
                  pb1 = pb\<lparr>pb_global_bucket := global\<rparr>
              in if \<not> can_consume global cost
                 then (GlobalExhausted, pb1\<lparr>pb_metrics := budget_drop_global (pb_metrics pb1)\<rparr>)
                 else let b0 = (case map_of (pb_per_ip_buckets pb1) ip of
                                  Some b \<Rightarrow> b
                                | None \<Rightarrow> with_full_tokens now (pc_per_ip_burst_units c));
                          b = bucket_refill rnd b0 now (pc_per_ip_refill_units_per_sec c) (pc_per_ip_burst_units c);
                          pb2 = pb1\<lparr>pb_per_ip_buckets := AList.update ip b (pb_per_ip_buckets pb1)\<rparr>
                      in if \<not> can_consume b cost
                         then (IpExhausted, pb2\<lparr>pb_metrics := budget_drop_ip (pb_metrics pb2)\<rparr>)
                         else (PbAllow,
                               pb2\<lparr>pb_global_bucket := bucket_consume rnd global cost,
                                   pb_per_ip_buckets := AList.update ip (bucket_consume rnd b cost) (pb_per_ip_buckets pb2),
                                   pb_metrics := (pb_metrics pb2)\<lparr>pm_consumed_units_total :=
                                     sat_add (pm_consumed_units_total (pb_metrics pb2)) cost\<rparr>\<rparr>))"

section \<open>The limiter\<close>

definition normalize_limits :: "usize \<Rightarrow> usize \<Rightarrow> Duration \<Rightarrow> Duration \<Rightarrow> usize \<times> usize \<times> Duration \<times> Duration" where
  "normalize_limits per_ip_limit global_limit window block_duration =
     (max per_ip_limit 1, max global_limit 1, normalize_duration window MIN_RATE_WINDOW,
      normalize_duration block_duration MIN_BLOCK_DURATION)"

definition new_with_processing_budget :: "usize \<Rightarrow> usize \<Rightarrow> Duration \<Rightarrow> Duration \<Rightarrow> ProcessingBudgetConfig
    \<Rightarrow> Instant \<Rightarrow> RateLimiter" where
  "new_with_processing_budget per_ip_limit global_limit window block_duration config now =
     (let (per_ip_limit, global_limit, window, block_duration) =
            normalize_limits per_ip_limit global_limit window block_duration
      in \<lparr>rl_window_start = now, rl_window_count = 0, rl_per_ip_limit = per_ip_limit,
          rl_global_limit = global_limit, rl_window = window, rl_block_duration = block_duration,
          rl_ip_state = [], rl_blocked = [], rl_exceptions = [], rl_metrics = rate_metrics_default,
          rl_processing_budget = budget_new config now\<rparr>)"

definition limiter_new :: "usize \<Rightarrow> usize \<Rightarrow> Duration \<Rightarrow> Duration \<Rightarrow> Instant \<Rightarrow> RateLimiter" where
  "limiter_new per_ip_limit global_limit window block_duration now =
     new_with_processing_budget per_ip_limit global_limit window block_duration budget_default now"

fun record_ip_block_hit :: "BlockReason \<Rightarrow> RateLimiterMetrics \<Rightarrow> RateLimiterMetrics" where
  "record_ip_block_hit RateExceeded m = m\<lparr>rm_ip_block_hits := sat_add (rm_ip_block_hits m) 1,
     rm_ip_block_hits_rate_exceeded := sat_add (rm_ip_block_hits_rate_exceeded m) 1\<rparr>"
| "record_ip_block_hit Manual m = m\<lparr>rm_ip_block_hits := sat_add (rm_ip_block_hits m) 1,
     rm_ip_block_hits_manual := sat_add (rm_ip_block_hits_manual m) 1\<rparr>"
| "record_ip_block_hit HandshakeHeuristic m = m\<lparr>rm_ip_block_hits := sat_add (rm_ip_block_hits m) 1,
     rm_ip_block_hits_handshake_heuristic := sat_add (rm_ip_block_hits_handshake_heuristic m) 1\<rparr>"
| "record_ip_block_hit CookieMismatchGuard m = m\<lparr>rm_ip_block_hits := sat_add (rm_ip_block_hits m) 1,
     rm_ip_block_hits_cookie_mismatch_guard := sat_add (rm_ip_block_hits_cookie_mismatch_guard m) 1\<rparr>"

fun record_new_block :: "BlockReason \<Rightarrow> RateLimiterMetrics \<Rightarrow> RateLimiterMetrics" where
  "record_new_block RateExceeded m = m\<lparr>rm_addresses_blocked := sat_add (rm_addresses_blocked m) 1,
     rm_addresses_blocked_rate_exceeded := sat_add (rm_addresses_blocked_rate_exceeded m) 1\<rparr>"
| "record_new_block Manual m = m\<lparr>rm_addresses_blocked := sat_add (rm_addresses_blocked m) 1,
     rm_addresses_blocked_manual := sat_add (rm_addresses_blocked_manual m) 1\<rparr>"
| "record_new_block HandshakeHeuristic m = m\<lparr>rm_addresses_blocked := sat_add (rm_addresses_blocked m) 1,
     rm_addresses_blocked_handshake_heuristic := sat_add (rm_addresses_blocked_handshake_heuristic m) 1\<rparr>"
| "record_new_block CookieMismatchGuard m = m\<lparr>rm_addresses_blocked := sat_add (rm_addresses_blocked m) 1,
     rm_addresses_blocked_cookie_mismatch_guard := sat_add (rm_addresses_blocked_cookie_mismatch_guard m) 1\<rparr>"

definition count_unblocked :: "nat \<Rightarrow> RateLimiter \<Rightarrow> RateLimiter" where
  "count_unblocked n rl = rl\<lparr>rl_metrics := (rl_metrics rl)\<lparr>rm_addresses_unblocked :=
     sat_add (rm_addresses_unblocked (rl_metrics rl)) n\<rparr>\<rparr>"

definition reset_window_state :: "RateLimiter \<Rightarrow> Instant \<Rightarrow> RateLimiter" where
  "reset_window_state rl now = rl\<lparr>rl_window_start := now, rl_window_count := 0, rl_ip_state := []\<rparr>"

definition rotate_window_if_needed :: "RateLimiter \<Rightarrow> Instant \<Rightarrow> RateLimiter" where
  "rotate_window_if_needed rl now =
     (if now - rl_window_start rl < rl_window rl then rl else reset_window_state rl now)"

definition block_expired :: "Instant \<Rightarrow> BlockState \<Rightarrow> bool" where
  "block_expired now st \<longleftrightarrow> (case bs_blocked_until st of None \<Rightarrow> False | Some until \<Rightarrow> now \<ge> until)"

definition prune_expired_blocks :: "RateLimiter \<Rightarrow> Instant \<Rightarrow> RateLimiter" where
  "prune_expired_blocks rl now =
     count_unblocked (length (filter (\<lambda>(_, st). block_expired now st) (rl_blocked rl)))
       (rl\<lparr>rl_blocked := filter (\<lambda>(_, st). \<not> block_expired now st) (rl_blocked rl)\<rparr>)"

definition limiter_tick :: "RateLimiter \<Rightarrow> Instant \<Rightarrow> RateLimiter" where
  "limiter_tick rl now =
     (let rl = rotate_window_if_needed rl now;
          rl = prune_expired_blocks rl now
      in rl\<lparr>rl_processing_budget := budget_tick (rl_processing_budget rl) now\<rparr>)"

definition insert_block :: "RateLimiter \<Rightarrow> IpAddr \<Rightarrow> Instant option \<Rightarrow> BlockReason \<Rightarrow> bool \<times> RateLimiter" where
  "insert_block rl ip until reason =
     (let newly_blocked = (map_of (rl_blocked rl) ip = None);
          rl = rl\<lparr>rl_blocked := AList.update ip \<lparr>bs_blocked_until = until, bs_reason = reason\<rparr> (rl_blocked rl)\<rparr>
      in (newly_blocked, if newly_blocked then rl\<lparr>rl_metrics := record_new_block reason (rl_metrics rl)\<rparr> else rl))"

definition block_address_with_reason :: "RateLimiter \<Rightarrow> IpAddr \<Rightarrow> BlockReason \<Rightarrow> bool \<times> RateLimiter" where
  "block_address_with_reason rl ip reason =
     (if ip \<in> set (rl_exceptions rl) then (False, rl) else insert_block rl ip None reason)"

definition block_address_for_with_reason :: "RateLimiter \<Rightarrow> IpAddr \<Rightarrow> Instant \<Rightarrow> Duration \<Rightarrow> BlockReason
    \<Rightarrow> bool \<times> RateLimiter" where
  "block_address_for_with_reason rl ip now duration reason =
     (if ip \<in> set (rl_exceptions rl) then (False, rl)
      else insert_block rl ip (Some (now + normalize_duration duration MIN_BLOCK_DURATION)) reason)"

definition block_address :: "RateLimiter \<Rightarrow> IpAddr \<Rightarrow> bool \<times> RateLimiter" where
  "block_address rl ip = block_address_with_reason rl ip Manual"

definition block_address_for :: "RateLimiter \<Rightarrow> IpAddr \<Rightarrow> Instant \<Rightarrow> Duration \<Rightarrow> bool \<times> RateLimiter" where
  "block_address_for rl ip now duration = block_address_for_with_reason rl ip now duration Manual"

definition unblock_address :: "RateLimiter \<Rightarrow> IpAddr \<Rightarrow> bool \<times> RateLimiter" where
  "unblock_address rl ip =
     (if map_of (rl_blocked rl) ip \<noteq> None
      then (True, count_unblocked 1 (rl\<lparr>rl_blocked := AList.delete ip (rl_blocked rl)\<rparr>)) else (False, rl))"

definition limiter_check :: "RateLimiter \<Rightarrow> IpAddr \<Rightarrow> Instant \<Rightarrow> RateLimitDecision \<times> RateLimiter" where
  "limiter_check rl0 ip now =
     (let rl = limiter_tick rl0 now
      in if ip \<in> set (rl_exceptions rl) then (RlAllow, rl\<lparr>rl_window_count := rl_window_count rl + 1\<rparr>)
         else case map_of (rl_blocked rl) ip of
                Some st \<Rightarrow>
                  (IpBlocked False (bs_reason st), rl\<lparr>rl_metrics := record_ip_block_hit (bs_reason st) (rl_metrics rl)\<rparr>)
              | None \<Rightarrow>
                  if rl_window_count rl \<ge> rl_global_limit rl
                  then (GlobalLimit, rl\<lparr>rl_metrics := (rl_metrics rl)\<lparr>rm_global_limit_hits :=
                          sat_add (rm_global_limit_hits (rl_metrics rl)) 1\<rparr>\<rparr>)
                  else let count = (case map_of (rl_ip_state rl) ip of Some n \<Rightarrow> n | None \<Rightarrow> 0);
                           rl1 = rl\<lparr>rl_ip_state := AList.update ip count (rl_ip_state rl)\<rparr>
                       in if count \<ge> rl_per_ip_limit rl1
                          then let (newly_blocked, rl2) =
                                     block_address_for_with_reason rl1 ip now (rl_block_duration rl1) RateExceeded
                               in (IpBlocked newly_blocked RateExceeded,
                                   rl2\<lparr>rl_metrics := record_ip_block_hit RateExceeded (rl_metrics rl2)\<rparr>)
                          else (RlAllow, rl1\<lparr>rl_ip_state := AList.update ip (count + 1) (rl_ip_state rl1),
                                            rl_window_count := rl_window_count rl1 + 1\<rparr>))"

definition add_exception :: "RateLimiter \<Rightarrow> IpAddr \<Rightarrow> RateLimiter" where
  "add_exception rl ip =
     (let rl1 = rl\<lparr>rl_exceptions := List.insert ip (rl_exceptions rl)\<rparr>
      in if map_of (rl_blocked rl1) ip \<noteq> None
         then count_unblocked 1 (rl1\<lparr>rl_blocked := AList.delete ip (rl_blocked rl1)\<rparr>) else rl1)"

definition remove_exception :: "RateLimiter \<Rightarrow> IpAddr \<Rightarrow> RateLimiter" where
  "remove_exception rl ip = rl\<lparr>rl_exceptions := remove1 ip (rl_exceptions rl)\<rparr>"

definition is_exception :: "RateLimiter \<Rightarrow> IpAddr \<Rightarrow> bool" where
  "is_exception rl ip \<longleftrightarrow> ip \<in> set (rl_exceptions rl)"

definition set_per_ip_limit :: "RateLimiter \<Rightarrow> usize \<Rightarrow> Instant \<Rightarrow> RateLimiter" where
  "set_per_ip_limit rl per_ip_limit now = reset_window_state (rl\<lparr>rl_per_ip_limit := max per_ip_limit 1\<rparr>) now"

definition set_global_limit :: "RateLimiter \<Rightarrow> usize \<Rightarrow> Instant \<Rightarrow> RateLimiter" where
  "set_global_limit rl global_limit now = reset_window_state (rl\<lparr>rl_global_limit := max global_limit 1\<rparr>) now"

definition set_window :: "RateLimiter \<Rightarrow> Duration \<Rightarrow> Instant \<Rightarrow> RateLimiter" where
  "set_window rl window now = reset_window_state (rl\<lparr>rl_window := normalize_duration window MIN_RATE_WINDOW\<rparr>) now"

definition set_block_duration :: "RateLimiter \<Rightarrow> Duration \<Rightarrow> RateLimiter" where
  "set_block_duration rl block_duration = rl\<lparr>rl_block_duration := normalize_duration block_duration MIN_BLOCK_DURATION\<rparr>"

definition update_limits :: "RateLimiter \<Rightarrow> usize \<Rightarrow> usize \<Rightarrow> Duration \<Rightarrow> Duration \<Rightarrow> Instant \<Rightarrow> RateLimiter" where
  "update_limits rl per_ip_limit global_limit window block_duration now =
     (let (per_ip_limit, global_limit, window, block_duration) =
            normalize_limits per_ip_limit global_limit window block_duration
      in reset_window_state (rl\<lparr>rl_per_ip_limit := per_ip_limit, rl_global_limit := global_limit,
           rl_window := window, rl_block_duration := block_duration\<rparr>) now)"

definition set_processing_budget_config :: "RateLimiter \<Rightarrow> ProcessingBudgetConfig \<Rightarrow> Instant \<Rightarrow> RateLimiter" where
  "set_processing_budget_config rl config now =
     rl\<lparr>rl_processing_budget := budget_set_config (rl_processing_budget rl) config now\<rparr>"

definition consume_processing_budget :: "rounding \<Rightarrow> RateLimiter \<Rightarrow> IpAddr \<Rightarrow> usize \<Rightarrow> Instant
    \<Rightarrow> ProcessingBudgetDecision \<times> RateLimiter" where
  "consume_processing_budget rnd rl ip cost_units now =
     (let rl = limiter_tick rl now;
          (d, pb) = budget_consume rnd (rl_processing_budget rl) ip cost_units now
      in (d, rl\<lparr>rl_processing_budget := pb\<rparr>))"

section \<open>Runs of checks\<close>

definition ip_count :: "RateLimiter \<Rightarrow> IpAddr \<Rightarrow> nat" where
  "ip_count rl ip = (case map_of (rl_ip_state rl) ip of Some n \<Rightarrow> n | None \<Rightarrow> 0)"

fun check_all :: "RateLimiter \<Rightarrow> (IpAddr \<times> Instant) list \<Rightarrow> RateLimitDecision list \<times> RateLimiter" where
  "check_all rl [] = ([], rl)"
| "check_all rl ((ip, now) # xs) =
     (let (d, rl1) = limiter_check rl ip now; (ds, rl2) = check_all rl1 xs in (d # ds, rl2))"

fun decisions_for :: "IpAddr \<Rightarrow> (IpAddr \<times> Instant) list \<Rightarrow> RateLimitDecision list \<Rightarrow> RateLimitDecision list" where
  "decisions_for ip ((a, _) # xs) (d # ds) = (if a = ip then [d] else []) @ decisions_for ip xs ds"
| "decisions_for ip _ _ = []"

text \<open>The number of packets let through among those whose address satisfies \<open>P\<close>.\<close>

fun let_through :: "(IpAddr \<Rightarrow> bool) \<Rightarrow> (IpAddr \<times> Instant) list \<Rightarrow> RateLimitDecision list \<Rightarrow> nat" where
  "let_through P ((ip, _) # xs) (d # ds) = (if P ip \<and> d = RlAllow then 1 else 0) + let_through P xs ds"
| "let_through P _ _ = 0"

definition same_limits :: "RateLimiter \<Rightarrow> RateLimiter \<Rightarrow> bool" where
  "same_limits rl rl' \<longleftrightarrow> rl_per_ip_limit rl' = rl_per_ip_limit rl \<and> rl_global_limit rl' = rl_global_limit rl
     \<and> rl_window rl' = rl_window rl \<and> rl_exceptions rl' = rl_exceptions rl"

lemma limiter_tick_fields:
  "same_limits rl (limiter_tick rl now)" "rl_blocked (limiter_tick rl now) = filter (\<lambda>(_, st). \<not> block_expired now st) (rl_blocked rl)"
  by (simp_all add: same_limits_def limiter_tick_def Let_def prune_expired_blocks_def count_unblocked_def
      rotate_window_if_needed_def reset_window_state_def)

lemma limiter_tick_window:
  "now - rl_window_start rl < rl_window rl \<Longrightarrow> rl_window_start (limiter_tick rl now) = rl_window_start rl
     \<and> rl_window_count (limiter_tick rl now) = rl_window_count rl \<and> ip_count (limiter_tick rl now) ip = ip_count rl ip"
  "\<not> now - rl_window_start rl < rl_window rl \<Longrightarrow> rl_window_start (limiter_tick rl now) = now
     \<and> rl_window_count (limiter_tick rl now) = 0 \<and> ip_count (limiter_tick rl now) ip = 0"
  by (simp_all add: limiter_tick_def Let_def prune_expired_blocks_def count_unblocked_def ip_count_def
      rotate_window_if_needed_def reset_window_state_def)

text \<open>A check after the tick: the counters of the window and the blocked addresses.\<close>

lemma limiter_check_step:
  assumes "limiter_check rl0 ip now = (d, rl')" and rl: "rl = limiter_tick rl0 now"
  shows "same_limits rl rl'" "rl_window_start rl' = rl_window_start rl"
    "rl_window_count rl' = rl_window_count rl + (if d = RlAllow then 1 else 0)"
    "ip_count rl' ip' = ip_count rl ip' + (if d = RlAllow \<and> ip' = ip \<and> ip \<notin> set (rl_exceptions rl) then 1 else 0)"
    "d = RlAllow \<Longrightarrow> ip \<notin> set (rl_exceptions rl) \<Longrightarrow> ip_count rl ip < rl_per_ip_limit rl \<and> rl_window_count rl < rl_global_limit rl"
    "ip' \<noteq> ip \<or> map_of (rl_blocked rl) ip' \<noteq> None \<Longrightarrow> map_of (rl_blocked rl') ip' = map_of (rl_blocked rl) ip'"
    "ip \<notin> set (rl_exceptions rl) \<Longrightarrow> map_of (rl_blocked rl) ip = Some st \<Longrightarrow> d = IpBlocked False (bs_reason st)"
  using assms(1) unfolding limiter_check_def rl [symmetric] same_limits_def ip_count_def
  by (auto simp: Let_def block_address_for_with_reason_def insert_block_def update_conv' split: if_splits option.splits)

lemma limiter_check_distinct:
  "limiter_check rl ip now = (d, rl') \<Longrightarrow> keys_distinct (rl_blocked rl) \<Longrightarrow> keys_distinct (rl_blocked rl')"
  by (auto simp: limiter_check_def Let_def limiter_tick_fields(2) block_address_for_with_reason_def insert_block_def
      split: if_splits option.splits)

text \<open>The times of a run: none before the last one, none after \<open>T\<close>.\<close>

fun ordered_until :: "Instant \<Rightarrow> Instant \<Rightarrow> ('a \<times> Instant) list \<Rightarrow> bool" where
  "ordered_until t T [] = (t \<le> T)"
| "ordered_until t T ((_, now) # xs) = (t \<le> now \<and> ordered_until now T xs)"

lemma ordered_until_le: "ordered_until t T xs \<Longrightarrow> t \<le> T"
  by (induction t T xs rule: ordered_until.induct) auto

text \<open>A window that is rotated at \<open>now\<close> has run for its full length, so it uses up one of the windows left.\<close>

lemma rotated_window:
  assumes "\<not> now - start < w" "0 < (w :: nat)" "now \<le> T" "start \<le> now"
  shows "Suc ((T - now) div w) \<le> (T - start) div w"
proof -
  have "T - now + w \<le> T - start" using assms by simp
  then have "(T - now + w) div w \<le> (T - start) div w" by (rule div_le_mono)
  then show ?thesis using assms(2) by simp
qed

lemma window_step:
  assumes IH: "n + c1 \<le> L * Suc ((T - s1) div w)" and c: "c \<le> L" and w: "0 < (w :: nat)" "now \<le> T" "s \<le> now"
    and same: "now - s < w \<Longrightarrow> s1 = s \<and> k + c \<le> c1" and rotated: "\<not> now - s < w \<Longrightarrow> s1 = now \<and> k \<le> c1"
  shows "k + n + c \<le> L * Suc ((T - s) div w)"
proof (cases "now - s < w")
  case False
  have "L * Suc ((T - now) div w) \<le> L * ((T - s) div w)" using rotated_window [OF False w] by (intro mult_le_mono2)
  with IH c rotated [OF False] show ?thesis by simp
qed (use IH same in simp)

lemma check_limits: "limiter_check rl a now = (d, rl1) \<Longrightarrow> same_limits rl rl1"
  using limiter_tick_fields(1) [of rl now] limiter_check_step(1) [of rl a now d rl1] by (simp add: same_limits_def)

lemma check_ip_step:
  assumes d: "limiter_check rl a now = (d, rl1)" and "ip \<notin> set (rl_exceptions rl)" and "k = (if a = ip \<and> d = RlAllow then 1 else 0)"
  shows "now - rl_window_start rl < rl_window rl \<Longrightarrow> rl_window_start rl1 = rl_window_start rl \<and> k + ip_count rl ip \<le> ip_count rl1 ip"
    "\<not> now - rl_window_start rl < rl_window rl \<Longrightarrow> rl_window_start rl1 = now \<and> k \<le> ip_count rl1 ip"
    "ip_count rl ip \<le> rl_per_ip_limit rl \<Longrightarrow> ip_count rl1 ip \<le> rl_per_ip_limit rl1"
  using assms limiter_tick_window [of now rl ip] limiter_tick_fields(1) [of rl now] limiter_check_step [OF d HOL.refl]
  by (cases "now - rl_window_start rl < rl_window rl"; auto simp: same_limits_def)+

lemma check_global_step:
  assumes d: "limiter_check rl a now = (d, rl1)" and "k = (if a \<notin> set (rl_exceptions rl) \<and> d = RlAllow then 1 else 0)"
  shows "now - rl_window_start rl < rl_window rl \<Longrightarrow> rl_window_start rl1 = rl_window_start rl
      \<and> k + min (rl_window_count rl) (rl_global_limit rl) \<le> min (rl_window_count rl1) (rl_global_limit rl1)"
    "\<not> now - rl_window_start rl < rl_window rl \<Longrightarrow> rl_window_start rl1 = now \<and> k \<le> min (rl_window_count rl1) (rl_global_limit rl1)"
  using assms limiter_tick_window [of now rl] limiter_tick_fields(1) [of rl now] limiter_check_step [OF d HOL.refl]
  by (cases "now - rl_window_start rl < rl_window rl"; auto simp: same_limits_def)+

lemma check_start:
  assumes "limiter_check rl a now = (d, rl1)" "rl_window_start rl \<le> now"
  shows "rl_window_start rl1 \<le> now"
  using check_global_step [OF assms(1) HOL.refl] assms(2) by (cases "now - rl_window_start rl < rl_window rl") auto

lemma check_all_ip_bound:
  assumes "check_all rl xs = (ds, rl')" "ordered_until t T xs" "rl_window_start rl \<le> t" "0 < rl_window rl"
    and "ip_count rl ip \<le> rl_per_ip_limit rl" "ip \<notin> set (rl_exceptions rl)"
  shows "let_through (\<lambda>a. a = ip) xs ds + ip_count rl ip
      \<le> rl_per_ip_limit rl * Suc ((T - rl_window_start rl) div rl_window rl)"
  using assms
proof (induction xs arbitrary: rl ds t)
  case (Cons x xs)
  obtain a now where x: "x = (a, now)" by (cases x)
  obtain d rl1 where d: "limiter_check rl a now = (d, rl1)" by (cases "limiter_check rl a now")
  obtain ds' where ds: "ds = d # ds'" "check_all rl1 xs = (ds', rl')"
    using Cons.prems(1) by (auto simp: x d split: prod.splits)
  have ord: "ordered_until now T xs" "now \<le> T" "rl_window_start rl \<le> now"
    using Cons.prems(2,3) ordered_until_le by (auto simp: x)
  note lims = check_limits [OF d, unfolded same_limits_def] and step = check_ip_step [OF d Cons.prems(6) HOL.refl]
  have IH: "let_through (\<lambda>a. a = ip) xs ds' + ip_count rl1 ip \<le> rl_per_ip_limit rl * Suc ((T - rl_window_start rl1) div rl_window rl)"
    using Cons.IH [OF ds(2) ord(1)] check_start [OF d ord(3)] step(3) lims Cons.prems(4-6) by simp
  show ?case
    using window_step [OF IH Cons.prems(5,4) ord(2,3) step(1,2)] by (simp add: x ds)
qed (auto intro: le_trans [OF _ le_add1])

lemma check_all_global_bound:
  assumes "check_all rl xs = (ds, rl')" "ordered_until t T xs" "rl_window_start rl \<le> t" "0 < rl_window rl"
  shows "let_through (\<lambda>a. a \<notin> set (rl_exceptions rl)) xs ds + min (rl_window_count rl) (rl_global_limit rl)
      \<le> rl_global_limit rl * Suc ((T - rl_window_start rl) div rl_window rl)"
  using assms
proof (induction xs arbitrary: rl ds t)
  case (Cons x xs)
  obtain a now where x: "x = (a, now)" by (cases x)
  obtain d rl1 where d: "limiter_check rl a now = (d, rl1)" by (cases "limiter_check rl a now")
  obtain ds' where ds: "ds = d # ds'" "check_all rl1 xs = (ds', rl')"
    using Cons.prems(1) by (auto simp: x d split: prod.splits)
  have ord: "ordered_until now T xs" "now \<le> T" "rl_window_start rl \<le> now"
    using Cons.prems(2,3) ordered_until_le by (auto simp: x)
  note lims = check_limits [OF d, unfolded same_limits_def] and step = check_global_step [OF d HOL.refl]
  have IH: "let_through (\<lambda>a. a \<notin> set (rl_exceptions rl)) xs ds' + min (rl_window_count rl1) (rl_global_limit rl1)
      \<le> rl_global_limit rl * Suc ((T - rl_window_start rl1) div rl_window rl)"
    using Cons.IH [OF ds(2) ord(1)] check_start [OF d ord(3)] lims Cons.prems(4) by simp
  show ?case
    using window_step [OF IH _ Cons.prems(4) ord(2,3) step] by (simp add: x ds)
qed (auto intro: le_trans [OF _ le_add1])

text \<open>The limiter of a server: freshly built, with the exceptions of the configuration added.\<close>

lemma add_exception_fields:
  "rl_window_start (add_exception rl ip) = rl_window_start rl" "rl_window_count (add_exception rl ip) = rl_window_count rl"
  "rl_ip_state (add_exception rl ip) = rl_ip_state rl" "rl_per_ip_limit (add_exception rl ip) = rl_per_ip_limit rl"
  "rl_global_limit (add_exception rl ip) = rl_global_limit rl" "rl_window (add_exception rl ip) = rl_window rl"
  "set (rl_exceptions (add_exception rl ip)) = insert ip (set (rl_exceptions rl))"
  "rl_processing_budget (add_exception rl ip) = rl_processing_budget rl"
  by (simp_all add: add_exception_def Let_def count_unblocked_def)

lemma add_exceptions_fields:
  "rl_window_start (foldl add_exception rl ips) = rl_window_start rl \<and> rl_window_count (foldl add_exception rl ips) = rl_window_count rl
   \<and> rl_ip_state (foldl add_exception rl ips) = rl_ip_state rl \<and> rl_per_ip_limit (foldl add_exception rl ips) = rl_per_ip_limit rl
   \<and> rl_global_limit (foldl add_exception rl ips) = rl_global_limit rl \<and> rl_window (foldl add_exception rl ips) = rl_window rl
   \<and> set (rl_exceptions (foldl add_exception rl ips)) = set ips \<union> set (rl_exceptions rl)
   \<and> rl_processing_budget (foldl add_exception rl ips) = rl_processing_budget rl"
  by (induction ips arbitrary: rl) (auto simp: add_exception_fields)

lemma limiter_new_fields:
  "rl_window_start (limiter_new pl gl w bd t0) = t0" "rl_window_count (limiter_new pl gl w bd t0) = 0"
  "rl_ip_state (limiter_new pl gl w bd t0) = []" "rl_per_ip_limit (limiter_new pl gl w bd t0) = max pl 1"
  "rl_global_limit (limiter_new pl gl w bd t0) = max gl 1" "rl_window (limiter_new pl gl w bd t0) = normalize_duration w MIN_RATE_WINDOW"
  "rl_exceptions (limiter_new pl gl w bd t0) = []"
  by (simp_all add: limiter_new_def new_with_processing_budget_def normalize_limits_def)



text \<open>C39: a blocked address that is no exception is refused, with the reason it was blocked for, at every
  check before the block ends, whatever other checks come in between; at the end of the block the
  next check finds the address free.\<close>

theorem blocked_until_expiry:
  assumes "map_of (rl_blocked rl) ip = Some \<lparr>bs_blocked_until = Some until, bs_reason = reason\<rparr>" "distinct (map fst (rl_blocked rl))"
    and "ip \<notin> set (rl_exceptions rl)" and "check_all rl xs = (ds, rl')" and "list_all (\<lambda>(_, now). now < until) xs"
  shows "set (decisions_for ip xs ds) \<subseteq> {IpBlocked False reason}
    \<and> (\<forall>t \<ge> until. map_of (rl_blocked (limiter_tick rl' t)) ip = None)"
  using assms
proof (induction xs arbitrary: rl ds)
  case Nil
  then show ?case by (simp add: limiter_tick_fields(2) map_of_retain block_expired_def)
next
  case (Cons x xs)
  obtain a now where x: "x = (a, now)" by (cases x)
  obtain d rl1 where d: "limiter_check rl a now = (d, rl1)" by (cases "limiter_check rl a now")
  obtain ds' where ds: "ds = d # ds'" "check_all rl1 xs = (ds', rl')"
    using Cons.prems(4) by (auto simp: x d split: prod.splits)
  have tick: "map_of (rl_blocked (limiter_tick rl now)) ip = Some \<lparr>bs_blocked_until = Some until, bs_reason = reason\<rparr>"
    using Cons.prems(1,2,5) by (simp add: x limiter_tick_fields(2) map_of_retain block_expired_def)
  have rl1: "map_of (rl_blocked rl1) ip = Some \<lparr>bs_blocked_until = Some until, bs_reason = reason\<rparr>"
    "distinct (map fst (rl_blocked rl1))" "ip \<notin> set (rl_exceptions rl1)"
    using limiter_check_step(6) [OF d HOL.refl, of ip] tick limiter_check_distinct [OF d] check_limits [OF d] Cons.prems(2,3)
    by (simp_all add: same_limits_def)
  have "a = ip \<Longrightarrow> d = IpBlocked False reason"
    using limiter_check_step(7) [OF d HOL.refl] tick Cons.prems(3) limiter_tick_fields(1) [of rl now]
    by (fastforce simp: same_limits_def)
  with Cons.IH [OF rl1 ds(2)] Cons.prems(5) show ?case by (auto simp: x ds)
qed

definition noisy_limiter :: RateLimiter where
  "noisy_limiter = snd (block_address_for (limiter_new 1 100 (secs 1) (secs 5) 0) (IpV4 10 0 0 1) 0 10)"

theorem blocked_until_expiry_witness:
  "set (decisions_for (IpV4 10 0 0 1) [(IpV4 10 0 0 1, 3), (IpV4 10 0 0 2, 4), (IpV4 10 0 0 1, 9)]
     (fst (check_all noisy_limiter [(IpV4 10 0 0 1, 3), (IpV4 10 0 0 2, 4), (IpV4 10 0 0 1, 9)]))) \<subseteq> {IpBlocked False Manual}"
proof -
  let ?xs = "[(IpV4 10 0 0 1, 3), (IpV4 10 0 0 2, 4), (IpV4 10 0 0 1, 9)] :: (IpAddr \<times> Instant) list"
  have f: "rl_blocked noisy_limiter = [(IpV4 10 0 0 1, \<lparr>bs_blocked_until = Some 10, bs_reason = Manual\<rparr>)]" "rl_exceptions noisy_limiter = []"
    by (simp_all add: noisy_limiter_def block_address_for_def block_address_for_with_reason_def insert_block_def Let_def
        limiter_new_def new_with_processing_budget_def normalize_limits_def normalize_duration_def)
  obtain ds rl' where r: "check_all noisy_limiter ?xs = (ds, rl')" by (metis prod.exhaust)
  have "set (decisions_for (IpV4 10 0 0 1) ?xs ds) \<subseteq> {IpBlocked False Manual}"
    using blocked_until_expiry [OF _ _ _ r, of "IpV4 10 0 0 1" 10 Manual] f by simp
  then show ?thesis using r by (simp only: fst_conv)
qed

section \<open>Runs of the processing budget\<close>

fun consume_all :: "rounding \<Rightarrow> RateLimiter \<Rightarrow> ((IpAddr \<times> usize) \<times> Instant) list \<Rightarrow> ProcessingBudgetDecision list" where
  "consume_all rnd rl [] = []"
| "consume_all rnd rl (((ip, cost), now) # xs) =
     (let (d, rl1) = consume_processing_budget rnd rl ip cost now in d # consume_all rnd rl1 xs)"

definition charged :: "ProcessingBudgetConfig \<Rightarrow> usize \<Rightarrow> ProcessingBudgetDecision \<Rightarrow> nat" where
  "charged c cost d = (if d = PbAllow then budget_cost c cost else 0)"

text \<open>The units granted to the addresses that satisfy \<open>P\<close>.\<close>

fun granted :: "ProcessingBudgetConfig \<Rightarrow> (IpAddr \<Rightarrow> bool) \<Rightarrow> ((IpAddr \<times> usize) \<times> Instant) list
    \<Rightarrow> ProcessingBudgetDecision list \<Rightarrow> nat" where
  "granted c P (((ip, cost), _) # xs) (d # ds) = (if P ip then charged c cost d else 0) + granted c P xs ds"
| "granted c P _ _ = 0"

abbreviation units :: "nat \<Rightarrow> Duration \<Rightarrow> real" where
  "units rate d \<equiv> real d / 1000000000 * real rate"

lemma bucket_refill_exact:
  assumes "0 \<le> tb_tokens b" "b' = bucket_refill id b now rate burst" "now \<le> T"
  shows "0 \<le> tb_tokens b'" "tb_tokens b' + units rate (T - tb_last_refill b') \<le> tb_tokens b + units rate (T - tb_last_refill b)"
proof -
  have split: "units rate (T - tb_last_refill b) = units rate (T - now) + units rate (now - tb_last_refill b)"
    if "tb_last_refill b < now" using that assms(3) by (simp add: field_simps of_nat_diff)
  have pos: "0 \<le> tb_tokens b + units rate (now - tb_last_refill b)" using assms(1) by simp
  show "0 \<le> tb_tokens b'"
    using assms(1) by (simp add: assms(2) bucket_refill_def Let_def f64_clamp_def)
  show "tb_tokens b' + units rate (T - tb_last_refill b') \<le> tb_tokens b + units rate (T - tb_last_refill b)"
  proof (cases "now \<le> tb_last_refill b")
    case False
    then have "tb_tokens b' \<le> tb_tokens b + units rate (now - tb_last_refill b)" "tb_last_refill b' = now"
      using pos by (simp_all add: assms(2) bucket_refill_def Let_def f64_clamp_def as_secs_f64_exact del: of_nat_diff)
    with split False show ?thesis by (simp add: add_divide_distrib)
  qed (simp add: assms(2) bucket_refill_def)
qed

lemma bucket_consume_exact:
  "can_consume b cost \<Longrightarrow> tb_tokens (bucket_consume id b cost) = tb_tokens b - real cost"
  "tb_last_refill (bucket_consume rnd b cost) = tb_last_refill b"
  by (simp_all add: can_consume_def bucket_consume_def)

definition global_potential :: "Instant \<Rightarrow> ProcessingBudgetState \<Rightarrow> real" where
  "global_potential T pb = tb_tokens (pb_global_bucket pb)
     + units (pc_global_refill_units_per_sec (pb_config pb)) (T - tb_last_refill (pb_global_bucket pb))"

text \<open>What an address can still be granted until \<open>T\<close>, seen at time \<open>t\<close>.\<close>

definition ip_potential :: "Instant \<Rightarrow> Instant \<Rightarrow> IpAddr \<Rightarrow> ProcessingBudgetState \<Rightarrow> real" where
  "ip_potential T t ip pb =
     (case map_of (pb_per_ip_buckets pb) ip of
        Some b \<Rightarrow> tb_tokens b + units (pc_per_ip_refill_units_per_sec (pb_config pb)) (T - tb_last_refill b)
      | None \<Rightarrow> real (pc_per_ip_burst_units (pb_config pb)) + units (pc_per_ip_refill_units_per_sec (pb_config pb)) (T - t))"

definition budget_ok :: "ProcessingBudgetState \<Rightarrow> bool" where
  "budget_ok pb \<longleftrightarrow> 0 \<le> tb_tokens (pb_global_bucket pb) \<and> keys_distinct (pb_per_ip_buckets pb)
     \<and> (\<forall>ip b. map_of (pb_per_ip_buckets pb) ip = Some b \<longrightarrow> 0 \<le> tb_tokens b)"

lemma budget_tick_fields:
  "pb_config (budget_tick pb now) = pb_config pb" "pb_global_bucket (budget_tick pb now) = pb_global_bucket pb"
  by (simp_all add: budget_tick_def)

lemma budget_tick_ok: "budget_ok pb \<Longrightarrow> budget_ok (budget_tick pb now)"
  by (auto simp: budget_ok_def budget_tick_def dest: map_of_retain_subset)

lemma budget_tick_ip:
  assumes "budget_ok pb" "pc_enabled (pb_config pb)" "t \<le> now" "now \<le> T"
    and ttl: "real (pc_per_ip_burst_units (pb_config pb)) \<le> units (pc_per_ip_refill_units_per_sec (pb_config pb)) (pc_bucket_idle_ttl (pb_config pb))"
  shows "ip_potential T now ip (budget_tick pb now) \<le> ip_potential T t ip pb"
proof -
  let ?c = "pb_config pb"
  let ?r = "pc_per_ip_refill_units_per_sec ?c"
  have later: "units ?r (T - now) \<le> units ?r (T - t)" using assms(3) by (simp add: divide_right_mono mult_right_mono)
  have idle: "real (pc_per_ip_burst_units ?c) + units ?r (T - now) \<le> tb_tokens b + units ?r (T - tb_last_refill b)"
    if b: "map_of (pb_per_ip_buckets pb) ip = Some b" "\<not> now - tb_last_refill b \<le> pc_bucket_idle_ttl ?c" for b
  proof -
    have "pc_bucket_idle_ttl ?c + (T - now) \<le> T - tb_last_refill b" using b(2) assms(4) by simp
    then have "units ?r (pc_bucket_idle_ttl ?c + (T - now)) \<le> units ?r (T - tb_last_refill b)"
      by (intro mult_right_mono divide_right_mono) simp_all
    moreover have "0 \<le> tb_tokens b" using assms(1) b(1) by (auto simp: budget_ok_def)
    ultimately show ?thesis using ttl by (simp add: algebra_simps add_divide_distrib)
  qed
  show ?thesis
    using assms(1,2) later idle
    by (auto simp: ip_potential_def budget_tick_def budget_ok_def map_of_retain split: option.splits)
qed

lemma budget_consume_step:
  assumes run: "budget_consume id pb ip cost now = (d, pb1)" and ok: "budget_ok pb" and en: "pc_enabled (pb_config pb)" and T: "now \<le> T"
  shows "budget_ok pb1" "pb_config pb1 = pb_config pb" "real (charged (pb_config pb) cost d) + global_potential T pb1 \<le> global_potential T pb"
    "(if a = ip then real (charged (pb_config pb) cost d) else 0) + ip_potential T now a pb1 \<le> ip_potential T now a pb"
proof -
  let ?c = "pb_config pb"
  let ?u = "budget_cost ?c cost"
  define g where "g = bucket_refill id (pb_global_bucket pb) now (pc_global_refill_units_per_sec ?c) (pc_global_burst_units ?c)"
  define b0 where "b0 = (case map_of (pb_per_ip_buckets pb) ip of Some b \<Rightarrow> b | None \<Rightarrow> with_full_tokens now (pc_per_ip_burst_units ?c))"
  define b where "b = bucket_refill id b0 now (pc_per_ip_refill_units_per_sec ?c) (pc_per_ip_burst_units ?c)"
  have b0: "0 \<le> tb_tokens b0" using ok by (auto simp: b0_def budget_ok_def with_full_tokens_def split: option.splits)
  note gr = bucket_refill_exact [OF _ g_def T] and br = bucket_refill_exact [OF b0 b_def T]
  have pot: "ip_potential T now ip pb = tb_tokens b0 + units (pc_per_ip_refill_units_per_sec ?c) (T - tb_last_refill b0)"
    by (simp add: ip_potential_def b0_def with_full_tokens_def split: option.splits)
  have g0: "0 \<le> tb_tokens (pb_global_bucket pb)" using ok by (simp add: budget_ok_def)
  have cases: "d = GlobalExhausted \<and> (\<exists>m. pb1 = pb\<lparr>pb_global_bucket := g, pb_metrics := m\<rparr>) \<or>
      d = IpExhausted \<and> (\<exists>m. pb1 = pb\<lparr>pb_global_bucket := g, pb_per_ip_buckets := AList.update ip b (pb_per_ip_buckets pb), pb_metrics := m\<rparr>) \<or>
      d = PbAllow \<and> can_consume g ?u \<and> can_consume b ?u \<and> (\<exists>m. pb1 = pb\<lparr>pb_global_bucket := bucket_consume id g ?u,
        pb_per_ip_buckets := AList.update ip (bucket_consume id b ?u) (AList.update ip b (pb_per_ip_buckets pb)), pb_metrics := m\<rparr>)"
    using run en unfolding budget_consume_def Let_def g_def [symmetric]
    by (auto simp: b0_def [symmetric] b_def [symmetric] split: if_splits)
  show "budget_ok pb1"
    using cases ok gr(1) [OF g0] br(1) by (auto simp: budget_ok_def update_map_of bucket_consume_def split: if_splits)
  show "pb_config pb1 = pb_config pb" using cases by auto
  show "real (charged (pb_config pb) cost d) + global_potential T pb1 \<le> global_potential T pb"
    using cases gr(2) [OF g0] by (auto simp: charged_def global_potential_def bucket_consume_exact)
  show "(if a = ip then real (charged (pb_config pb) cost d) else 0) + ip_potential T now a pb1 \<le> ip_potential T now a pb"
  proof (cases "a = ip")
    case True
    have "real (charged (pb_config pb) cost d) + ip_potential T now ip pb1 \<le> ip_potential T now ip pb"
      using cases
    proof (elim disjE conjE exE)
      fix m assume "d = GlobalExhausted" "pb1 = pb\<lparr>pb_global_bucket := g, pb_metrics := m\<rparr>"
      then show ?thesis by (simp add: charged_def ip_potential_def split: option.splits)
    qed (use br(2) in \<open>simp_all add: pot charged_def, simp_all add: ip_potential_def update_map_of bucket_consume_exact\<close>)
    with True show ?thesis by simp
  next
    case False
    then show ?thesis using cases by (auto simp: ip_potential_def update_map_of split: option.splits)
  qed
qed

text \<open>A run of the budget: the tick and the consumption of each datagram.\<close>

lemma consume_step:
  assumes run: "consume_processing_budget id rl ip cost now = (d, rl1)" and ok: "budget_ok (rl_processing_budget rl)"
    and c: "pb_config (rl_processing_budget rl) = c" "pc_enabled c" and T: "now \<le> T" "t \<le> now"
  shows "budget_ok (rl_processing_budget rl1)" "pb_config (rl_processing_budget rl1) = c"
    "real (charged c cost d) + global_potential T (rl_processing_budget rl1) \<le> global_potential T (rl_processing_budget rl)"
    "real (pc_per_ip_burst_units c) \<le> units (pc_per_ip_refill_units_per_sec c) (pc_bucket_idle_ttl c) \<Longrightarrow>
      (if a = ip then real (charged c cost d) else 0) + ip_potential T now a (rl_processing_budget rl1) \<le> ip_potential T t a (rl_processing_budget rl)"
proof -
  let ?pb = "rl_processing_budget rl"
  have tick: "rl_processing_budget (limiter_tick rl now) = budget_tick ?pb now"
    by (simp add: limiter_tick_def Let_def prune_expired_blocks_def count_unblocked_def rotate_window_if_needed_def reset_window_state_def)
  have bc: "budget_consume id (budget_tick ?pb now) ip cost now = (d, rl_processing_budget rl1)"
    using run by (auto simp: consume_processing_budget_def Let_def tick split: prod.splits)
  note f = budget_tick_fields [of ?pb now]
  have step: "budget_ok (rl_processing_budget rl1)" "pb_config (rl_processing_budget rl1) = pb_config (budget_tick ?pb now)"
    "real (charged (pb_config (budget_tick ?pb now)) cost d) + global_potential T (rl_processing_budget rl1) \<le> global_potential T (budget_tick ?pb now)"
    "(if a = ip then real (charged (pb_config (budget_tick ?pb now)) cost d) else 0) + ip_potential T now a (rl_processing_budget rl1) \<le> ip_potential T now a (budget_tick ?pb now)" for a
    by (rule budget_consume_step [OF bc budget_tick_ok [OF ok] _ T(1)]; simp add: f c)+
  show "budget_ok (rl_processing_budget rl1)" by (rule step(1))
  show "pb_config (rl_processing_budget rl1) = c" using step(2) by (simp add: f c)
  show "real (charged c cost d) + global_potential T (rl_processing_budget rl1) \<le> global_potential T ?pb"
    using step(3) by (simp add: global_potential_def f c)
  show "(if a = ip then real (charged c cost d) else 0) + ip_potential T now a (rl_processing_budget rl1) \<le> ip_potential T t a ?pb"
    if ttl: "real (pc_per_ip_burst_units c) \<le> units (pc_per_ip_refill_units_per_sec c) (pc_bucket_idle_ttl c)"
    using step(4) [of a] budget_tick_ip [OF ok _ T(2,1), of a] ttl c f by auto
qed

lemma consume_all_global:
  assumes "ordered_until t T xs" "budget_ok (rl_processing_budget rl)" "pb_config (rl_processing_budget rl) = c" "pc_enabled c"
  shows "real (granted c P xs (consume_all id rl xs)) \<le> global_potential T (rl_processing_budget rl)"
  using assms
proof (induction xs arbitrary: rl t)
  case (Cons x xs)
  obtain ip cost now where x: "x = ((ip, cost), now)" by (metis prod.exhaust)
  obtain d rl1 where d: "consume_processing_budget id rl ip cost now = (d, rl1)" by (metis prod.exhaust)
  have ord: "ordered_until now T xs" "t \<le> now" "now \<le> T" using Cons.prems(1) ordered_until_le by (auto simp: x)
  note step = consume_step [OF d Cons.prems(2-4) ord(3,2)]
  show ?case using Cons.IH [OF ord(1) step(1,2) Cons.prems(4)] step(3) by (auto simp: x d [unfolded id_def])
qed (simp add: global_potential_def budget_ok_def)

lemma consume_all_ip:
  assumes "ordered_until t T xs" "budget_ok (rl_processing_budget rl)" "pb_config (rl_processing_budget rl) = c" "pc_enabled c"
    and "real (pc_per_ip_burst_units c) \<le> units (pc_per_ip_refill_units_per_sec c) (pc_bucket_idle_ttl c)"
  shows "real (granted c (\<lambda>x. x = a) xs (consume_all id rl xs)) \<le> ip_potential T t a (rl_processing_budget rl)"
  using assms
proof (induction xs arbitrary: rl t)
  case (Cons x xs)
  obtain ip cost now where x: "x = ((ip, cost), now)" by (metis prod.exhaust)
  obtain d rl1 where d: "consume_processing_budget id rl ip cost now = (d, rl1)" by (metis prod.exhaust)
  have ord: "ordered_until now T xs" "t \<le> now" "now \<le> T" using Cons.prems(1) ordered_until_le by (auto simp: x)
  note step = consume_step [OF d Cons.prems(2-4) ord(3,2)]
  show ?case
    using Cons.IH [OF ord(1) step(1,2) Cons.prems(4,5)] step(4) [OF Cons.prems(5), of a] by (auto simp: x d [unfolded id_def] split: if_splits)
qed (auto simp: ip_potential_def budget_ok_def split: option.splits)



end
