(* ===== verification/SessionPipeline.thy ===== *)
theory SessionPipeline
  imports Framing SessionState
begin

text \<open>
  \<^verbatim>\<open>src/transport/session_pipeline.rs\<close>: application frames that arrive before a session is connected wait
  here, in order and within two limits, until it is.  An operation that appends to the caller's
  \<^verbatim>\<open>out\<close> vector returns what it appends.
\<close>

datatype PipelineFrameAction = Deliver | Queued | Overflow

record SessionPipeline =
  sp_pending_unhandled :: "Frame list"
  sp_pending_unhandled_bytes :: usize
  sp_max_unhandled_frames :: usize
  sp_max_unhandled_bytes :: usize
  sp_unhandled_frames_queued :: nat
  sp_unhandled_frames_flushed :: nat
  sp_unhandled_frames_dropped :: nat

record SessionPipelineMetricsSnapshot =
  pms_pending_unhandled_frames :: usize
  pms_pending_unhandled_bytes :: usize
  pms_unhandled_frames_queued :: nat
  pms_unhandled_frames_flushed :: nat
  pms_unhandled_frames_dropped :: nat

definition pipeline_new :: "usize \<Rightarrow> usize \<Rightarrow> SessionPipeline" where
  "pipeline_new max_unhandled_frames max_unhandled_bytes =
     \<lparr>sp_pending_unhandled = [], sp_pending_unhandled_bytes = 0,
      sp_max_unhandled_frames = max max_unhandled_frames 1, sp_max_unhandled_bytes = max max_unhandled_bytes 1,
      sp_unhandled_frames_queued = 0, sp_unhandled_frames_flushed = 0, sp_unhandled_frames_dropped = 0\<rparr>"

definition route_inbound_app_frame :: "SessionPipeline \<Rightarrow> SessionState \<Rightarrow> Frame
    \<Rightarrow> PipelineFrameAction \<times> Frame list \<times> SessionPipeline" where
  "route_inbound_app_frame p state frame =
     (if state = Connected then (Deliver, [frame], p)
      else let frame_bytes = length (fr_payload frame)
           in if length (sp_pending_unhandled p) \<ge> sp_max_unhandled_frames p
                \<or> sat_add (sp_pending_unhandled_bytes p) frame_bytes > sp_max_unhandled_bytes p
              then (Overflow, [], p\<lparr>sp_unhandled_frames_dropped := sat_add (sp_unhandled_frames_dropped p) 1\<rparr>)
              else (Queued, [],
                    p\<lparr>sp_pending_unhandled_bytes := sat_add (sp_pending_unhandled_bytes p) frame_bytes,
                      sp_pending_unhandled := sp_pending_unhandled p @ [frame],
                      sp_unhandled_frames_queued := sat_add (sp_unhandled_frames_queued p) 1\<rparr>))"

fun flush_frames :: "Frame list \<Rightarrow> usize \<Rightarrow> nat \<Rightarrow> usize \<times> nat" where
  "flush_frames [] pending_bytes flushed = (pending_bytes, flushed)"
| "flush_frames (frame # frames) pending_bytes flushed =
     flush_frames frames (pending_bytes - length (fr_payload frame)) (sat_add flushed 1)"

definition flush_if_connected :: "SessionPipeline \<Rightarrow> SessionState \<Rightarrow> usize \<times> Frame list \<times> SessionPipeline" where
  "flush_if_connected p state =
     (if state \<noteq> Connected \<or> sp_pending_unhandled p = [] then (0, [], p)
      else let (pending_bytes, flushed) = flush_frames (sp_pending_unhandled p) (sp_pending_unhandled_bytes p) 0
           in (flushed, sp_pending_unhandled p,
               p\<lparr>sp_pending_unhandled := [], sp_pending_unhandled_bytes := pending_bytes,
                 sp_unhandled_frames_flushed := sat_add (sp_unhandled_frames_flushed p) flushed\<rparr>))"

definition pipeline_metrics_snapshot :: "SessionPipeline \<Rightarrow> SessionPipelineMetricsSnapshot" where
  "pipeline_metrics_snapshot p =
     \<lparr>pms_pending_unhandled_frames = length (sp_pending_unhandled p),
      pms_pending_unhandled_bytes = sp_pending_unhandled_bytes p,
      pms_unhandled_frames_queued = sp_unhandled_frames_queued p,
      pms_unhandled_frames_flushed = sp_unhandled_frames_flushed p,
      pms_unhandled_frames_dropped = sp_unhandled_frames_dropped p\<rparr>"

section \<open>What the pipeline promises\<close>

abbreviation payload_bytes :: "Frame list \<Rightarrow> nat" where
  "payload_bytes fs \<equiv> sum_list (map (\<lambda>f. length (fr_payload f)) fs)"

definition pipeline_ok :: "SessionPipeline \<Rightarrow> bool" where
  "pipeline_ok p \<longleftrightarrow>
     sp_pending_unhandled_bytes p = payload_bytes (sp_pending_unhandled p) \<and>
     length (sp_pending_unhandled p) \<le> sp_max_unhandled_frames p \<and>
     sp_pending_unhandled_bytes p \<le> sp_max_unhandled_bytes p"

fun route_all :: "SessionPipeline \<Rightarrow> SessionState \<Rightarrow> Frame list \<Rightarrow> PipelineFrameAction list \<times> Frame list \<times> SessionPipeline" where
  "route_all p state [] = ([], [], p)"
| "route_all p state (f # fs) =
     (let (a, out, p1) = route_inbound_app_frame p state f;
          (acts, outs, p2) = route_all p1 state fs
      in (a # acts, out @ outs, p2))"

lemma pipeline_new_ok: "pipeline_ok (pipeline_new mf mb)"
  by (simp add: pipeline_ok_def pipeline_new_def)

lemma sat_add_within: "sat_add a b \<le> m \<Longrightarrow> m < U64_MAX \<Longrightarrow> sat_add a b = a + b"
  by (simp add: sat_add_def min_def split: if_splits)

lemma route_inbound_ok:
  assumes "route_inbound_app_frame p state f = (a, out, p')" "pipeline_ok p" "sp_max_unhandled_bytes p < U64_MAX"
  shows "pipeline_ok p'" "sp_max_unhandled_bytes p' = sp_max_unhandled_bytes p"
    "sp_max_unhandled_frames p' = sp_max_unhandled_frames p"
  using assms sat_add_within [of "sp_pending_unhandled_bytes p" "length (fr_payload f)" "sp_max_unhandled_bytes p"]
  by (auto simp: route_inbound_app_frame_def pipeline_ok_def Let_def split: if_splits)

lemma flush_frames_bytes: "fst (flush_frames fs b n) = b - payload_bytes fs"
  by (induction fs b n rule: flush_frames.induct) auto

lemma flush_frames_count: "n \<le> U64_MAX \<Longrightarrow> snd (flush_frames fs b n) = sat_add n (length fs)"
  by (induction fs b n rule: flush_frames.induct) (auto simp: sat_add_def min_def)

lemma flush_if_connected_ok:
  assumes "pipeline_ok p" "flush_if_connected p state = (n, out, p')"
  shows "pipeline_ok p'" "state = Connected \<Longrightarrow> out = sp_pending_unhandled p \<and> sp_pending_unhandled p' = []"
    "state \<noteq> Connected \<Longrightarrow> out = [] \<and> p' = p"
  using assms by (auto simp: flush_if_connected_def pipeline_ok_def split_beta Let_def flush_frames_bytes split: if_splits)

lemma route_all_waiting:
  assumes "state \<noteq> Connected" "route_all p state fs = (acts, outs, p')" "pipeline_ok p" "sp_max_unhandled_bytes p < U64_MAX"
  shows "outs = [] \<and> length acts = length fs \<and> pipeline_ok p'
    \<and> sp_pending_unhandled p' = sp_pending_unhandled p @ map snd (filter (\<lambda>(a, f). a = Queued) (zip acts fs))
    \<and> sp_max_unhandled_frames p' = sp_max_unhandled_frames p \<and> sp_max_unhandled_bytes p' = sp_max_unhandled_bytes p"
  using assms(2-4)
proof (induction fs arbitrary: p acts outs)
  case (Cons f fs)
  obtain a out p1 where 1: "route_inbound_app_frame p state f = (a, out, p1)" by (metis prod_cases3)
  obtain acts' outs' where 2: "route_all p1 state fs = (acts', outs', p')" and split: "acts = a # acts'" "outs = out @ outs'"
    using Cons.prems(1) 1 by (auto split: prod.splits)
  note ok = route_inbound_ok [OF 1 Cons.prems(2,3)]
  have head: "out = [] \<and> (a = Queued \<and> sp_pending_unhandled p1 = sp_pending_unhandled p @ [f]
      \<or> a = Overflow \<and> sp_pending_unhandled p1 = sp_pending_unhandled p)"
    using 1 assms(1) by (auto simp: route_inbound_app_frame_def Let_def split: if_splits)
  from Cons.IH [OF 2 ok(1)] ok(2,3) Cons.prems(3) head show ?case by (auto simp: split)
qed auto


definition waiting_frame :: "u8 \<Rightarrow> Frame" where
  "waiting_frame b =
     \<lparr>fr_header = \<lparr>fh_reliability = Unreliable, fh_is_split = False, fh_needs_bas = False\<rparr>, fr_bit_length = 32,
      fr_reliable_index = None, fr_sequence_index = None, fr_ordering_index = None, fr_ordering_channel = None,
      fr_split = None, fr_payload = [b, 0, 0, 0]\<rparr>"


end
