(* ===== verification/Connected.thy ===== *)
theory Connected
  imports Primitives
begin

text \<open>
  \<^verbatim>\<open>src/protocol/connected.rs\<close>: the control packets of an established session (ping, pong,
  connection request and acceptance, new incoming connection, disconnect, lost connection).
\<close>

definition SYSTEM_ADDRESS_COUNT :: usize where "SYSTEM_ADDRESS_COUNT = 10"

definition ID_CONNECTED_PING :: u8 where "ID_CONNECTED_PING = 0x00"
definition ID_CONNECTED_PONG :: u8 where "ID_CONNECTED_PONG = 0x03"
definition ID_CONNECTION_REQUEST :: u8 where "ID_CONNECTION_REQUEST = 0x09"
definition ID_CONNECTION_REQUEST_ACCEPTED :: u8 where "ID_CONNECTION_REQUEST_ACCEPTED = 0x10"
definition ID_NEW_INCOMING_CONNECTION :: u8 where "ID_NEW_INCOMING_CONNECTION = 0x13"
definition ID_DISCONNECTION_NOTIFICATION :: u8 where "ID_DISCONNECTION_NOTIFICATION = 0x15"
definition ID_DETECT_LOST_CONNECTION :: u8 where "ID_DETECT_LOST_CONNECTION = 0x04"

lemmas connected_id_defs =
  ID_CONNECTED_PING_def ID_CONNECTED_PONG_def ID_CONNECTION_REQUEST_def
  ID_CONNECTION_REQUEST_ACCEPTED_def ID_NEW_INCOMING_CONNECTION_def
  ID_DISCONNECTION_NOTIFICATION_def ID_DETECT_LOST_CONNECTION_def

text \<open>
  The payload structs, with the fields in the order of the source: \<open>ConnectedPing ping_time\<close>,
  \<open>ConnectedPong ping_time pong_time\<close>, \<open>ConnectionRequest client_guid request_time use_encryption\<close>,
  \<open>ConnectionRequestAccepted client_addr system_index internal_addrs request_time accepted_time\<close>,
  \<open>NewIncomingConnection server_addr internal_addrs request_time accepted_time\<close>,
  \<open>DisconnectionNotification reason\<close>.
\<close>

datatype ConnectedControlPacket =
    ConnectedPing i64
  | ConnectedPong i64 i64
  | ConnectionRequest u64 i64 bool
  | ConnectionRequestAccepted SocketAddr u16 "SocketAddr list" i64 i64
  | NewIncomingConnection SocketAddr "SocketAddr list" i64 i64
  | DisconnectionNotification "u8 option"
  | DetectLostConnection

fun control_id :: "ConnectedControlPacket \<Rightarrow> u8" where
  "control_id (ConnectedPing _) = ID_CONNECTED_PING"
| "control_id (ConnectedPong _ _) = ID_CONNECTED_PONG"
| "control_id (ConnectionRequest _ _ _) = ID_CONNECTION_REQUEST"
| "control_id (ConnectionRequestAccepted _ _ _ _ _) = ID_CONNECTION_REQUEST_ACCEPTED"
| "control_id (NewIncomingConnection _ _ _ _) = ID_NEW_INCOMING_CONNECTION"
| "control_id (DisconnectionNotification _) = ID_DISCONNECTION_NOTIFICATION"
| "control_id DetectLostConnection = ID_DETECT_LOST_CONNECTION"

fun control_body :: "ConnectedControlPacket \<Rightarrow> encoded list" where
  "control_body (ConnectedPing ping_time) = [i64_encode ping_time]"
| "control_body (ConnectedPong ping_time pong_time) = [i64_encode ping_time, i64_encode pong_time]"
| "control_body (ConnectionRequest client_guid request_time use_encryption) =
     [u64_encode client_guid, i64_encode request_time, bool_encode use_encryption]"
| "control_body (ConnectionRequestAccepted client_addr system_index internal_addrs request_time accepted_time) =
     [socket_addr_encode client_addr, u16_encode system_index]
     @ map socket_addr_encode internal_addrs
     @ [i64_encode request_time, i64_encode accepted_time]"
| "control_body (NewIncomingConnection server_addr internal_addrs request_time accepted_time) =
     [socket_addr_encode server_addr]
     @ map socket_addr_encode internal_addrs
     @ [i64_encode request_time, i64_encode accepted_time]"
| "control_body (DisconnectionNotification reason) =
     (case reason of Some r \<Rightarrow> [u8_encode r] | None \<Rightarrow> [])"
| "control_body DetectLostConnection = []"

definition control_encode :: "ConnectedControlPacket \<Rightarrow> encoded" where
  "control_encode p = put_all (u8_encode (control_id p) # control_body p)"

definition control_decode :: "ConnectedControlPacket decoder" where
  "control_decode =
     dbind u8_decode (\<lambda>pkt_id.
       if pkt_id = ID_CONNECTED_PING then dmap ConnectedPing i64_decode
       else if pkt_id = ID_CONNECTED_PONG then
         dbind i64_decode (\<lambda>ping_time. dmap (ConnectedPong ping_time) i64_decode)
       else if pkt_id = ID_CONNECTION_REQUEST then
         dbind u64_decode (\<lambda>client_guid. dbind i64_decode (\<lambda>request_time.
           dmap (ConnectionRequest client_guid request_time) bool_decode))
       else if pkt_id = ID_CONNECTION_REQUEST_ACCEPTED then
         dbind socket_addr_decode (\<lambda>client_addr. dbind u16_decode (\<lambda>system_index.
         dbind (dtimes SYSTEM_ADDRESS_COUNT socket_addr_decode) (\<lambda>internal_addrs.
         dbind i64_decode (\<lambda>request_time.
           dmap (ConnectionRequestAccepted client_addr system_index internal_addrs request_time)
             i64_decode))))
       else if pkt_id = ID_NEW_INCOMING_CONNECTION then
         dbind socket_addr_decode (\<lambda>server_addr.
         dbind (dtimes SYSTEM_ADDRESS_COUNT socket_addr_decode) (\<lambda>internal_addrs.
         dbind i64_decode (\<lambda>request_time.
           dmap (NewIncomingConnection server_addr internal_addrs request_time) i64_decode)))
       else if pkt_id = ID_DISCONNECTION_NOTIFICATION then
         (\<lambda>src. if src \<noteq> [] then dmap (\<lambda>r. DisconnectionNotification (Some r)) u8_decode src
                else Inr (DisconnectionNotification None, src))
       else if pkt_id = ID_DETECT_LOST_CONNECTION then dret DetectLostConnection
       else dfail (InvalidConnectedPacketId pkt_id))"

text \<open>Arrays \<^verbatim>\<open>[SocketAddr; SYSTEM_ADDRESS_COUNT]\<close> have ten elements, IPv6 addresses sixteen octets.\<close>

fun control_ok :: "ConnectedControlPacket \<Rightarrow> bool" where
  "control_ok (ConnectionRequestAccepted a _ as _ _) =
     (addr_ok a \<and> list_all addr_ok as \<and> length as = SYSTEM_ADDRESS_COUNT)"
| "control_ok (NewIncomingConnection a as _ _) =
     (addr_ok a \<and> list_all addr_ok as \<and> length as = SYSTEM_ADDRESS_COUNT)"
| "control_ok _ = True"

lemma addrs_put_all: "\<exists>bs. put_all (map socket_addr_encode as) = Inr bs"
proof (induction as)
  case (Cons a as)
  then obtain bs where "put_all (map socket_addr_encode as) = Inr bs" by blast
  then show ?case using socket_addr_encode_total [of a] by auto
qed simp

lemma put_all_append_Inr:
  "put_all es = Inr a \<Longrightarrow> put_all (es @ es') = (case put_all es' of Inl e \<Rightarrow> Inl e | Inr b \<Rightarrow> Inr (a @ b))"
  by (simp add: put_all_append split: sum.splits)

lemma control_encode_total: "\<exists>bs. control_encode p = Inr bs"
proof (cases p)
  case (ConnectionRequestAccepted a i as r t)
  then show ?thesis
    using socket_addr_encode_total [of a] addrs_put_all [of as]
    by (auto simp: control_encode_def int_encode_eq put_all_append_Inr)
next
  case (NewIncomingConnection a as r t)
  then show ?thesis
    using socket_addr_encode_total [of a] addrs_put_all [of as]
    by (auto simp: control_encode_def int_encode_eq put_all_append_Inr)
qed (auto simp: control_encode_def int_encode_eq bool_encode_def split: option.splits)

lemma control_enc_dec:
  assumes ok: "control_ok p" and enc: "control_encode p = Inr bs"
  shows "control_decode bs = Inr (p, [])"
proof (cases p)
  case (ConnectionRequestAccepted a i as r t)
  obtain ab where a: "socket_addr_encode a = Inr ab" using socket_addr_encode_total by blast
  obtain asb where as: "put_all (map socket_addr_encode as) = Inr asb" using addrs_put_all by blast
  have ok': "addr_ok a" "list_all addr_ok as" "length as = SYSTEM_ADDRESS_COUNT"
    using ok ConnectionRequestAccepted by simp_all
  have bs: "bs = ID_CONNECTION_REQUEST_ACCEPTED # ab @ be_bytes 2 i @ asb @ be_bytes 8 r @ be_bytes 8 t"
    using enc by (simp add: ConnectionRequestAccepted control_encode_def a int_encode_eq
        put_all_append_Inr [OF as])
  have "dtimes SYSTEM_ADDRESS_COUNT socket_addr_decode (asb @ rest) = Inr (as, rest)" for rest
    using addrc.dtimes_enc [OF ok'(2) as] ok'(3) by simp
  with addrc.enc_dec [OF ok'(1) a] i64c.enc_dec [of t "be_bytes 8 t" "[]"] show ?thesis
    by (simp add: bs control_decode_def dbind_Inr dmap_Inr connected_id_defs
        ConnectionRequestAccepted int_encode_eq)
next
  case (NewIncomingConnection a as r t)
  obtain ab where a: "socket_addr_encode a = Inr ab" using socket_addr_encode_total by blast
  obtain asb where as: "put_all (map socket_addr_encode as) = Inr asb" using addrs_put_all by blast
  have ok': "addr_ok a" "list_all addr_ok as" "length as = SYSTEM_ADDRESS_COUNT"
    using ok NewIncomingConnection by simp_all
  have bs: "bs = ID_NEW_INCOMING_CONNECTION # ab @ asb @ be_bytes 8 r @ be_bytes 8 t"
    using enc by (simp add: NewIncomingConnection control_encode_def a int_encode_eq
        put_all_append_Inr [OF as])
  have "dtimes SYSTEM_ADDRESS_COUNT socket_addr_decode (asb @ rest) = Inr (as, rest)" for rest
    using addrc.dtimes_enc [OF ok'(2) as] ok'(3) by simp
  with addrc.enc_dec [OF ok'(1) a] i64c.enc_dec [of t "be_bytes 8 t" "[]"] show ?thesis
    by (simp add: bs control_decode_def dbind_Inr dmap_Inr connected_id_defs
        NewIncomingConnection int_encode_eq)
next
  case (ConnectedPing t)
  then show ?thesis using enc i64c.enc_dec [of t "be_bytes 8 t" "[]"]
    by (auto simp: control_encode_def control_decode_def dbind_Inr dmap_Inr connected_id_defs int_encode_eq)
next
  case (ConnectedPong t u)
  then show ?thesis using enc i64c.enc_dec [of u "be_bytes 8 u" "[]"]
    by (auto simp: control_encode_def control_decode_def dbind_Inr dmap_Inr connected_id_defs int_encode_eq)
next
  case (ConnectionRequest g t e)
  then show ?thesis using enc
    by (auto simp: control_encode_def control_decode_def dbind_Inr dmap_Inr connected_id_defs
        int_encode_eq bool_encode_def)
qed (use enc in \<open>auto simp: control_encode_def control_decode_def dbind_Inr dmap_Inr connected_id_defs
      split: option.splits\<close>)

text \<open>C21: every control packet has an encoding, and decoding it gives the packet back.\<close>

theorem control_roundtrip:
  assumes "control_ok p"
  shows "\<exists>bs. control_encode p = Inr bs \<and> control_decode bs = Inr (p, [])"
  using control_encode_total [of p] control_enc_dec [OF assms] by blast

theorem control_roundtrip_witness:
  "\<exists>bs. control_encode (ConnectionRequestAccepted (V4 127 0 0 1 19132) 3 (replicate 10 (V6 (replicate 16 1) 7 0 0)) 5 6) = Inr bs
     \<and> control_decode bs = Inr (ConnectionRequestAccepted (V4 127 0 0 1 19132) 3 (replicate 10 (V6 (replicate 16 1) 7 0 0)) 5 6, [])"
  by (rule control_roundtrip) code_simp

end
