(* ===== verification/SessionReceive.thy ===== *)
theory SessionReceive
  imports Session
begin

text \<open>
  \<^verbatim>\<open>src/session/mod.rs\<close>, lines 447 to 616: what a session does with a datagram it receives.  The
  sequence number is acknowledged and the gap before it reported missing; the frames go through
  duplicate detection, reassembly and the ordering channels.
\<close>

section \<open>Acknowledging the datagram\<close>

definition push_ack :: "Session \<Rightarrow> SequenceRange \<Rightarrow> Instant \<Rightarrow> Session" where
  "push_ack s r now =
     (let ack_was_empty = ackq_is_empty (ss_outgoing_acks s);
          s1 = s\<lparr>ss_outgoing_acks := ackq_push (ss_outgoing_acks s) r\<rparr>
      in if ack_was_empty then s1\<lparr>ss_next_ack_flush_at := now + ss_ack_flush_interval s1\<rparr> else s1)"

definition push_nack :: "Session \<Rightarrow> SequenceRange \<Rightarrow> Instant \<Rightarrow> Session" where
  "push_nack s r now =
     (let nack_was_empty = ackq_is_empty (ss_outgoing_nacks s);
          s1 = s\<lparr>ss_outgoing_nacks := ackq_push (ss_outgoing_nacks s) r\<rparr>
      in if nack_was_empty then s1\<lparr>ss_next_nack_flush_at := now + ss_nack_flush_interval s1\<rparr> else s1)"

text \<open>The inner loop: the end of a chunk of at most \<open>room + 1\<close> numbers.\<close>

fun chunk_end :: "nat \<Rightarrow> Sequence24 \<Rightarrow> Sequence24 \<Rightarrow> Sequence24" where
  "chunk_end 0 cur nack_end = cur"
| "chunk_end (Suc room) cur nack_end =
     (if seq_lt cur nack_end then chunk_end room (seq_next cur) nack_end else cur)"

lemma chunk_end_offset:
  "\<exists>j \<le> room. chunk_end room cur nack_end = cur + of_nat j \<and> j \<le> offset cur nack_end"
proof (induction room cur nack_end rule: chunk_end.induct)
  case (2 room cur nack_end)
  show ?case
  proof (cases "seq_lt cur nack_end")
    case True
    then obtain j where j: "j \<le> room" "chunk_end room (cur + 1) nack_end = cur + 1 + of_nat j"
      "j \<le> offset (cur + 1) nack_end" using 2 by (auto simp: seq_next_eq)
    have "0 < offset cur nack_end" using True by (auto simp: seq_lt_iff unat_gt_0)
    then have "offset (cur + 1) nack_end = offset cur nack_end - 1"
      using offset_advance [where j = 1 and a = cur and b = nack_end] by simp
    with j True \<open>0 < offset cur nack_end\<close> show ?thesis
      by (intro exI [of _ "Suc j"]) (auto simp: seq_next_eq ac_simps)
  next
    case False
    then show ?thesis by (intro exI [of _ 0]) auto
  qed
qed auto

text \<open>The outer loop over chunks of at most \<^verbatim>\<open>MAX_ACK_SEQUENCES\<close> numbers.\<close>

function nack_gap :: "Session \<Rightarrow> Sequence24 \<Rightarrow> Sequence24 \<Rightarrow> Instant \<Rightarrow> Session" where
  "nack_gap s nack_start nack_end now =
     (let ce = chunk_end (unat (MAX_ACK_SEQUENCES - 1)) nack_start nack_end;
          s1 = push_nack s (mk_range nack_start ce) now
      in if ce = nack_end then s1 else nack_gap s1 (seq_next ce) nack_end now)"
  by pat_completeness auto

lemma nack_gap_progress:
  assumes "chunk_end room a b \<noteq> b"
  shows "offset (seq_next (chunk_end room a b)) b < offset a b"
proof -
  obtain j where j: "chunk_end room a b = a + of_nat j" "j \<le> offset a b"
    using chunk_end_offset by blast
  have "j \<noteq> offset a b"
  proof
    assume "j = offset a b"
    then have "offset (a + of_nat j) b = 0" using offset_advance [OF j(2)] by simp
    with assms j(1) show False by (simp only: offset_zero_iff)
  qed
  with j have "Suc j \<le> offset a b" by simp
  from offset_advance [OF this] show ?thesis
    using j \<open>Suc j \<le> offset a b\<close> by (simp add: seq_next_eq ac_simps)
qed

termination nack_gap
  by (relation "measure (\<lambda>(s, a, b, now). offset a b)") (auto intro: nack_gap_progress)

declare nack_gap.simps [simp del]

definition process_datagram_sequence :: "Session \<Rightarrow> Sequence24 \<Rightarrow> Instant \<Rightarrow> Session" where
  "process_datagram_sequence s seq now =
     (let expected = ss_datagram_read_index s
      in if seq_gt expected seq then push_ack s (mk_range seq seq) now
         else let s1 = s\<lparr>ss_datagram_read_index := seq_next seq\<rparr>
              in if seq = expected then push_ack s1 (mk_range seq seq) now
                 else push_ack (nack_gap s1 expected (seq_prev seq) now) (mk_range seq seq) now)"

section \<open>Frames\<close>

text \<open>The part of the loop body after reassembly.\<close>

definition deliver_frame :: "Session \<Rightarrow> Frame \<Rightarrow> Frame list \<times> Session" where
  "deliver_frame s frame =
     (if is_sequenced (fr_rel frame) then
        (let (res, oc) = handle_sequenced (ss_ordering s) frame; s1 = s\<lparr>ss_ordering := oc\<rparr>
         in case res of
              Accept \<Rightarrow> ([frame], s1)
            | DropMissingSequence \<Rightarrow> ([], bump m_sequenced_missing_index_drops_update s1)
            | DropStale \<Rightarrow> ([], bump m_sequenced_stale_drops_update s1))
      else if is_ordered (fr_rel frame) then
        (let (res, oc) = handle_ordered (ss_ordering s) frame; s1 = s\<lparr>ss_ordering := oc\<rparr>
         in case res of
              Ready ready \<Rightarrow> (ready, s1)
            | Buffered \<Rightarrow> ([], s1)
            | DroppedStale \<Rightarrow> ([], bump m_ordered_stale_drops_update s1)
            | DroppedBufferFull \<Rightarrow> ([], bump m_ordered_buffer_full_drops_update s1))
      else ([frame], s))"

definition is_duplicate :: "Session \<Rightarrow> Frame \<Rightarrow> bool" where
  "is_duplicate s frame \<longleftrightarrow>
     (let should_drop_duplicate = is_reliable (fr_rel frame) \<and> \<not> fh_is_split (fr_header frame)
      in should_drop_duplicate
         \<and> (case fr_reliable_index frame of
              Some ridx \<Rightarrow> has_seen (ss_reliable_tracker s) ridx | None \<Rightarrow> False))"

definition mark_seen :: "Session \<Rightarrow> bool \<Rightarrow> Frame \<Rightarrow> Session" where
  "mark_seen s is_split frame =
     (if \<not> is_split \<and> is_reliable (fr_rel frame)
      then case fr_reliable_index frame of
             Some ridx \<Rightarrow> s\<lparr>ss_reliable_tracker := snd (tracker_see (ss_reliable_tracker s) ridx)\<rparr>
           | None \<Rightarrow> s
      else s)"

text \<open>The loop body: what one frame adds to the output.\<close>

definition handle_frame :: "Session \<Rightarrow> Frame \<Rightarrow> Instant \<Rightarrow> (DecodeError + Frame list) \<times> Session" where
  "handle_frame s frame now =
     (if is_duplicate s frame then (Inr [], bump m_duplicate_reliable_drops_update s)
      else let (assembled, sa) = split_add (ss_split_assembler s) frame now;
               s1 = s\<lparr>ss_split_assembler := sa\<rparr>
           in case assembled of
                Inl e \<Rightarrow> (Inl e, s1)
              | Inr None \<Rightarrow> (Inr [], s1)
              | Inr (Some frame') \<Rightarrow>
                  (let (out, s2) = deliver_frame (mark_seen s1 (fh_is_split (fr_header frame)) frame') frame'
                   in (Inr out, s2)))"

text \<open>\<^verbatim>\<open>handle_frames\<close>: an error ends the loop and discards what was collected, not the state.\<close>

fun handle_frames :: "Session \<Rightarrow> Frame list \<Rightarrow> Instant \<Rightarrow> Frame list \<Rightarrow> (DecodeError + Frame list) \<times> Session" where
  "handle_frames s [] now out = (Inr out, s)"
| "handle_frames s (frame # frames) now out =
     (case handle_frame s frame now of
        (Inl e, s1) \<Rightarrow> (Inl e, s1)
      | (Inr fs, s1) \<Rightarrow> handle_frames s1 frames now (out @ fs))"

definition handle_ack_payload :: "Session \<Rightarrow> AckNackPayload \<Rightarrow> Session" where
  "handle_ack_payload s payload = s\<lparr>ss_incoming_acks := ss_incoming_acks s @ ann_ranges payload\<rparr>"

definition handle_nack_payload :: "Session \<Rightarrow> AckNackPayload \<Rightarrow> Session" where
  "handle_nack_payload s payload = s\<lparr>ss_incoming_nacks := ss_incoming_nacks s @ ann_ranges payload\<rparr>"

definition ingest_datagram :: "Session \<Rightarrow> Datagram \<Rightarrow> Instant \<Rightarrow> (DecodeError + Frame list) \<times> Session" where
  "ingest_datagram s0 datagram now =
     (let s = bump m_ingress_datagrams_update s0
      in case dg_payload datagram of
           Ack payload \<Rightarrow> (Inr [], handle_ack_payload s payload)
         | Nack payload \<Rightarrow> (Inr [], handle_nack_payload s payload)
         | Frames frames \<Rightarrow>
             (let s1 = s\<lparr>ss_metrics := (ss_metrics s)\<lparr>m_ingress_frames := sat_add (m_ingress_frames (ss_metrics s)) (length frames)\<rparr>\<rparr>;
                  s2 = process_datagram_sequence s1 (dh_sequence (dg_header datagram)) now
              in handle_frames s2 frames now []))"

section \<open>The gap before a datagram\<close>

lemma push_ack_fields [simp]:
  "ss_outgoing_acks (push_ack s r now) = ackq_push (ss_outgoing_acks s) r"
  "ss_outgoing_nacks (push_ack s r now) = ss_outgoing_nacks s"
  "ss_datagram_read_index (push_ack s r now) = ss_datagram_read_index s"
  "ss_reliable_tracker (push_ack s r now) = ss_reliable_tracker s"
  "ss_split_assembler (push_ack s r now) = ss_split_assembler s"
  "ss_ordering (push_ack s r now) = ss_ordering s"
  by (simp_all add: push_ack_def Let_def)

lemma push_nack_fields [simp]:
  "ss_outgoing_nacks (push_nack s r now) = ackq_push (ss_outgoing_nacks s) r"
  "ss_outgoing_acks (push_nack s r now) = ss_outgoing_acks s"
  "ss_datagram_read_index (push_nack s r now) = ss_datagram_read_index s"
  "ss_reliable_tracker (push_nack s r now) = ss_reliable_tracker s"
  "ss_split_assembler (push_nack s r now) = ss_split_assembler s"
  "ss_ordering (push_nack s r now) = ss_ordering s"
  by (simp_all add: push_nack_def Let_def)

lemma nack_gap_fields [simp]:
  "ss_outgoing_acks (nack_gap s a b now) = ss_outgoing_acks s"
  "ss_datagram_read_index (nack_gap s a b now) = ss_datagram_read_index s"
  "ss_reliable_tracker (nack_gap s a b now) = ss_reliable_tracker s"
  "ss_split_assembler (nack_gap s a b now) = ss_split_assembler s"
  "ss_ordering (nack_gap s a b now) = ss_ordering s"
  "aq_max_ranges (ss_outgoing_nacks (nack_gap s a b now)) = aq_max_ranges (ss_outgoing_nacks s)"
  by (induction s a b now rule: nack_gap.induct; subst nack_gap.simps; simp add: Let_def)+

lemma nack_gap_bounded:
  "length (aq_queue (ss_outgoing_nacks s)) \<le> aq_max_ranges (ss_outgoing_nacks s) \<Longrightarrow>
     length (aq_queue (ss_outgoing_nacks (nack_gap s a b now))) \<le> aq_max_ranges (ss_outgoing_nacks s)"
proof (induction s a b now rule: nack_gap.induct)
  case (1 s a b now)
  then show ?case by (subst nack_gap.simps) (simp add: Let_def ackq_push_bounded)
qed

text \<open>
  Chunks of one gap are adjacent, so the queue merges them: a gap pushed on an empty queue is one
  range, whatever its length.
\<close>

lemma ackq_push_adjacent:
  assumes "aq_queue q = [mk_range a (c - 1)]" and "1 < aq_max_ranges q"
  shows "ackq_push q (mk_range c d) = q\<lparr>aq_queue := [mk_range a d]\<rparr>"
  using assms by (subst ackq_push.simps) (simp add: try_merge_def merge_last_def seq_next_eq)

lemma ackq_push_first:
  assumes "aq_queue q = []" and "1 < aq_max_ranges q"
  shows "ackq_push q (mk_range a d) = q\<lparr>aq_queue := [mk_range a d]\<rparr>"
proof (cases "split_wrapping (mk_range a d)")
  case None
  then show ?thesis using assms by (subst ackq_push.simps) (simp add: try_merge_def)
next
  case (Some lr)
  then have lr: "split_wrapping (mk_range a d) = Some (mk_range a (seq_new 0x00FFFFFF), mk_range (seq_new 0) d)"
    by (auto simp: split_wrapping_def split: if_splits)
  have "\<not> range_wraps (mk_range a (seq_new 0x00FFFFFF))" using split_wrapping_set(2) [OF lr] .
  then have left: "ackq_push q (mk_range a (seq_new 0x00FFFFFF)) = q\<lparr>aq_queue := [mk_range a (seq_new 0x00FFFFFF)]\<rparr>"
    using assms by (subst ackq_push.simps) (simp add: try_merge_def split_wrapping_def)
  have "seq_new 0x00FFFFFF = seq_new 0 - 1" by (simp add: seq_new_eq)
  then show ?thesis
    using assms lr left ackq_push_adjacent [of "ackq_push q (mk_range a (seq_new 0x00FFFFFF))" a "seq_new 0" d]
    by (subst ackq_push.simps) (simp add: try_merge_def)
qed

lemma nack_gap_continue:
  "aq_queue (ss_outgoing_nacks s) = [mk_range a0 (a - 1)] \<Longrightarrow> 1 < aq_max_ranges (ss_outgoing_nacks s) \<Longrightarrow>
     aq_queue (ss_outgoing_nacks (nack_gap s a b now)) = [mk_range a0 b]"
proof (induction s a b now rule: nack_gap.induct)
  case (1 s a b now)
  then show ?case
    by (subst nack_gap.simps) (simp add: Let_def ackq_push_adjacent seq_next_eq)
qed

lemma nack_gap_first:
  assumes "aq_queue (ss_outgoing_nacks s) = []" and "1 < aq_max_ranges (ss_outgoing_nacks s)"
  shows "aq_queue (ss_outgoing_nacks (nack_gap s a b now)) = [mk_range a b]"
proof -
  let ?ce = "chunk_end (unat (MAX_ACK_SEQUENCES - 1)) a b"
  let ?s = "push_nack s (mk_range a ?ce) now"
  have q: "ss_outgoing_nacks ?s = (ss_outgoing_nacks s)\<lparr>aq_queue := [mk_range a ?ce]\<rparr>"
    using assms by (simp add: ackq_push_first)
  then show ?thesis
    using nack_gap_continue [of ?s a "seq_next ?ce" b now] assms ackq_push_first [OF assms, of a b]
    by (subst nack_gap.simps) (auto simp: Let_def seq_next_eq)
qed

section \<open>What the receive path keeps bounded\<close>

definition receive_ok :: "Session \<Rightarrow> bool" where
  "receive_ok s \<longleftrightarrow>
     assembler_ok (ss_split_assembler s) \<and> channels_bounded (ss_ordering s)
     \<and> length (rt_seen_ahead (ss_reliable_tracker s)) \<le> rt_max_window (ss_reliable_tracker s)
     \<and> length (aq_queue (ss_outgoing_acks s)) \<le> aq_max_ranges (ss_outgoing_acks s)
     \<and> length (aq_queue (ss_outgoing_nacks s)) \<le> aq_max_ranges (ss_outgoing_nacks s)"

lemma session_init_receive_ok: "receive_ok (session_init rnd now mtu t p)"
  by (simp add: receive_ok_def session_init_def Let_def assembler_new_ok channels_bounded_def
      channels_new_def channel_default_def tracker_new_def ackq_new_def list_all_iff)

lemma receive_ok_cong:
  assumes "receive_ok s" and "ss_reliable_tracker s' = ss_reliable_tracker s"
    and "ss_outgoing_acks s' = ss_outgoing_acks s" and "ss_outgoing_nacks s' = ss_outgoing_nacks s"
    and "assembler_ok (ss_split_assembler s')" and "channels_bounded (ss_ordering s')"
  shows "receive_ok s'"
  using assms by (simp add: receive_ok_def)

lemma process_datagram_sequence_ok: "receive_ok s \<Longrightarrow> receive_ok (process_datagram_sequence s seq now)"
  using nack_gap_bounded [of "s\<lparr>ss_datagram_read_index := seq_next seq\<rparr>" "ss_datagram_read_index s" "seq_prev seq" now]
  by (simp add: receive_ok_def process_datagram_sequence_def Let_def ackq_push_bounded)

lemma deliver_frame_ok:
  assumes "receive_ok s" and "deliver_frame s f = (out, s')"
  shows "receive_ok s'"
proof -
  obtain r oc where q: "handle_sequenced (ss_ordering s) f = (r, oc)" by fastforce
  obtain r' oc' where o: "handle_ordered (ss_ordering s) f = (r', oc')" by fastforce
  have b: "channels_bounded oc" "channels_bounded oc'"
    using assms(1) handle_sequenced_bounded [OF _ q] handle_ordered_bounded [OF _ o] by (simp_all add: receive_ok_def)
  have a: "assembler_ok (ss_split_assembler s)" "channels_bounded (ss_ordering s)"
    using assms(1) by (simp_all add: receive_ok_def)
  show ?thesis
    using assms(2) a b
    by (cases r; cases r')
      (auto simp: deliver_frame_def q o intro!: receive_ok_cong [OF assms(1)] split: if_splits)
qed

lemma mark_seen_ok: "receive_ok s \<Longrightarrow> receive_ok (mark_seen s b f)"
  using tracker_see_length [of "ss_reliable_tracker s"]
  by (auto simp: mark_seen_def receive_ok_def tracker_see_window split: option.split)

lemma handle_frame_ok:
  assumes s: "receive_ok s" and h: "handle_frame s f now = (res, s')"
  shows "receive_ok s'"
proof -
  obtain r sa where sa: "split_add (ss_split_assembler s) f now = (r, sa)" by fastforce
  have s1: "receive_ok (s\<lparr>ss_split_assembler := sa\<rparr>)"
    using s split_add_ok [OF _ sa] by (simp add: receive_ok_def)
  have m: "receive_ok (bump m_duplicate_reliable_drops_update s)" using s by (simp add: receive_ok_def)
  show ?thesis
  proof (cases "is_duplicate s f")
    case True
    then show ?thesis using h m by (simp add: handle_frame_def)
  next
    case False
    have ok2: "receive_ok s2"
      if "deliver_frame (mark_seen (s\<lparr>ss_split_assembler := sa\<rparr>) b f') f' = (out, s2)" for b f' out s2
      using that by (rule deliver_frame_ok [OF mark_seen_ok [OF s1]])
    show ?thesis
      using h False s1 ok2 by (auto simp: handle_frame_def sa Let_def split: sum.splits option.splits prod.splits)
  qed
qed

lemma handle_frames_ok:
  "receive_ok s \<Longrightarrow> handle_frames s fs now out = (res, s') \<Longrightarrow> receive_ok s'"
proof (induction fs arbitrary: s out)
  case (Cons f fs)
  obtain r s1 where h: "handle_frame s f now = (r, s1)" by fastforce
  then have "receive_ok s1" using Cons.prems(1) by (rule handle_frame_ok [rotated])
  then show ?case using Cons h by (cases r) auto
qed auto

lemma ingest_datagram_ok:
  assumes "receive_ok s" and "ingest_datagram s d now = (res, s')"
  shows "receive_ok s'"
proof -
  have m: "receive_ok (s\<lparr>ss_metrics := m\<rparr>)" for m using assms(1) by (simp add: receive_ok_def)
  show ?thesis
  proof (cases "dg_payload d")
    case (Frames fs)
    then show ?thesis
      using assms(2) m by (auto simp: ingest_datagram_def Let_def
          intro: handle_frames_ok [OF process_datagram_sequence_ok])
  next
    case (Ack p)
    then show ?thesis using assms
      by (auto simp: ingest_datagram_def Let_def handle_ack_payload_def receive_ok_def)
  next
    case (Nack p)
    then show ?thesis using assms
      by (auto simp: ingest_datagram_def Let_def handle_nack_payload_def receive_ok_def)
  qed
qed

section \<open>What is delivered\<close>

lemma split_add_whole: "\<not> fh_is_split (fr_header f) \<Longrightarrow> split_add sa f now = (Inr (Some f), sa)"
  by (simp add: split_add_def)

lemma handle_frame_whole:
  assumes "\<not> fh_is_split (fr_header f)" and "\<not> is_duplicate s f"
  shows "handle_frame s f now =
    (Inr (fst (deliver_frame (mark_seen s False f) f)), snd (deliver_frame (mark_seen s False f) f))"
  using assms by (simp add: handle_frame_def split_add_whole split_beta)

text \<open>Ordered reliable frames arriving in the order they were sent.\<close>

definition in_order_frame :: "u8 \<Rightarrow> Sequence24 \<Rightarrow> Sequence24 \<Rightarrow> Frame \<Rightarrow> bool" where
  "in_order_frame c r o' f \<longleftrightarrow>
     fr_rel f = ReliableOrdered \<and> \<not> fh_is_split (fr_header f) \<and> fr_reliable_index f = Some r
     \<and> fr_ordering_index f = Some o' \<and> fr_ordering_channel f = Some c"

definition ready_for :: "u8 \<Rightarrow> Sequence24 \<Rightarrow> Sequence24 \<Rightarrow> Session \<Rightarrow> bool" where
  "ready_for c r o' s \<longleftrightarrow>
     rt_base (ss_reliable_tracker s) = r \<and> rt_seen_ahead (ss_reliable_tracker s) = []
     \<and> cs_expected_order (channel_at (ss_ordering s) c) = o'
     \<and> cs_pending_ordered (channel_at (ss_ordering s) c) = []"

lemma handle_ordered_next:
  assumes "fr_ordering_index f = Some i" and "fr_ordering_channel f = Some c"
    and "cs_expected_order (channel_at oc c) = i" and "cs_pending_ordered (channel_at oc c) = []"
  shows "\<exists>oc'. handle_ordered oc f = (Ready [f], oc') \<and> cs_expected_order (channel_at oc' c) = i + 1
    \<and> cs_pending_ordered (channel_at oc' c) = []"
proof -
  let ?st = "channel_at oc c"
  let ?st' = "?st\<lparr>cs_expected_order := i + 1\<rparr>"
  have "drain_ready ?st' = ([], ?st')"
    using assms(4) by (subst drain_ready.simps) (simp add: Let_def)
  then have "channel_ordered g m ?st i f = (Ready [f], ?st')" for g m
    using assms(3) by (simp add: channel_ordered_def seq_next_eq)
  then have "handle_ordered oc f =
      (Ready [f], (channel_state_mut oc c)\<lparr>oc_channels := (oc_channels (channel_state_mut oc c))[unat c := ?st']\<rparr>)"
    using assms(1,2) by (simp add: handle_ordered_def frame_channel_def channel_at_def Let_def)
  then show ?thesis using assms(4) by (simp add: channel_at_update)
qed

lemma handle_frame_in_order:
  assumes f: "in_order_frame c r o' f" and s: "ready_for c r o' s"
  shows "\<exists>s'. handle_frame s f now = (Inr [f], s') \<and> ready_for c (r + 1) (o' + 1) s'"
proof -
  have props: "is_reliable ReliableOrdered" "is_ordered ReliableOrdered" "\<not> is_sequenced ReliableOrdered"
    by (simp_all add: is_reliable_def is_ordered_def is_sequenced_def rel_props_def RELIABILITY_PROPS_def)
  have dup: "\<not> is_duplicate s f"
    using f s by (simp add: is_duplicate_def in_order_frame_def ready_for_def has_seen_def)
  obtain oc' where oc': "handle_ordered (ss_ordering s) f = (Ready [f], oc')"
    "cs_expected_order (channel_at oc' c) = o' + 1" "cs_pending_ordered (channel_at oc' c) = []"
    using handle_ordered_next [of f o' c "ss_ordering s"] f s
    by (auto simp: in_order_frame_def ready_for_def)
  have see: "tracker_see (ss_reliable_tracker s) r = (True, (ss_reliable_tracker s)\<lparr>rt_base := r + 1, rt_seen_ahead := []\<rparr>)"
    using tracker_see_base [of "ss_reliable_tracker s" 0 "[]"] s by (simp add: ready_for_def)
  let ?s = "s\<lparr>ss_reliable_tracker := (ss_reliable_tracker s)\<lparr>rt_base := r + 1, rt_seen_ahead := []\<rparr>\<rparr>"
  have "mark_seen s False f = ?s"
    using f see by (simp add: mark_seen_def in_order_frame_def props)
  moreover have "deliver_frame ?s f = ([f], ?s\<lparr>ss_ordering := oc'\<rparr>)"
    using f oc'(1) by (simp add: deliver_frame_def in_order_frame_def props)
  ultimately have "handle_frame s f now = (Inr [f], ?s\<lparr>ss_ordering := oc'\<rparr>)"
    using handle_frame_whole [OF _ dup, of now] f by (simp add: in_order_frame_def)
  then show ?thesis using oc' by (simp add: ready_for_def)
qed

fun in_order_frames :: "u8 \<Rightarrow> Sequence24 \<Rightarrow> Sequence24 \<Rightarrow> Frame list \<Rightarrow> bool" where
  "in_order_frames c r o' [] = True"
| "in_order_frames c r o' (f # fs) = (in_order_frame c r o' f \<and> in_order_frames c (r + 1) (o' + 1) fs)"

lemma handle_frames_in_order:
  "in_order_frames c r o' fs \<Longrightarrow> ready_for c r o' s \<Longrightarrow>
     \<exists>s'. handle_frames s fs now out = (Inr (out @ fs), s')
       \<and> ready_for c (r + of_nat (length fs)) (o' + of_nat (length fs)) s'"
proof (induction fs arbitrary: r o' s out)
  case (Cons f fs)
  then obtain s1 where s1: "handle_frame s f now = (Inr [f], s1)" "ready_for c (r + 1) (o' + 1) s1"
    using handle_frame_in_order by fastforce
  with Cons.prems Cons.IH [of "r + 1" "o' + 1" s1 "out @ [f]"] show ?case
    by (auto simp: ac_simps)
qed simp

section \<open>Where duplicate detection goes wrong\<close>

definition plain_reliable :: "Frame \<Rightarrow> bool" where
  "plain_reliable f \<longleftrightarrow> fr_rel f = Reliable \<and> \<not> fh_is_split (fr_header f)"

lemma handle_plain_reliable:
  assumes "plain_reliable f" and "fr_reliable_index f = Some r" and "\<not> has_seen (ss_reliable_tracker s) r"
  shows "handle_frame s f now =
    (Inr [f], s\<lparr>ss_reliable_tracker := snd (tracker_see (ss_reliable_tracker s) r)\<rparr>)"
proof -
  have props: "is_reliable Reliable" "\<not> is_ordered Reliable" "\<not> is_sequenced Reliable"
    by (simp_all add: is_reliable_def is_ordered_def is_sequenced_def rel_props_def RELIABILITY_PROPS_def)
  have "\<not> is_duplicate s f" using assms by (simp add: is_duplicate_def)
  then show ?thesis
    using handle_frame_whole [of f s now] assms
    by (simp add: plain_reliable_def mark_seen_def deliver_frame_def props)
qed

lemma handle_plain_duplicate:
  assumes "plain_reliable f" and "fr_reliable_index f = Some r" and "has_seen (ss_reliable_tracker s) r"
  shows "fst (handle_frame s f now) = Inr []"
proof -
  have "is_reliable Reliable" by (simp add: is_reliable_def rel_props_def RELIABILITY_PROPS_def)
  then show ?thesis using assms by (simp add: handle_frame_def is_duplicate_def plain_reliable_def)
qed

section \<open>Runs of datagrams\<close>

fun ingest_all :: "Session \<Rightarrow> (Datagram \<times> Instant) list \<Rightarrow> Session" where
  "ingest_all s [] = s"
| "ingest_all s ((d, now) # ds) = ingest_all (snd (ingest_datagram s d now)) ds"

lemma ingest_all_ok: "receive_ok s \<Longrightarrow> receive_ok (ingest_all s ds)"
  by (induction s ds rule: ingest_all.induct) (auto intro: ingest_datagram_ok [OF _ surjective_pairing])


lemma acks_push:
  assumes "last_short (ss_outgoing_acks s)" "length (aq_queue (ss_outgoing_acks s)) < aq_max_ranges (ss_outgoing_acks s)"
  shows "covered (aq_queue (ackq_push (ss_outgoing_acks s) (mk_range q q))) = insert q (covered (aq_queue (ss_outgoing_acks s)))"
  using ackq_push_covers [of "mk_range q q" "ss_outgoing_acks s"] assms
  by (simp add: range_short_def record_count_def range_wraps_def)


lemma session_init_receive_fields [simp]:
  "ss_outgoing_acks (session_init rnd now mtu t p) = ackq_new (tun_ack_queue_capacity t)"
  "ss_outgoing_nacks (session_init rnd now mtu t p) = ackq_new (tun_ack_queue_capacity t)"
  "ss_datagram_read_index (session_init rnd now mtu t p) = 0"
  "ss_reliable_tracker (session_init rnd now mtu t p) = tracker_new (tun_reliable_window t)"
  "ss_split_assembler (session_init rnd now mtu t p) = assembler_new (tun_split_ttl t) (tun_max_split_parts t) (tun_max_concurrent_splits t)"
  "ss_ordering (session_init rnd now mtu t p) = channels_new (tun_max_ordering_channels t) (tun_max_ordered_pending_per_channel t) (tun_max_order_gap t)"
  by (simp_all add: session_init_def Let_def seq_new_eq)

lemma default_receive [simp]:
  "ss_outgoing_acks default_session = ackq_new 1024" "ss_outgoing_nacks default_session = ackq_new 1024"
  "ss_datagram_read_index default_session = 0" "ss_reliable_tracker default_session = tracker_new 8192"
  "ss_ordering default_session = channels_new 16 2048 8192"
  by (simp_all add: default_session_def) (simp_all add: tunables_default_def Let_def MAX_ACK_SEQUENCES_def)


text \<open>C15: ordered reliable frames that arrive in the order they were sent are all delivered, in that
  order, and the session is ready for the next ones.\<close>

theorem in_order_stream:
  assumes d: "dg_payload d = Frames fs" and fs: "in_order_frames c r o' fs" and s: "ready_for c r o' s"
  shows "\<exists>s'. ingest_datagram s d now = (Inr fs, s') \<and> ready_for c (r + of_nat (length fs)) (o' + of_nat (length fs)) s'"
proof -
  have keep: "ready_for c r o' (process_datagram_sequence (s\<lparr>ss_metrics := m\<rparr>) q now)" for m q
    using s by (simp add: ready_for_def process_datagram_sequence_def Let_def)
  show ?thesis
    using handle_frames_in_order [OF fs keep, of _ _ now "[]"] by (simp add: ingest_datagram_def d Let_def)
qed

theorem in_order_stream_witness:
  "\<exists>s'. ingest_datagram default_session
        \<lparr>dg_header = \<lparr>dh_flags = FLAG_VALID, dh_sequence = 0\<rparr>, dg_payload = Frames [ordered_frame 2 0, ordered_frame 2 1]\<rparr> 5
      = (Inr [ordered_frame 2 0, ordered_frame 2 1], s')
      \<and> ready_for 2 (0 + of_nat (length [ordered_frame 2 0, ordered_frame 2 1])) (0 + of_nat (length [ordered_frame 2 0, ordered_frame 2 1])) s'"
  by (rule in_order_stream)
    (simp_all add: in_order_frame_def ordered_frame_def ready_for_def tracker_new_def channel_default_def seq_new_eq)

section \<open>Where the duplicate filter fails\<close>

text \<open>C34: a reliable frame can be lost to the duplicate filter without ever having been received: after
  the frames 2 and 0, frame 3 is taken for a duplicate, because the marks are not moved along with
  the base.\<close>

theorem unseen_frame_dropped:
  assumes t: "ss_reliable_tracker s = tracker_new w" and w: "3 \<le> w"
    and f: "plain_reliable f0" "plain_reliable f2" "plain_reliable f3"
    and i: "fr_reliable_index f0 = Some 0" "fr_reliable_index f2 = Some 2" "fr_reliable_index f3 = Some 3"
  shows "fst (handle_frames s [f2, f0, f3] now []) = Inr [f2, f0]"
proof -
  let ?t1 = "\<lparr>rt_base = 0, rt_seen_ahead = [False, True], rt_max_window = w\<rparr>"
  let ?t2 = "\<lparr>rt_base = 1, rt_seen_ahead = [False, True], rt_max_window = w\<rparr>"
  have u: "unat (2 :: Sequence24) = 2" "unat (3 - 1 :: Sequence24) = 2" by simp_all
  have see: "snd (tracker_see (tracker_new w) 2) = ?t1" "snd (tracker_see ?t1 0) = ?t2"
    using w by (simp_all add: tracker_see_def tracker_new_def seq_new_eq advance_base_def seq_next_eq Let_def)
  have seen: "\<not> has_seen (tracker_new w) 2" "\<not> has_seen ?t1 0" "has_seen ?t2 3"
    using w by (simp_all add: has_seen_def tracker_new_def seq_new_eq Let_def)
  have 1: "handle_frame s f2 now = (Inr [f2], s\<lparr>ss_reliable_tracker := ?t1\<rparr>)"
    using handle_plain_reliable [OF f(2) i(2)] t see seen by simp
  have 2: "handle_frame (s\<lparr>ss_reliable_tracker := ?t1\<rparr>) f0 now = (Inr [f0], s\<lparr>ss_reliable_tracker := ?t2\<rparr>)"
    using handle_plain_reliable [OF f(1) i(1), of "s\<lparr>ss_reliable_tracker := ?t1\<rparr>"] see seen by simp
  obtain s3 where 3: "handle_frame (s\<lparr>ss_reliable_tracker := ?t2\<rparr>) f3 now = (Inr [], s3)"
    using handle_plain_duplicate [OF f(3) i(3), of "s\<lparr>ss_reliable_tracker := ?t2\<rparr>" now] seen by (auto simp: prod_eq_iff)
  show ?thesis by (simp add: 1 2 3)
qed

definition reliable_frame :: "nat \<Rightarrow> Frame" where
  "reliable_frame n =
     \<lparr>fr_header = \<lparr>fh_reliability = Reliable, fh_is_split = False, fh_needs_bas = False\<rparr>,
      fr_bit_length = 8, fr_reliable_index = Some (of_nat n), fr_sequence_index = None,
      fr_ordering_index = None, fr_ordering_channel = None, fr_split = None, fr_payload = [of_nat n]\<rparr>"

theorem unseen_frame_dropped_witness:
  "fst (handle_frames default_session [reliable_frame 2, reliable_frame 0, reliable_frame 3] 5 [])
     = Inr [reliable_frame 2, reliable_frame 0]"
  by (rule unseen_frame_dropped [of _ 8192]) (simp_all add: plain_reliable_def reliable_frame_def)



lemma deliver_frame_tracker: "ss_reliable_tracker (snd (deliver_frame s f)) = ss_reliable_tracker s"
  by (auto simp: deliver_frame_def Let_def split: prod.splits OrderedResult.splits SequencedResult.splits)

text \<open>Parts of split payloads never reach the duplicate filter, so the base never moves past their
  indices.\<close>

theorem split_frames_untracked:
  assumes "fh_is_split (fr_header f)"
  shows "ss_reliable_tracker (snd (handle_frame s f now)) = ss_reliable_tracker s"
  using assms deliver_frame_tracker
  by (auto simp: handle_frame_def is_duplicate_def mark_seen_def Let_def split_beta split: sum.splits option.splits)

theorem split_frames_untracked_witness:
  "ss_reliable_tracker (snd (handle_frame default_session (sample_part 0) 5)) = ss_reliable_tracker default_session"
  by (rule split_frames_untracked) (simp add: sample_part_def)

section \<open>Acknowledged and dropped\<close>

lemma handle_ordered_full:
  assumes f: "fr_ordering_index f = Some o'" "frame_channel f = c"
    and full: "oc_max_pending_per_channel oc \<le> length (cs_pending_ordered (channel_at oc c))"
    and ahead: "o' \<noteq> cs_expected_order (channel_at oc c)" "distance_to (cs_expected_order (channel_at oc c)) o' \<le> oc_max_gap oc"
  shows "\<exists>oc'. handle_ordered oc f = (DroppedBufferFull, oc') \<and> channel_at oc' c = channel_at oc c"
proof -
  obtain res oc' where h: "handle_ordered oc f = (res, oc')" by (cases "handle_ordered oc f")
  have "channel_ordered (oc_max_gap oc) (oc_max_pending_per_channel oc) (channel_at oc c) o' f = (DroppedBufferFull, channel_at oc c)"
    using full ahead by (auto simp: channel_ordered_def Let_def not_less)
  with handle_ordered_channel(1) [OF h f(1)] f(2) h show ?thesis by simp
qed

text \<open>C35: an ordered reliable frame that meets a full reorder buffer is dropped although its datagram is
  acknowledged and its index recorded as seen, so that the peer never sends it again.\<close>

theorem acknowledged_then_dropped:
  assumes d: "dg_payload d = Frames [f]" and f: "in_order_frame c r o' f"
    and fresh: "\<not> has_seen (ss_reliable_tracker s) r"
    and full: "oc_max_pending_per_channel (ss_ordering s) \<le> length (cs_pending_ordered (channel_at (ss_ordering s) c))"
    and ahead: "o' \<noteq> cs_expected_order (channel_at (ss_ordering s) c)"
      "distance_to (cs_expected_order (channel_at (ss_ordering s) c)) o' \<le> oc_max_gap (ss_ordering s)"
    and acks: "last_short (ss_outgoing_acks s)" "length (aq_queue (ss_outgoing_acks s)) < aq_max_ranges (ss_outgoing_acks s)"
  shows "\<exists>s'. ingest_datagram s d now = (Inr [], s')
     \<and> dh_sequence (dg_header d) \<in> covered (aq_queue (ss_outgoing_acks s'))
     \<and> channel_at (ss_ordering s') c = channel_at (ss_ordering s) c
     \<and> ss_reliable_tracker s' = snd (tracker_see (ss_reliable_tracker s) r)"
proof -
  define m where "m = m_ingress_frames_update (\<lambda>_. sat_add (m_ingress_frames (ss_metrics s)) 1)
    (m_ingress_datagrams_update (\<lambda>n. sat_add n 1) (ss_metrics s))"
  define s1 where "s1 = process_datagram_sequence (s\<lparr>ss_metrics := m\<rparr>) (dh_sequence (dg_header d)) now"
  have s1: "ss_ordering s1 = ss_ordering s" "ss_reliable_tracker s1 = ss_reliable_tracker s"
    "dh_sequence (dg_header d) \<in> covered (aq_queue (ss_outgoing_acks s1))"
    using acks_push [OF acks] by (simp_all add: s1_def process_datagram_sequence_def Let_def)
  have fs: "fr_rel f = ReliableOrdered" "\<not> fh_is_split (fr_header f)" "fr_reliable_index f = Some r"
      "fr_ordering_index f = Some o'" "frame_channel f = c"
    using f by (simp_all add: in_order_frame_def frame_channel_def)
  obtain oc' where oc: "handle_ordered (ss_ordering s) f = (DroppedBufferFull, oc')" "channel_at oc' c = channel_at (ss_ordering s) c"
    using handle_ordered_full [OF fs(4,5) full ahead] by blast
  have dup: "\<not> is_duplicate s1 f" using fresh fs s1 by (simp add: is_duplicate_def)
  have "\<exists>s'. handle_frame s1 f now = (Inr [], s') \<and> ss_outgoing_acks s' = ss_outgoing_acks s1
      \<and> ss_ordering s' = oc' \<and> ss_reliable_tracker s' = snd (tracker_see (ss_reliable_tracker s) r)"
    using fs s1 oc by (simp add: handle_frame_whole [OF fs(2) dup] mark_seen_def deliver_frame_def Let_def)
  then obtain s' where s': "handle_frame s1 f now = (Inr [], s')" "ss_outgoing_acks s' = ss_outgoing_acks s1"
    "ss_ordering s' = oc'" "ss_reliable_tracker s' = snd (tracker_see (ss_reliable_tracker s) r)" by blast
  have "ingest_datagram s d now = handle_frames s1 [f] now []"
    by (simp add: ingest_datagram_def d Let_def s1_def m_def)
  then show ?thesis using s' s1(3) oc(2) by simp
qed

definition full_session :: Session where
  "full_session = default_session\<lparr>ss_ordering := snd (ordered_run (channels_new 1 2 64) [ordered_frame 0 1, ordered_frame 0 2])\<rparr>"

theorem acknowledged_then_dropped_witness:
  "\<exists>s'. ingest_datagram full_session \<lparr>dg_header = \<lparr>dh_flags = FLAG_VALID, dh_sequence = 0\<rparr>, dg_payload = Frames [ordered_frame 0 3]\<rparr> 5
      = (Inr [], s')
     \<and> dh_sequence (dg_header \<lparr>dg_header = \<lparr>dh_flags = FLAG_VALID, dh_sequence = 0\<rparr>, dg_payload = Frames [ordered_frame 0 3]\<rparr>)
         \<in> covered (aq_queue (ss_outgoing_acks s'))
     \<and> channel_at (ss_ordering s') 0 = channel_at (ss_ordering full_session) 0
     \<and> ss_reliable_tracker s' = snd (tracker_see (ss_reliable_tracker full_session) 3)"
proof (rule acknowledged_then_dropped [where f = "ordered_frame 0 3" and c = 0 and r = 3 and o' = 3])
  have oc: "ss_ordering full_session = snd (ordered_run (channels_new 1 2 64) [ordered_frame 0 1, ordered_frame 0 2])"
    by (simp add: full_session_def)
  show "oc_max_pending_per_channel (ss_ordering full_session) \<le> length (cs_pending_ordered (channel_at (ss_ordering full_session) 0))"
    unfolding oc by code_simp
  show "3 \<noteq> cs_expected_order (channel_at (ss_ordering full_session) 0)"
    unfolding oc by code_simp
  show "distance_to (cs_expected_order (channel_at (ss_ordering full_session) 0)) 3 \<le> oc_max_gap (ss_ordering full_session)"
    unfolding oc by code_simp
qed (simp_all add: full_session_def in_order_frame_def ordered_frame_def has_seen_def tracker_new_def seq_new_eq last_short_def ackq_new_def)

end
