(* ===== verification/SessionControl.thy ===== *)
theory SessionControl
  imports Session
begin

text \<open>
  \<^verbatim>\<open>src/session/mod.rs\<close>, lines 1341 to 1387 and 1431 to 1508: round-trip estimation, the
  retransmission timeout, the congestion window and the pacing budget.  The lemmas show that the
  bounds of \<open>control_bounds\<close> survive every operation, whatever the rounding.
\<close>

section \<open>Operations\<close>

definition can_emit_new_reliable_datagram :: "rounding \<Rightarrow> Session \<Rightarrow> bool" where
  "can_emit_new_reliable_datagram rnd s \<longleftrightarrow>
     rnd (real (length (ss_sent_datagrams s))) < of_int \<lfloor>max (ss_congestion_window_packets s) 1\<rfloor>"

definition compute_pacing_rate :: "rounding \<Rightarrow> Session \<Rightarrow> f64" where
  "compute_pacing_rate rnd s =
     (if \<not> ss_pacing_enabled s then PosInf
      else let reference_rtt_ms = (case ss_srtt_ms s of Some v \<Rightarrow> v
                                   | None \<Rightarrow> max (rnd (as_secs_f64 rnd (ss_resend_rto s) * 1000)) 1);
               rtt_secs = rnd (max reference_rtt_ms 1 / 1000);
               cwnd_bytes = rnd (max (ss_congestion_window_packets s) 1 * rnd (real (ss_mtu s)));
               raw_rate = rnd (rnd (cwnd_bytes / rtt_secs) * ss_pacing_gain s)
           in Fin (f64_clamp (ss_pacing_min_rate_bytes_per_sec s) (ss_pacing_max_rate_bytes_per_sec s) raw_rate))"

text \<open>The rate is finite here, because the operation returns at once when pacing is off.\<close>

definition refresh_pacing_budget :: "rounding \<Rightarrow> Session \<Rightarrow> Instant \<Rightarrow> Session" where
  "refresh_pacing_budget rnd s now =
     (if \<not> ss_pacing_enabled s then s
      else let elapsed = as_secs_f64 rnd (now - ss_last_pacing_update s);
               s1 = s\<lparr>ss_last_pacing_update := now\<rparr>
           in case compute_pacing_rate rnd s1 of
                Fin rate \<Rightarrow>
                  (let s2 = s1\<lparr>ss_pacing_rate_bytes_per_sec := rate\<rparr>
                   in if elapsed > 0
                      then s2\<lparr>ss_pacing_budget_bytes :=
                             f64_clamp 0 (ss_pacing_budget_max_bytes s2) (rnd (ss_pacing_budget_bytes s2 + rnd (elapsed * rate)))\<rparr>
                      else s2)
              | _ \<Rightarrow> s1)"

definition consume_pacing_budget :: "rounding \<Rightarrow> Session \<Rightarrow> usize \<Rightarrow> Session" where
  "consume_pacing_budget rnd s n =
     (if \<not> ss_pacing_enabled s then s
      else s\<lparr>ss_pacing_budget_bytes := max (rnd (ss_pacing_budget_bytes s - rnd (real n))) 0\<rparr>)"

definition recompute_rto_from_rtt :: "rounding \<Rightarrow> Session \<Rightarrow> Session" where
  "recompute_rto_from_rtt rnd s =
     (case ss_srtt_ms s of
        None \<Rightarrow> s
      | Some srtt_ms \<Rightarrow>
          (let rto_ms = rnd (srtt_ms + max (rnd (4 * ss_rttvar_ms s)) 10);
               clamped = f64_clamp (rnd (as_secs_f64 rnd (ss_min_resend_rto s) * 1000))
                                   (rnd (as_secs_f64 rnd (ss_max_resend_rto s) * 1000)) rto_ms
           in s\<lparr>ss_resend_rto := from_secs_f64 (rnd (clamped / 1000))\<rparr>))"

definition observe_rtt_sample :: "rounding \<Rightarrow> Session \<Rightarrow> Duration \<Rightarrow> Session" where
  "observe_rtt_sample rnd s sample =
     (let sample_ms = max (rnd (as_secs_f64 rnd sample * 1000)) 1;
          s1 = (case ss_srtt_ms s of
                  None \<Rightarrow> s\<lparr>ss_srtt_ms := Some sample_ms, ss_rttvar_ms := rnd (sample_ms / 2)\<rparr>
                | Some srtt \<Rightarrow>
                    (let alpha = 0.125; beta = 0.25; variation = \<bar>rnd (srtt - sample_ms)\<bar>
                     in s\<lparr>ss_rttvar_ms := rnd (rnd ((1 - beta) * ss_rttvar_ms s) + rnd (beta * variation)),
                          ss_srtt_ms := Some (rnd (rnd ((1 - alpha) * srtt) + rnd (alpha * sample_ms)))\<rparr>))
      in recompute_rto_from_rtt rnd s1)"

definition on_reliable_ack :: "rounding \<Rightarrow> Session \<Rightarrow> Session" where
  "on_reliable_ack rnd s =
     (let cwnd = ss_congestion_window_packets s;
          additive = (if cwnd < ss_slow_start_threshold_packets s then max (ss_congestion_additive_gain s) 1
                      else rnd (ss_congestion_additive_gain s / max cwnd 1));
          additive' = (case ss_srtt_ms s of
                         Some srtt_ms \<Rightarrow> if srtt_ms \<ge> ss_high_rtt_threshold_ms s
                                         then rnd (additive * ss_high_rtt_additive_scale s) else additive
                       | None \<Rightarrow> additive);
          additive'' = max additive' 0.001
      in s\<lparr>ss_congestion_window_packets :=
             f64_clamp (ss_min_congestion_window_packets s) (ss_max_congestion_window_packets s) (rnd (cwnd + additive''))\<rparr>)"

definition apply_loss_backoff :: "rounding \<Rightarrow> Session \<Rightarrow> real \<Rightarrow> Session" where
  "apply_loss_backoff rnd s factor =
     (let factor' = f64_clamp 0.1 0.99 factor;
          reduced = f64_clamp (ss_min_congestion_window_packets s) (ss_max_congestion_window_packets s)
                      (rnd (ss_congestion_window_packets s * factor'))
      in s\<lparr>ss_slow_start_threshold_packets := reduced, ss_congestion_window_packets := reduced\<rparr>)"

definition on_timeout :: "rounding \<Rightarrow> Session \<Rightarrow> Instant \<Rightarrow> Session" where
  "on_timeout rnd s now =
     (let s1 = apply_loss_backoff rnd s (ss_multiplicative_decrease_timeout s);
          backed_off = ss_resend_rto s1 * 2
      in s1\<lparr>ss_resend_rto := min backed_off (ss_max_resend_rto s1),
            ss_next_nack_loss_backoff := now + ss_nack_loss_backoff_cooldown s1\<rparr>)"

definition on_nack_loss :: "rounding \<Rightarrow> Session \<Rightarrow> Instant \<Rightarrow> Session" where
  "on_nack_loss rnd s now =
     (if now < ss_next_nack_loss_backoff s then s
      else let s1 = apply_loss_backoff rnd s (ss_multiplicative_decrease_nack s)
           in s1\<lparr>ss_next_nack_loss_backoff := now + ss_nack_loss_backoff_cooldown s1\<rparr>)"

section \<open>Bounds\<close>

text \<open>Every bound but the timeout's, which \<^verbatim>\<open>recompute_rto_from_rtt\<close> keeps only up to rounding.\<close>

definition window_bounds :: "Session \<Rightarrow> bool" where
  "window_bounds s \<longleftrightarrow>
     1 \<le> ss_min_congestion_window_packets s
     \<and> ss_min_congestion_window_packets s \<le> ss_congestion_window_packets s
     \<and> ss_congestion_window_packets s \<le> ss_max_congestion_window_packets s
     \<and> ss_min_congestion_window_packets s \<le> ss_slow_start_threshold_packets s
     \<and> ss_slow_start_threshold_packets s \<le> ss_max_congestion_window_packets s"

definition pacing_bounds :: "Session \<Rightarrow> bool" where
  "pacing_bounds s \<longleftrightarrow>
     0 \<le> ss_pacing_budget_bytes s \<and> ss_pacing_budget_bytes s \<le> ss_pacing_budget_max_bytes s
     \<and> 1 \<le> ss_pacing_min_rate_bytes_per_sec s
     \<and> ss_pacing_min_rate_bytes_per_sec s \<le> ss_pacing_rate_bytes_per_sec s
     \<and> ss_pacing_rate_bytes_per_sec s \<le> ss_pacing_max_rate_bytes_per_sec s"

lemma control_bounds_split:
  "control_bounds s \<longleftrightarrow> window_bounds s \<and> pacing_bounds s \<and> ss_resend_rto s \<le> ss_max_resend_rto s"
  by (auto simp: control_bounds_def window_bounds_def pacing_bounds_def)

lemma on_reliable_ack_window: "window_bounds s \<Longrightarrow> window_bounds (on_reliable_ack rnd s)"
  by (auto simp: window_bounds_def on_reliable_ack_def Let_def intro!: f64_clamp_bounds)

lemma apply_loss_backoff_window: "window_bounds s \<Longrightarrow> window_bounds (apply_loss_backoff rnd s x)"
  by (auto simp: window_bounds_def apply_loss_backoff_def Let_def intro!: f64_clamp_bounds)

lemma on_timeout_window: "window_bounds s \<Longrightarrow> window_bounds (on_timeout rnd s now)"
  using apply_loss_backoff_window [of s rnd "ss_multiplicative_decrease_timeout s"]
  by (simp add: on_timeout_def Let_def window_bounds_def)

lemma on_nack_loss_window: "window_bounds s \<Longrightarrow> window_bounds (on_nack_loss rnd s now)"
  using apply_loss_backoff_window [of s rnd "ss_multiplicative_decrease_nack s"]
  by (simp add: on_nack_loss_def Let_def window_bounds_def)

lemma observe_rtt_sample_window: "window_bounds s \<Longrightarrow> window_bounds (observe_rtt_sample rnd s d)"
  by (auto simp: window_bounds_def observe_rtt_sample_def recompute_rto_from_rtt_def Let_def split: option.splits)

lemma refresh_pacing_bounds:
  assumes "pacing_bounds s"
  shows "pacing_bounds (refresh_pacing_budget rnd s now)"
proof -
  have le: "ss_pacing_min_rate_bytes_per_sec s \<le> ss_pacing_max_rate_bytes_per_sec s" "0 \<le> ss_pacing_budget_max_bytes s"
    using assms by (auto simp: pacing_bounds_def)
  show ?thesis
    using assms f64_clamp_bounds [OF le(1)] f64_clamp_bounds [OF le(2)]
    by (auto simp: pacing_bounds_def refresh_pacing_budget_def compute_pacing_rate_def Let_def split: f64.splits)
qed

text \<open>
  What IEEE 754 rounding to nearest satisfies and consuming the budget relies on: it is monotone,
  leaves representable numbers alone and maps zero to zero.
\<close>

definition rounds_ok :: "rounding \<Rightarrow> bool" where
  "rounds_ok rnd \<longleftrightarrow> mono rnd \<and> (\<forall>x. rnd (rnd x) = rnd x) \<and> rnd 0 = 0"

lemma rounds_ok_id: "rounds_ok id"
  by (simp add: rounds_ok_def mono_def)

lemma rounds_ok_nonneg: "rounds_ok rnd \<Longrightarrow> 0 \<le> x \<Longrightarrow> 0 \<le> rnd x"
  by (metis rounds_ok_def monoD)

lemma consume_pacing_bounds:
  assumes r: "rounds_ok rnd" and s: "pacing_bounds s"
    and rep: "rnd (ss_pacing_budget_max_bytes s) = ss_pacing_budget_max_bytes s"
  shows "pacing_bounds (consume_pacing_budget rnd s n)"
proof -
  have "0 \<le> rnd (real n)" using r by (simp add: rounds_ok_nonneg)
  then have "ss_pacing_budget_bytes s - rnd (real n) \<le> ss_pacing_budget_max_bytes s"
    using s by (simp add: pacing_bounds_def)
  then have "rnd (ss_pacing_budget_bytes s - rnd (real n)) \<le> ss_pacing_budget_max_bytes s"
    using r rep by (metis monoD rounds_ok_def)
  then show ?thesis using s by (simp add: pacing_bounds_def consume_pacing_budget_def)
qed

section \<open>The timeout in exact arithmetic\<close>

lemma from_secs_f64_between:
  assumes "real lo / 1000000000 \<le> x" and "x \<le> real hi / 1000000000"
  shows "lo \<le> from_secs_f64 x" and "from_secs_f64 x \<le> hi"
proof -
  let ?y = "x * 1000000000"
  have y: "real lo \<le> ?y" "?y \<le> real hi" using assms by (simp_all add: field_simps)
  then have f: "int lo \<le> \<lfloor>?y\<rfloor>" "\<lfloor>?y\<rfloor> \<le> int hi" by linarith+
  have "\<lfloor>?y\<rfloor> < int hi" if "?y - of_int \<lfloor>?y\<rfloor> > 0" using that y(2) by linarith
  then show "lo \<le> from_secs_f64 x" and "from_secs_f64 x \<le> hi"
    using f by (auto simp: from_secs_f64_def Let_def)
qed

lemma recompute_rto_exact:
  assumes "ss_min_resend_rto s \<le> ss_max_resend_rto s" and "ss_srtt_ms s = Some v"
  shows "ss_min_resend_rto s \<le> ss_resend_rto (recompute_rto_from_rtt id s)
    \<and> ss_resend_rto (recompute_rto_from_rtt id s) \<le> ss_max_resend_rto s"
proof -
  let ?lo = "as_secs_f64 id (ss_min_resend_rto s) * 1000" and ?hi = "as_secs_f64 id (ss_max_resend_rto s) * 1000"
  let ?x = "v + max (4 * ss_rttvar_ms s) 10"
  have le: "?lo \<le> ?hi" using assms by (simp add: as_secs_f64_exact)
  have x: "ss_resend_rto (recompute_rto_from_rtt id s) = from_secs_f64 (f64_clamp ?lo ?hi ?x / 1000)"
    using assms(2) by (simp add: recompute_rto_from_rtt_def Let_def)
  have "real (ss_min_resend_rto s) / 1000000000 \<le> f64_clamp ?lo ?hi ?x / 1000"
    and "f64_clamp ?lo ?hi ?x / 1000 \<le> real (ss_max_resend_rto s) / 1000000000"
    using f64_clamp_bounds [OF le, of ?x] by (simp_all add: as_secs_f64_exact)
  then show ?thesis unfolding x using from_secs_f64_between by blast
qed

lemma observe_rtt_recompute:
  "\<exists>s1 v. observe_rtt_sample rnd s d = recompute_rto_from_rtt rnd s1 \<and> ss_srtt_ms s1 = Some v
     \<and> ss_min_resend_rto s1 = ss_min_resend_rto s \<and> ss_max_resend_rto s1 = ss_max_resend_rto s"
  by (cases "ss_srtt_ms s") (auto simp: observe_rtt_sample_def Let_def)

lemma observe_rtt_exact_rto:
  assumes "ss_min_resend_rto s \<le> ss_max_resend_rto s"
  shows "ss_min_resend_rto s \<le> ss_resend_rto (observe_rtt_sample id s d)
    \<and> ss_resend_rto (observe_rtt_sample id s d) \<le> ss_max_resend_rto s"
  using observe_rtt_recompute [of id s d] recompute_rto_exact assms by metis

text \<open>Loss always takes the window down to a fraction of itself, or to its minimum.\<close>

lemma apply_loss_backoff_decreases:
  assumes "rounds_ok rnd" and "window_bounds s" and "rnd (ss_congestion_window_packets s) = ss_congestion_window_packets s"
  shows "ss_congestion_window_packets (apply_loss_backoff rnd s x) \<le> ss_congestion_window_packets s"
proof -
  have f: "f64_clamp 0.1 0.99 x \<le> 1" by (simp add: f64_clamp_def)
  have w: "0 \<le> ss_congestion_window_packets s" using assms(2) by (simp add: window_bounds_def)
  have "ss_congestion_window_packets s * f64_clamp 0.1 0.99 x \<le> ss_congestion_window_packets s"
    using f w by (simp add: mult_left_le)
  then have "rnd (ss_congestion_window_packets s * f64_clamp 0.1 0.99 x) \<le> ss_congestion_window_packets s"
    using assms(1,3) by (metis monoD rounds_ok_def)
  moreover have "f64_clamp lo hi y \<le> w" if "y \<le> w" "lo \<le> w" for lo hi y w
    using that by (auto simp: f64_clamp_def)
  ultimately show ?thesis using assms(2) by (simp add: apply_loss_backoff_def Let_def window_bounds_def)
qed

section \<open>Every run of the controllers\<close>

inductive control_step :: "rounding \<Rightarrow> Session \<Rightarrow> Session \<Rightarrow> bool" for rnd where
  acked: "control_step rnd s (on_reliable_ack rnd s)"
| rtt: "control_step rnd s (observe_rtt_sample rnd s d)"
| nacked: "control_step rnd s (on_nack_loss rnd s now)"
| timed_out: "control_step rnd s (on_timeout rnd s now)"
| refilled: "control_step rnd s (refresh_pacing_budget rnd s now)"
| spent: "control_step rnd s (consume_pacing_budget rnd s n)"

inductive control_run :: "rounding \<Rightarrow> Session \<Rightarrow> Session \<Rightarrow> bool" for rnd s0 where
  start: "control_run rnd s0 s0"
| next_step: "control_run rnd s0 s1 \<Longrightarrow> control_step rnd s1 s2 \<Longrightarrow> control_run rnd s0 s2"

lemma on_reliable_ack_fields [simp]:
  "pacing_bounds (on_reliable_ack rnd s) = pacing_bounds s"
  "ss_resend_rto (on_reliable_ack rnd s) = ss_resend_rto s"
  "ss_min_resend_rto (on_reliable_ack rnd s) = ss_min_resend_rto s"
  "ss_max_resend_rto (on_reliable_ack rnd s) = ss_max_resend_rto s"
  "ss_pacing_budget_max_bytes (on_reliable_ack rnd s) = ss_pacing_budget_max_bytes s"
  by (simp_all add: on_reliable_ack_def Let_def pacing_bounds_def)

lemma loss_fields [simp]:
  "pacing_bounds (on_timeout rnd s now) = pacing_bounds s" "pacing_bounds (on_nack_loss rnd s now) = pacing_bounds s"
  "ss_min_resend_rto (on_timeout rnd s now) = ss_min_resend_rto s" "ss_min_resend_rto (on_nack_loss rnd s now) = ss_min_resend_rto s"
  "ss_max_resend_rto (on_timeout rnd s now) = ss_max_resend_rto s" "ss_max_resend_rto (on_nack_loss rnd s now) = ss_max_resend_rto s"
  "ss_resend_rto (on_timeout rnd s now) = min (ss_resend_rto s * 2) (ss_max_resend_rto s)"
  "ss_resend_rto (on_nack_loss rnd s now) = ss_resend_rto s"
  "ss_pacing_budget_max_bytes (on_timeout rnd s now) = ss_pacing_budget_max_bytes s"
  "ss_pacing_budget_max_bytes (on_nack_loss rnd s now) = ss_pacing_budget_max_bytes s"
  by (simp_all add: on_timeout_def on_nack_loss_def apply_loss_backoff_def Let_def pacing_bounds_def)

lemma observe_rtt_fields [simp]:
  "pacing_bounds (observe_rtt_sample rnd s d) = pacing_bounds s"
  "ss_min_resend_rto (observe_rtt_sample rnd s d) = ss_min_resend_rto s"
  "ss_max_resend_rto (observe_rtt_sample rnd s d) = ss_max_resend_rto s"
  "ss_pacing_budget_max_bytes (observe_rtt_sample rnd s d) = ss_pacing_budget_max_bytes s"
  by (simp_all add: observe_rtt_sample_def recompute_rto_from_rtt_def Let_def pacing_bounds_def split: option.splits)

lemma pacing_ops_fields [simp]:
  "window_bounds (refresh_pacing_budget rnd s now) = window_bounds s" "window_bounds (consume_pacing_budget rnd s n) = window_bounds s"
  "ss_resend_rto (refresh_pacing_budget rnd s now) = ss_resend_rto s" "ss_resend_rto (consume_pacing_budget rnd s n) = ss_resend_rto s"
  "ss_min_resend_rto (refresh_pacing_budget rnd s now) = ss_min_resend_rto s" "ss_min_resend_rto (consume_pacing_budget rnd s n) = ss_min_resend_rto s"
  "ss_max_resend_rto (refresh_pacing_budget rnd s now) = ss_max_resend_rto s" "ss_max_resend_rto (consume_pacing_budget rnd s n) = ss_max_resend_rto s"
  "ss_pacing_budget_max_bytes (refresh_pacing_budget rnd s now) = ss_pacing_budget_max_bytes s"
  "ss_pacing_budget_max_bytes (consume_pacing_budget rnd s n) = ss_pacing_budget_max_bytes s"
  by (simp_all add: refresh_pacing_budget_def consume_pacing_budget_def compute_pacing_rate_def Let_def window_bounds_def split: f64.splits)

lemmas control_keeps = on_reliable_ack_window apply_loss_backoff_window on_timeout_window on_nack_loss_window
  observe_rtt_sample_window refresh_pacing_bounds

lemma control_step_bounds:
  assumes "control_step rnd s s'" and "rounds_ok rnd" "window_bounds s" "pacing_bounds s"
    "rnd (ss_pacing_budget_max_bytes s) = ss_pacing_budget_max_bytes s"
  shows "window_bounds s' \<and> pacing_bounds s' \<and> ss_pacing_budget_max_bytes s' = ss_pacing_budget_max_bytes s"
  using assms by cases (simp_all add: control_keeps consume_pacing_bounds)

text \<open>C18: starting from a new session, no sequence of acknowledgements, round-trip samples, losses,
  timeouts, refills and sends takes the congestion window, the slow-start threshold, the pacing rate
  or the pacing budget out of their bounds, for every rounding that is monotone, idempotent and
  keeps zero.\<close>

theorem controllers_bounded:
  assumes "control_run rnd s0 s" and "s0 = session_init rnd now mtu t p" and "rounds_ok rnd"
  shows "window_bounds s \<and> pacing_bounds s"
proof -
  have "window_bounds s \<and> pacing_bounds s \<and> rnd (ss_pacing_budget_max_bytes s) = ss_pacing_budget_max_bytes s"
    using assms(1)
  proof induction
    case start
    have "control_bounds s0" unfolding assms(2) by (rule session_init_control_bounds) (simp add: rounds_ok_nonneg assms(3))
    moreover have "rnd (ss_pacing_budget_max_bytes s0) = ss_pacing_budget_max_bytes s0"
      using assms(3) by (simp add: assms(2) session_init_def Let_def rounds_ok_def)
    ultimately show ?case by (simp add: control_bounds_split)
  next
    case (next_step s1 s2)
    then show ?case using control_step_bounds [of rnd s1 s2] assms(3) by simp
  qed
  then show ?thesis by simp
qed

theorem controllers_bounded_witness:
  "window_bounds (on_timeout id (on_reliable_ack id default_session) 7) \<and> pacing_bounds (on_timeout id (on_reliable_ack id default_session) 7)"
  by (rule controllers_bounded [OF _ default_session_def rounds_ok_id])
    (blast intro: control_run.intros control_step.intros)

text \<open>C19: in exact arithmetic the retransmission timeout stays between its two limits, whatever round-trip
  times are measured and however often it is doubled.\<close>

theorem timeout_bounded:
  assumes "control_run id s0 s" and "ss_min_resend_rto s0 \<le> ss_resend_rto s0" "ss_resend_rto s0 \<le> ss_max_resend_rto s0"
  shows "ss_min_resend_rto s0 \<le> ss_resend_rto s \<and> ss_resend_rto s \<le> ss_max_resend_rto s0"
proof -
  have "ss_min_resend_rto s \<le> ss_resend_rto s \<and> ss_resend_rto s \<le> ss_max_resend_rto s
      \<and> ss_min_resend_rto s = ss_min_resend_rto s0 \<and> ss_max_resend_rto s = ss_max_resend_rto s0"
    using assms
  proof induction
    case (next_step s1 s2)
    then have IH: "ss_min_resend_rto s1 \<le> ss_resend_rto s1" "ss_resend_rto s1 \<le> ss_max_resend_rto s1"
      "ss_min_resend_rto s1 = ss_min_resend_rto s0" "ss_max_resend_rto s1 = ss_max_resend_rto s0" by auto
    from next_step(2) show ?case
      using IH observe_rtt_exact_rto [of s1] by cases auto
  qed simp
  then show ?thesis by auto
qed

theorem timeout_bounded_witness:
  "ss_min_resend_rto default_session \<le> ss_resend_rto (on_timeout id (observe_rtt_sample id default_session 5000) 7)
    \<and> ss_resend_rto (on_timeout id (observe_rtt_sample id default_session 5000) 7) \<le> ss_max_resend_rto default_session"
proof (rule timeout_bounded)
  show "control_run id default_session (on_timeout id (observe_rtt_sample id default_session 5000) 7)"
    by (blast intro: control_run.intros control_step.intros)
qed (simp_all add: default_session_def session_init_def Let_def resolved_congestion_settings_def tunables_default_def millis_def)

end
