(* ===== verification/SessionQueue.thy ===== *)
theory SessionQueue
  imports Session
begin

text \<open>
  \<^verbatim>\<open>src/session/mod.rs\<close>, lines 704 to 774 and 1049 to 1316: from a payload the application sends to
  the frames in the outgoing heap, split when it does not fit, under the limits of the
  backpressure policy.  Overwriting the buffer of a payload that is dropped
  (\<^verbatim>\<open>best_effort_zeroize_bytes\<close>) has no effect on the session's state and is not represented.
\<close>

section \<open>Indices and weights\<close>

definition next_reliable_index :: "Session \<Rightarrow> Sequence24 \<times> Session" where
  "next_reliable_index s =
     (ss_reliable_write_index s, s\<lparr>ss_reliable_write_index := seq_next (ss_reliable_write_index s)\<rparr>)"

text \<open>\<^verbatim>\<open>if ch >= v.len() { v.resize(ch + 1, Sequence24::new(0)) }; let idx = v[ch]; v[ch] = idx.next()\<close>\<close>

definition take_index :: "Sequence24 list \<Rightarrow> nat \<Rightarrow> Sequence24 \<times> Sequence24 list" where
  "take_index v ch =
     (let v' = (if ch \<ge> length v then v @ replicate (ch + 1 - length v) (seq_new 0) else v)
      in (v' ! ch, v'[ch := seq_next (v' ! ch)]))"

definition next_ordering_index_if_needed :: "Session \<Rightarrow> Reliability \<Rightarrow> u8 \<Rightarrow> Sequence24 option \<times> Session" where
  "next_ordering_index_if_needed s reliability channel =
     (if \<not> (is_ordered reliability \<or> is_sequenced reliability) then (None, s)
      else let (idx, v) = take_index (ss_ordering_write_index s) (unat channel)
           in (Some idx, s\<lparr>ss_ordering_write_index := v\<rparr>))"

definition next_sequence_index_if_needed :: "Session \<Rightarrow> Reliability \<Rightarrow> u8 \<Rightarrow> Sequence24 option \<times> Session" where
  "next_sequence_index_if_needed s reliability channel =
     (if \<not> is_sequenced reliability then (None, s)
      else let (idx, v) = take_index (ss_sequencing_write_index s) (unat channel)
           in (Some idx, s\<lparr>ss_sequencing_write_index := v\<rparr>))"

definition next_reliable_index_if_needed :: "Session \<Rightarrow> Reliability \<Rightarrow> Sequence24 option \<times> Session" where
  "next_reliable_index_if_needed s reliability =
     (if is_reliable reliability then let (i, s1) = next_reliable_index s in (Some i, s1) else (None, s))"

definition next_weight :: "Session \<Rightarrow> RakPriority \<Rightarrow> nat \<times> Session" where
  "next_weight s priority =
     (let level = as_index priority;
          nxt = ss_outgoing_next_weights s ! level;
          (nxt', s1) =
            (if ss_outgoing_heap s \<noteq> [] then
               (if nxt \<ge> ss_last_min_weight s then
                  (let n = ss_last_min_weight s + 2 ^ level * level + level
                   in (n, s\<lparr>ss_outgoing_next_weights :=
                            (ss_outgoing_next_weights s)[level := n + 2 ^ level * (level + 1) + level]\<rparr>))
                else (nxt, s))
             else (nxt, s\<lparr>ss_outgoing_next_weights := map level_weight [0..<4]\<rparr>))
      in (nxt', s1\<lparr>ss_last_min_weight := nxt' - 2 ^ level * level + level\<rparr>))"

definition push_outgoing_frame :: "Session \<Rightarrow> Frame \<Rightarrow> RakPriority \<Rightarrow> u64 option \<Rightarrow> Session" where
  "push_outgoing_frame s frame priority receipt_id =
     (let (weight, s1) = next_weight s priority;
          encoded_size = frame_encoded_size frame
      in s1\<lparr>ss_outgoing_queued_bytes := sat_add (ss_outgoing_queued_bytes s1) encoded_size,
            ss_outgoing_heap :=
              heap_push qf_weight
                \<lparr>qf_weight = weight, qf_encoded_size = encoded_size, qf_is_reliable = is_reliable (fr_rel frame),
                 qf_priority = priority, qf_receipt_id = receipt_id, qf_frame = frame\<rparr>
                (ss_outgoing_heap s1)\<rparr>)"

section \<open>Frames of a payload\<close>

definition frame_overhead :: "Reliability \<Rightarrow> bool \<Rightarrow> usize" where
  "frame_overhead reliability is_split =
     3 + (if is_reliable reliability then 3 else 0) + (if is_sequenced reliability then 3 else 0)
       + (if is_ordered reliability \<or> is_sequenced reliability then 4 else 0) + (if is_split then 10 else 0)"

definition max_payload_for :: "Session \<Rightarrow> Reliability \<Rightarrow> bool \<Rightarrow> usize" where
  "max_payload_for s reliability is_split =
     max (ss_mtu s - (RAKNET_DATAGRAM_HEADER_SIZE + frame_overhead reliability is_split)) 1"

fun normalize_reliability_for_split :: "Reliability \<Rightarrow> Reliability" where
  "normalize_reliability_for_split Unreliable = Reliable"
| "normalize_reliability_for_split UnreliableSequenced = ReliableSequenced"
| "normalize_reliability_for_split UnreliableWithAckReceipt = ReliableWithAckReceipt"
| "normalize_reliability_for_split v = v"

text \<open>\<^verbatim>\<open>(payload.len() as u16) << 3\<close>\<close>

definition payload_bits :: "bytes \<Rightarrow> u16" where
  "payload_bits payload = push_bit 3 (of_nat (length payload))"

definition enqueue_single_frame :: "Session \<Rightarrow> bytes \<Rightarrow> Reliability \<Rightarrow> u8 \<Rightarrow> RakPriority \<Rightarrow> u64 option
    \<Rightarrow> usize \<times> Session" where
  "enqueue_single_frame s payload reliability channel priority receipt_id =
     (let (ordering_index, s1) = next_ordering_index_if_needed s reliability channel;
          (sequence_index, s2) = next_sequence_index_if_needed s1 reliability channel;
          (reliable_index, s3) = next_reliable_index_if_needed s2 reliability;
          frame = \<lparr>fr_header = frame_header_new reliability False False, fr_bit_length = payload_bits payload,
                   fr_reliable_index = reliable_index, fr_sequence_index = sequence_index,
                   fr_ordering_index = ordering_index,
                   fr_ordering_channel = map_option (\<lambda>_. channel) ordering_index,
                   fr_split = None, fr_payload = payload\<rparr>;
          size = frame_encoded_size frame;
          s4 = push_outgoing_frame s3 frame priority receipt_id
      in (if is_reliable reliability then size else 0, s4))"

definition div_ceil :: "nat \<Rightarrow> nat \<Rightarrow> nat" where
  "div_ceil a b = a div b + (if a mod b > 0 then 1 else 0)"

text \<open>One iteration of \<^verbatim>\<open>for idx in 0..part_count\<close>.\<close>

definition split_part_frame :: "Reliability \<Rightarrow> u8 \<Rightarrow> Sequence24 option \<Rightarrow> Sequence24 option \<Rightarrow> Sequence24 option
    \<Rightarrow> nat \<Rightarrow> u16 \<Rightarrow> nat \<Rightarrow> bytes \<Rightarrow> Frame" where
  "split_part_frame reliability channel reliable_index sequence_index ordering_index part_count split_id idx part =
     \<lparr>fr_header = frame_header_new reliability True False, fr_bit_length = payload_bits part,
      fr_reliable_index = reliable_index, fr_sequence_index = sequence_index,
      fr_ordering_index = ordering_index,
      fr_ordering_channel = map_option (\<lambda>_. channel) ordering_index,
      fr_split = Some \<lparr>si_part_count = of_nat part_count, si_part_id = split_id, si_part_index = of_nat idx\<rparr>,
      fr_payload = part\<rparr>"

fun enqueue_parts :: "Reliability \<Rightarrow> u8 \<Rightarrow> RakPriority \<Rightarrow> u64 option \<Rightarrow> Sequence24 option \<Rightarrow> Sequence24 option
    \<Rightarrow> usize \<Rightarrow> nat \<Rightarrow> u16 \<Rightarrow> nat list \<Rightarrow> Session \<Rightarrow> bytes \<Rightarrow> usize \<Rightarrow> usize \<times> Session" where
  "enqueue_parts reliability channel priority receipt_id sequence_index ordering_index max_split_payload
     part_count split_id [] s payload reliable_bytes = (reliable_bytes, s)"
| "enqueue_parts reliability channel priority receipt_id sequence_index ordering_index max_split_payload
     part_count split_id (idx # idxs) s payload reliable_bytes =
     (let n = min (length payload) max_split_payload;
          part = take n payload;
          payload' = drop n payload;
          (reliable_index, s1) = next_reliable_index_if_needed s reliability;
          frame = split_part_frame reliability channel reliable_index sequence_index ordering_index
                    part_count split_id idx part;
          size = frame_encoded_size frame;
          s2 = push_outgoing_frame s1 frame priority receipt_id;
          reliable_bytes' = (if is_reliable reliability then reliable_bytes + size else reliable_bytes)
      in enqueue_parts reliability channel priority receipt_id sequence_index ordering_index max_split_payload
           part_count split_id idxs s2 payload' reliable_bytes')"

definition enqueue_split_frames :: "Session \<Rightarrow> bytes \<Rightarrow> Reliability \<Rightarrow> u8 \<Rightarrow> RakPriority \<Rightarrow> u64 option
    \<Rightarrow> usize \<times> Session" where
  "enqueue_split_frames s payload reliability0 channel priority receipt_id =
     (let reliability = normalize_reliability_for_split reliability0;
          max_split_payload = max (max_payload_for s reliability True) 1;
          part_count = div_ceil (length payload) max_split_payload;
          split_id = ss_split_write_index s;
          s1 = s\<lparr>ss_split_write_index := ss_split_write_index s + 1\<rparr>;
          (ordering_index, s2) = next_ordering_index_if_needed s1 reliability channel;
          (sequence_index, s3) = next_sequence_index_if_needed s2 reliability channel
      in enqueue_parts reliability channel priority receipt_id sequence_index ordering_index max_split_payload
           part_count split_id [0..<part_count] s3 payload 0)"

section \<open>Backpressure\<close>

definition estimate_queue_impact :: "Session \<Rightarrow> usize \<Rightarrow> Reliability \<Rightarrow> usize \<times> usize \<times> Reliability" where
  "estimate_queue_impact s payload_length reliability =
     (let max_single = max_payload_for s reliability False
      in if payload_length \<le> max_single
         then (1, sat_add (frame_overhead reliability False) payload_length, reliability)
         else let effective = normalize_reliability_for_split reliability;
                  max_split_payload = max (max_payload_for s effective True) 1;
                  part_count = div_ceil payload_length max_split_payload;
                  n = sat_add payload_length (sat_mul part_count (frame_overhead effective True))
              in (part_count, n, effective))"

definition soft_limit :: "rounding \<Rightarrow> usize \<Rightarrow> real \<Rightarrow> usize" where
  "soft_limit rnd hard ratio = nat (max \<lfloor>rnd (rnd (real hard) * ratio)\<rfloor> 1)"

definition evaluate_backpressure :: "rounding \<Rightarrow> Session \<Rightarrow> usize \<Rightarrow> usize \<Rightarrow> Reliability \<Rightarrow> RakPriority
    \<Rightarrow> BackpressureAction" where
  "evaluate_backpressure rnd s added_frames added_bytes reliability priority =
     (let projected_frames = sat_add (pending_outgoing_frames s) added_frames;
          projected_bytes = sat_add (pending_outgoing_bytes s) added_bytes;
          hard_frames = max (ss_outgoing_queue_max_frames s) 1;
          hard_bytes = max (ss_outgoing_queue_max_bytes s) 1;
          soft_frames = soft_limit rnd hard_frames (ss_outgoing_queue_soft_ratio s);
          soft_bytes = soft_limit rnd hard_bytes (ss_outgoing_queue_soft_ratio s);
          exceeds_hard = projected_frames > hard_frames \<or> projected_bytes > hard_bytes;
          exceeds_soft = projected_frames > soft_frames \<or> projected_bytes > soft_bytes;
          reliable = is_reliable reliability
      in if exceeds_hard then
           (case ss_backpressure_mode s of
              Delay \<Rightarrow> BpDefer
            | Shed \<Rightarrow> if \<not> reliable \<or> priority = Normal \<or> priority = Low then BpDrop else BpDefer
            | Disconnect \<Rightarrow> BpDisconnect)
         else if exceeds_soft then BpDefer
         else BpAllow)"

definition queue_payload_with_receipt :: "rounding \<Rightarrow> Session \<Rightarrow> bytes \<Rightarrow> Reliability \<Rightarrow> u8 \<Rightarrow> RakPriority
    \<Rightarrow> u64 option \<Rightarrow> QueuePayloadResult \<times> Session" where
  "queue_payload_with_receipt rnd s payload reliability channel priority receipt_id =
     (let (estimated_frames, estimated_bytes, effective_reliability) =
            estimate_queue_impact s (length payload) reliability
      in case evaluate_backpressure rnd s estimated_frames estimated_bytes effective_reliability priority of
           BpDrop \<Rightarrow>
             (Dropped, bump m_backpressure_drops_update (bump m_outgoing_queue_drops_update s))
         | BpDefer \<Rightarrow>
             (Deferred, bump m_backpressure_delays_update (bump m_outgoing_queue_defers_update s))
         | BpDisconnect \<Rightarrow>
             (DisconnectRequested,
              (bump m_backpressure_disconnects_update (bump m_outgoing_queue_disconnects_update s))
                \<lparr>ss_disconnect_requested_by_backpressure := True\<rparr>)
         | BpAllow \<Rightarrow>
             (let max_single = max_payload_for s reliability False
              in if length payload \<le> max_single
                 then let (reliable_bytes, s1) =
                            enqueue_single_frame s payload reliability channel priority receipt_id
                      in (Enqueued reliable_bytes, s1)
                 else let (reliable_bytes, s1) =
                            enqueue_split_frames s payload reliability channel priority receipt_id
                      in (Enqueued reliable_bytes, s1)))"

definition queue_payload :: "rounding \<Rightarrow> Session \<Rightarrow> bytes \<Rightarrow> Reliability \<Rightarrow> u8 \<Rightarrow> RakPriority
    \<Rightarrow> QueuePayloadResult \<times> Session" where
  "queue_payload rnd s payload reliability channel priority =
     queue_payload_with_receipt rnd s payload reliability channel priority None"

section \<open>Sizes\<close>

lemma payload_bits_len: "drop_bit 3 (unat (payload_bits p) + 7) = length p mod 8192"
proof -
  have "unat (payload_bits p) = (length p * 8) mod 65536"
    by (simp add: payload_bits_def push_bit_eq_mult unat_word_ariths unat_of_nat take_bit_eq_mod mod_simps)
  also have "\<dots> = 8 * (length p mod 8192)"
    using mod_mult_mult1 [of 8 "length p" 8192] by (simp add: mult.commute)
  finally show ?thesis by (simp add: drop_bit_eq_div)
qed

lemma frame_size_payload:
  assumes "fr_bit_length f = payload_bits p"
  shows "frame_encoded_size f = frame_overhead (fr_rel f) (fh_is_split (fr_header f)) + length p mod 8192"
  by (simp add: frame_encoded_size_def frame_overhead_def payload_len_def bits_to_bytes_def assms
      payload_bits_len Let_def)

section \<open>The outgoing queue\<close>

text \<open>
  The heap is a heap; the byte count is the sum of the sizes in it; the cached size and class of
  an entry are those of its frame; the next weight of a level never falls below its initial one.
\<close>

definition heap_bytes :: "QueuedFrame list \<Rightarrow> nat" where
  "heap_bytes h = sum_list (map qf_encoded_size h)"

definition entry_consistent :: "QueuedFrame \<Rightarrow> bool" where
  "entry_consistent q \<longleftrightarrow> qf_encoded_size q = frame_encoded_size (qf_frame q)
     \<and> qf_is_reliable q = is_reliable (fr_rel (qf_frame q))"

definition queue_ok :: "Session \<Rightarrow> bool" where
  "queue_ok s \<longleftrightarrow>
     heap_ok qf_weight (ss_outgoing_heap s)
     \<and> ss_outgoing_queued_bytes s = heap_bytes (ss_outgoing_heap s)
     \<and> list_all entry_consistent (ss_outgoing_heap s)
     \<and> length (ss_outgoing_next_weights s) = 4
     \<and> (\<forall>l < 4. level_weight l \<le> ss_outgoing_next_weights s ! l)"

lemma heap_bytes_mset: "heap_bytes h = sum_mset (image_mset qf_encoded_size (mset h))"
  by (simp add: heap_bytes_def sum_mset_sum_list flip: mset_map)

lemma entries_mset: "list_all P h \<longleftrightarrow> (\<forall>x \<in># mset h. P x)"
  by (simp add: list_all_iff)

lemma heap_bytes_push [simp]: "heap_bytes (heap_push k q h) = qf_encoded_size q + heap_bytes h"
  by (simp add: heap_bytes_mset heap_push_mset)

lemma list_all_push [simp]: "list_all P (heap_push k q h) \<longleftrightarrow> P q \<and> list_all P h"
  by (simp add: entries_mset heap_push_mset)

lemma level_weight_mult: "2 ^ l * l \<le> level_weight l"
  by (simp add: level_weight_def)

text \<open>The subtraction in \<^verbatim>\<open>next_weight\<close> never underflows, and the invariant on the weights is kept.\<close>

lemma next_weight_ok:
  assumes "length (ss_outgoing_next_weights s) = 4"
    and "\<forall>l < 4. level_weight l \<le> ss_outgoing_next_weights s ! l"
    and "next_weight s p = (w, s')"
  shows "2 ^ as_index p * as_index p \<le> w"
    and "length (ss_outgoing_next_weights s') = 4"
    and "\<forall>l < 4. level_weight l \<le> ss_outgoing_next_weights s' ! l"
proof -
  have l: "as_index p < 4" by (rule as_index_less)
  have ge: "2 ^ as_index p * as_index p \<le> ss_outgoing_next_weights s ! as_index p"
    using assms(2) l level_weight_mult [of "as_index p"] order.trans by blast
  have init: "map level_weight [0..<4] ! i = level_weight i" if "i < 4" for i
    using that by simp
  show "2 ^ as_index p * as_index p \<le> w"
    using assms(3) ge by (auto simp: next_weight_def Let_def split: if_splits)
  show "length (ss_outgoing_next_weights s') = 4"
    using assms(1,3) by (auto simp: next_weight_def Let_def split: if_splits)
  show "\<forall>l < 4. level_weight l \<le> ss_outgoing_next_weights s' ! l"
    using assms l init
    by (auto simp: next_weight_def Let_def nth_list_update level_weight_def simp del: upt_Suc upt_conv_Cons split: if_splits)
qed

lemma next_weight_fields:
  assumes "next_weight s p = (w, s')"
  shows "s' = s\<lparr>ss_outgoing_next_weights := ss_outgoing_next_weights s', ss_last_min_weight := ss_last_min_weight s'\<rparr>"
  using assms by (auto simp: next_weight_def Let_def split: if_splits)

text \<open>\<open>queued s fs s'\<close>: the frames \<open>fs\<close> have been added to the queue of \<open>s\<close>.\<close>

definition queued :: "Session \<Rightarrow> Frame list \<Rightarrow> Session \<Rightarrow> bool" where
  "queued s fs s' \<longleftrightarrow>
     queue_ok s'
     \<and> mset (map qf_frame (ss_outgoing_heap s')) = mset (map qf_frame (ss_outgoing_heap s)) + mset fs
     \<and> ss_outgoing_queued_bytes s' = ss_outgoing_queued_bytes s + sum_list (map frame_encoded_size fs)
     \<and> length (ss_outgoing_heap s') = length (ss_outgoing_heap s) + length fs
     \<and> ss_outgoing_queue_max_frames s' = ss_outgoing_queue_max_frames s
     \<and> ss_outgoing_queue_max_bytes s' = ss_outgoing_queue_max_bytes s \<and> ss_mtu s' = ss_mtu s"

lemma queued_trans: "queued s fs s1 \<Longrightarrow> queued s1 fs' s2 \<Longrightarrow> queued s (fs @ fs') s2"
  by (simp add: queued_def)

lemma push_outgoing_frame_ok:
  assumes s: "queue_ok s" and room: "ss_outgoing_queued_bytes s + frame_encoded_size f \<le> U64_MAX"
    and push: "push_outgoing_frame s f p r = s'"
  shows "queue_ok s'"
    and "mset (map qf_frame (ss_outgoing_heap s')) = add_mset f (mset (map qf_frame (ss_outgoing_heap s)))"
    and "ss_outgoing_queued_bytes s' = ss_outgoing_queued_bytes s + frame_encoded_size f"
    and "length (ss_outgoing_heap s') = Suc (length (ss_outgoing_heap s))"
    and "ss_outgoing_queue_max_frames s' = ss_outgoing_queue_max_frames s"
    and "ss_outgoing_queue_max_bytes s' = ss_outgoing_queue_max_bytes s"
    and "ss_reliable_write_index s' = ss_reliable_write_index s" and "ss_mtu s' = ss_mtu s"
proof -
  obtain w s1 where w: "next_weight s p = (w, s1)" by fastforce
  note weights = next_weight_ok [OF _ _ w] and eq = next_weight_fields [OF w]
  define q where "q = \<lparr>qf_weight = w, qf_encoded_size = frame_encoded_size f, qf_is_reliable = is_reliable (fr_rel f),
      qf_priority = p, qf_receipt_id = r, qf_frame = f\<rparr>"
  have heap: "ss_outgoing_heap s1 = ss_outgoing_heap s" and bytes: "ss_outgoing_queued_bytes s1 = ss_outgoing_queued_bytes s"
    by (subst eq, simp)+
  have s': "s' = s1\<lparr>ss_outgoing_queued_bytes := ss_outgoing_queued_bytes s + frame_encoded_size f,
      ss_outgoing_heap := heap_push qf_weight q (ss_outgoing_heap s)\<rparr>"
    using room push by (auto simp: push_outgoing_frame_def w Let_def q_def heap bytes sat_add_exact)
  show "queue_ok s'"
    using s weights by (simp add: s' queue_ok_def heap_push_ok q_def entry_consistent_def)
  show "mset (map qf_frame (ss_outgoing_heap s')) = add_mset f (mset (map qf_frame (ss_outgoing_heap s)))"
    by (simp add: s' heap_push_mset q_def)
  show "ss_outgoing_queue_max_frames s' = ss_outgoing_queue_max_frames s"
    "ss_outgoing_queue_max_bytes s' = ss_outgoing_queue_max_bytes s"
    "ss_reliable_write_index s' = ss_reliable_write_index s" "ss_mtu s' = ss_mtu s"
    by (simp add: s', subst eq, simp)+
  show "ss_outgoing_queued_bytes s' = ss_outgoing_queued_bytes s + frame_encoded_size f"
    "length (ss_outgoing_heap s') = Suc (length (ss_outgoing_heap s))"
    by (simp_all add: s')
qed

lemma push_outgoing_frame_queued:
  assumes "queue_ok s" and "ss_outgoing_queued_bytes s + frame_encoded_size f \<le> U64_MAX"
    and "push_outgoing_frame s f p r = s'"
  shows "queued s [f] s'" and "ss_reliable_write_index s' = ss_reliable_write_index s"
  using push_outgoing_frame_ok [OF assms] by (simp_all add: queued_def)

lemma next_ordering_index_queued:
  assumes "queue_ok s" and "next_ordering_index_if_needed s rel c = (i, s')"
  shows "queued s [] s'" and "ss_reliable_write_index s' = ss_reliable_write_index s"
    and "i \<noteq> None \<longleftrightarrow> is_ordered rel \<or> is_sequenced rel"
  using assms by (auto simp: queued_def queue_ok_def next_ordering_index_if_needed_def split: if_splits prod.splits)

lemma next_sequence_index_queued:
  assumes "queue_ok s" and "next_sequence_index_if_needed s rel c = (i, s')"
  shows "queued s [] s'" and "ss_reliable_write_index s' = ss_reliable_write_index s"
    and "i \<noteq> None \<longleftrightarrow> is_sequenced rel"
  using assms by (auto simp: queued_def queue_ok_def next_sequence_index_if_needed_def split: if_splits prod.splits)

lemma next_reliable_index_queued:
  assumes "queue_ok s" and "next_reliable_index_if_needed s rel = (i, s')"
  shows "queued s [] s'" and "i = (if is_reliable rel then Some (ss_reliable_write_index s) else None)"
    and "ss_reliable_write_index s' = ss_reliable_write_index s + (if is_reliable rel then 1 else 0)"
  using assms
  by (auto simp: queued_def queue_ok_def next_reliable_index_if_needed_def next_reliable_index_def
      seq_next_eq split: if_splits)

lemma queued_ok: "queued s fs s' \<Longrightarrow> queue_ok s'"
  by (simp add: queued_def)

lemma queued_bytes: "queued s fs s' \<Longrightarrow>
    ss_outgoing_queued_bytes s' = ss_outgoing_queued_bytes s + sum_list (map frame_encoded_size fs)"
  by (simp add: queued_def)

section \<open>The parts of a payload\<close>

definition part :: "usize \<Rightarrow> bytes \<Rightarrow> nat \<Rightarrow> bytes" where
  "part m payload i = take m (drop (i * m) payload)"

lemma parts_concat: "concat (map (part m payload) [0..<n]) = take (n * m) payload"
  by (induction n) (simp_all add: part_def take_add [symmetric] add.commute)

lemma div_ceil_cases:
  assumes "0 < m"
  obtains q r where "n = q * m + r" "r < m" "div_ceil n m = (if r = 0 then q else Suc q)"
  using assms that [of "n div m" "n mod m"] by (simp add: div_ceil_def)

lemma div_ceil_covers:
  assumes "0 < m" shows "n \<le> div_ceil n m * m"
  by (rule div_ceil_cases [OF assms, of n]) (auto split: if_splits)

lemma div_ceil_less:
  assumes "0 < m" and "i < div_ceil n m" shows "i * m < n"
proof (rule div_ceil_cases [OF assms(1), of n])
  fix q r assume n: "n = q * m + r" and "r < m" and d: "div_ceil n m = (if r = 0 then q else Suc q)"
  show ?thesis
  proof (cases "r = 0")
    case True
    then show ?thesis using assms n d by simp
  next
    case False
    then have "i \<le> q" using assms d by simp
    then have "i * m \<le> q * m" by (rule mult_le_mono1)
    with n False show ?thesis by linarith
  qed
qed

lemma parts_payload: "0 < m \<Longrightarrow> concat (map (part m payload) [0..<div_ceil (length payload) m]) = payload"
  by (simp add: parts_concat div_ceil_covers)

lemma parts_length: "0 < m \<Longrightarrow> sum_list (map (\<lambda>i. length (part m payload i)) [0..<div_ceil (length payload) m]) = length payload"
  using arg_cong [OF parts_payload [of m payload], of length] by (simp add: length_concat comp_def)

section \<open>Enqueueing\<close>

definition opt_index :: "Reliability \<Rightarrow> Sequence24 \<Rightarrow> Sequence24 option" where
  "opt_index rel i = (if is_reliable rel then Some i else None)"

text \<open>The frame of part \<open>i\<close>, where \<open>base\<close> is the reliable index of part 0.\<close>

definition nth_part :: "Reliability \<Rightarrow> u8 \<Rightarrow> Sequence24 option \<Rightarrow> Sequence24 option \<Rightarrow> usize \<Rightarrow> nat \<Rightarrow> u16
    \<Rightarrow> bytes \<Rightarrow> Sequence24 \<Rightarrow> nat \<Rightarrow> Frame" where
  "nth_part rel ch si oi m n pid payload base i =
     split_part_frame rel ch (opt_index rel (base + of_nat i)) si oi n pid i (part m payload i)"

lemma nth_part_size:
  "m < 8192 \<Longrightarrow> frame_encoded_size (nth_part rel ch si oi m n pid payload base i)
     = frame_overhead rel True + length (part m payload i)"
  by (simp add: nth_part_def split_part_frame_def frame_size_payload [of _ "part m payload i"]
      frame_header_new_def part_def)

lemma enqueue_parts_queued:
  assumes "enqueue_parts rel ch pr rid si oi m n pid [k..<n] s (drop (k * m) payload) rb = (rb', s')"
    and "queue_ok s" and "k \<le> n"
    and "ss_reliable_write_index s = (if is_reliable rel then base + of_nat k else base)"
    and "ss_outgoing_queued_bytes s + sum_list (map frame_encoded_size
           (map (nth_part rel ch si oi m n pid payload base) [k..<n])) \<le> U64_MAX"
  shows "queued s (map (nth_part rel ch si oi m n pid payload base) [k..<n]) s'
     \<and> rb' = rb + (if is_reliable rel then sum_list (map frame_encoded_size
           (map (nth_part rel ch si oi m n pid payload base) [k..<n])) else 0)"
  using assms
proof (induction "n - k" arbitrary: k s rb)
  case 0
  then show ?case by (auto simp: queued_def)
next
  case (Suc d)
  let ?f = "nth_part rel ch si oi m n pid payload base"
  have k: "k < n" "[k..<n] = k # [Suc k..<n]" using Suc.hyps(2) by (simp_all add: upt_conv_Cons)
  obtain ri s1 where ri: "next_reliable_index_if_needed s rel = (ri, s1)" by fastforce
  note ri' = next_reliable_index_queued [OF Suc.prems(2) ri]
  have ri_eq: "ri = opt_index rel (base + of_nat k)"
    using ri'(2) Suc.prems(4) by (simp add: opt_index_def)
  have take: "take (min (length (drop (k * m) payload)) m) (drop (k * m) payload) = part m payload k"
    by (simp add: part_def min_def)
  have drop: "drop (min (length (drop (k * m) payload)) m) (drop (k * m) payload) = drop (Suc k * m) payload"
    by (cases "m \<le> length payload - k * m") (auto simp: min_def add.commute)
  define s2 where "s2 = push_outgoing_frame s1 (?f k) pr rid"
  have room: "ss_outgoing_queued_bytes s1 + frame_encoded_size (?f k) \<le> U64_MAX"
    using Suc.prems(5) queued_bytes [OF ri'(1)] by (simp add: k(2))
  note q = push_outgoing_frame_queued [OF queued_ok [OF ri'(1)] room s2_def [symmetric]]
  have step: "queued s [?f k] s2" using queued_trans [OF ri'(1) q(1)] by simp
  have run: "enqueue_parts rel ch pr rid si oi m n pid [Suc k..<n] s2 (drop (Suc k * m) payload)
      (if is_reliable rel then rb + frame_encoded_size (?f k) else rb) = (rb', s')"
    using Suc.prems(1) unfolding k(2) enqueue_parts.simps Let_def take drop ri
    by (cases "is_reliable rel") (simp_all add: s2_def nth_part_def ri_eq del: drop_drop)
  have "ss_reliable_write_index s2 = (if is_reliable rel then base + of_nat (Suc k) else base)"
    using q(2) ri'(3) Suc.prems(4) by simp
  moreover have "ss_outgoing_queued_bytes s2 + sum_list (map frame_encoded_size (map ?f [Suc k..<n])) \<le> U64_MAX"
    using Suc.prems(5) queued_bytes [OF step] by (simp add: k(2))
  ultimately have IH: "queued s2 (map ?f [Suc k..<n]) s'
     \<and> rb' = (if is_reliable rel then rb + frame_encoded_size (?f k) else rb)
        + (if is_reliable rel then sum_list (map frame_encoded_size (map ?f [Suc k..<n])) else 0)"
    using Suc.hyps(1) [OF _ run queued_ok [OF step]] Suc.hyps(2) k(1) by simp
  then have "queued s ([?f k] @ map ?f [Suc k..<n]) s'" using queued_trans [OF step] by blast
  with IH show ?case by (simp add: k(2))
qed

text \<open>A payload that is split is always sent reliably.\<close>

lemma normalize_reliable [simp]: "is_reliable (normalize_reliability_for_split rel)"
  by (cases rel) simp_all

definition split_capacity :: "Session \<Rightarrow> Reliability \<Rightarrow> usize" where
  "split_capacity s rel = max_payload_for s (normalize_reliability_for_split rel) True"

lemma split_capacity_pos [simp]: "0 < split_capacity s rel"
  by (simp add: split_capacity_def max_payload_for_def)

text \<open>The sizes of the parts of a payload add up to what \<^verbatim>\<open>estimate_queue_impact\<close> says.\<close>

lemma parts_size:
  assumes "0 < m" "m < 8192" and "n = div_ceil (length payload) m"
  shows "sum_list (map frame_encoded_size (map (nth_part rel ch si oi m n pid payload base) [0..<n]))
    = length payload + n * frame_overhead rel True"
proof -
  have "sum_list (map frame_encoded_size (map (nth_part rel ch si oi m n pid payload base) [0..<n]))
      = sum_list (map (\<lambda>i. frame_overhead rel True + length (part m payload i)) [0..<n])"
    using assms(2) by (simp add: nth_part_size comp_def)
  also have "\<dots> = n * frame_overhead rel True + sum_list (map (\<lambda>i. length (part m payload i)) [0..<n])"
    by (simp add: sum_list_addf sum_list_triv)
  finally show ?thesis using parts_length [OF assms(1), of payload] assms(3) by simp
qed

lemma enqueue_split_frames_queued:
  assumes "enqueue_split_frames s payload rel0 ch pr rid = (rb, s')" and "queue_ok s"
    and rel: "rel = normalize_reliability_for_split rel0" and m: "m = split_capacity s rel0" "m < 8192"
    and n: "n = div_ceil (length payload) m"
    and room: "ss_outgoing_queued_bytes s + (length payload + n * frame_overhead rel True) \<le> U64_MAX"
  shows "\<exists>si oi. queued s (map (nth_part rel ch si oi m n (ss_split_write_index s) payload
             (ss_reliable_write_index s)) [0..<n]) s'
           \<and> (oi \<noteq> None \<longleftrightarrow> is_ordered rel \<or> is_sequenced rel) \<and> (si \<noteq> None \<longleftrightarrow> is_sequenced rel)
           \<and> rb = length payload + n * frame_overhead rel True"
proof -
  define s1 where "s1 = s\<lparr>ss_split_write_index := ss_split_write_index s + 1\<rparr>"
  have q1: "queued s [] s1" "ss_reliable_write_index s1 = ss_reliable_write_index s"
    using assms(2) by (simp_all add: queued_def s1_def queue_ok_def)
  obtain oi s2 where o: "next_ordering_index_if_needed s1 rel ch = (oi, s2)" by fastforce
  obtain si s3 where i: "next_sequence_index_if_needed s2 rel ch = (si, s3)" by fastforce
  note q2 = next_ordering_index_queued [OF queued_ok [OF q1(1)] o]
  note q3 = next_sequence_index_queued [OF queued_ok [OF q2(1)] i]
  have q: "queued s [] s3" using queued_trans [OF queued_trans [OF q1(1) q2(1)] q3(1)] by simp
  have m1: "max (max_payload_for s rel True) 1 = m" "0 < m"
    using m split_capacity_pos [of s rel0] by (auto simp: split_capacity_def rel max_def)
  have run: "enqueue_parts rel ch pr rid si oi m n (ss_split_write_index s) [0..<n] s3 (drop (0 * m) payload) 0 = (rb, s')"
    using assms(1) unfolding enqueue_split_frames_def Let_def rel [symmetric] m1(1) n [symmetric]
    by (simp add: o i flip: s1_def)
  note size = parts_size [OF m1(2) m(2) n]
  have "ss_reliable_write_index s3 = (if is_reliable rel then ss_reliable_write_index s + of_nat 0 else ss_reliable_write_index s)"
    using q1(2) q2(2) q3(2) by simp
  from enqueue_parts_queued [OF run queued_ok [OF q] _ this] room
  have "queued s3 (map (nth_part rel ch si oi m n (ss_split_write_index s) payload (ss_reliable_write_index s)) [0..<n]) s'"
    "rb = length payload + n * frame_overhead rel True"
    using queued_bytes [OF q] by (simp_all only: size) (simp_all add: rel)
  with queued_trans [OF q] q2(3) q3(3) show ?thesis by (intro exI [of _ si] exI [of _ oi]) simp
qed

text \<open>The single frame of a payload that fits.\<close>

definition single_frame :: "Reliability \<Rightarrow> u8 \<Rightarrow> Sequence24 \<Rightarrow> Sequence24 option \<Rightarrow> Sequence24 option \<Rightarrow> bytes \<Rightarrow> Frame" where
  "single_frame rel ch ri si oi payload =
     \<lparr>fr_header = frame_header_new rel False False, fr_bit_length = payload_bits payload,
      fr_reliable_index = opt_index rel ri, fr_sequence_index = si, fr_ordering_index = oi,
      fr_ordering_channel = map_option (\<lambda>_. ch) oi, fr_split = None, fr_payload = payload\<rparr>"

lemma single_frame_size:
  "length payload < 8192 \<Longrightarrow> frame_encoded_size (single_frame rel ch ri si oi payload) = frame_overhead rel False + length payload"
  by (simp add: single_frame_def frame_size_payload [of _ payload] frame_header_new_def)

lemma enqueue_single_frame_queued:
  assumes "enqueue_single_frame s payload rel ch pr rid = (rb, s')" and "queue_ok s" and len: "length payload < 8192"
    and room: "ss_outgoing_queued_bytes s + (frame_overhead rel False + length payload) \<le> U64_MAX"
  shows "\<exists>si oi. queued s [single_frame rel ch (ss_reliable_write_index s) si oi payload] s'
           \<and> (oi \<noteq> None \<longleftrightarrow> is_ordered rel \<or> is_sequenced rel) \<and> (si \<noteq> None \<longleftrightarrow> is_sequenced rel)
           \<and> rb = (if is_reliable rel then frame_overhead rel False + length payload else 0)"
proof -
  obtain oi s1 where o: "next_ordering_index_if_needed s rel ch = (oi, s1)" by fastforce
  obtain si s2 where i: "next_sequence_index_if_needed s1 rel ch = (si, s2)" by fastforce
  obtain ri s3 where r: "next_reliable_index_if_needed s2 rel = (ri, s3)" by fastforce
  note q1 = next_ordering_index_queued [OF assms(2) o]
  note q2 = next_sequence_index_queued [OF queued_ok [OF q1(1)] i]
  note q3 = next_reliable_index_queued [OF queued_ok [OF q2(1)] r]
  have q: "queued s [] s3" using queued_trans [OF queued_trans [OF q1(1) q2(1)] q3(1)] by simp
  let ?f = "single_frame rel ch (ss_reliable_write_index s) si oi payload"
  have "ri = opt_index rel (ss_reliable_write_index s)" using q1(2) q2(2) q3(2) by (simp add: opt_index_def)
  then have res: "push_outgoing_frame s3 ?f pr rid = s'" "rb = (if is_reliable rel then frame_encoded_size ?f else 0)"
    using assms(1) by (auto simp: enqueue_single_frame_def o i r single_frame_def Let_def)
  have "ss_outgoing_queued_bytes s3 + frame_encoded_size ?f \<le> U64_MAX"
    using room queued_bytes [OF q] len by (simp add: single_frame_size)
  from push_outgoing_frame_queued(1) [OF queued_ok [OF q] this res(1)] queued_trans [OF q]
  have "queued s [?f] s'" by fastforce
  with res(2) q1(3) q2(3) len show ?thesis
    by (intro exI [of _ si] exI [of _ oi]) (simp add: single_frame_size)
qed

section \<open>Limits\<close>

lemma evaluate_allow:
  "evaluate_backpressure rnd s frames bytes rel pr = BpAllow \<Longrightarrow>
     sat_add (pending_outgoing_frames s) frames \<le> max (ss_outgoing_queue_max_frames s) 1
     \<and> sat_add (pending_outgoing_bytes s) bytes \<le> max (ss_outgoing_queue_max_bytes s) 1"
  by (auto simp: evaluate_backpressure_def Let_def not_less split: if_splits BackpressureMode.splits)

text \<open>The limits are not the largest \<^verbatim>\<open>usize\<close>, so that a saturated sum exceeds them.\<close>

definition limits_ok :: "Session \<Rightarrow> bool" where
  "limits_ok s \<longleftrightarrow> ss_outgoing_queue_max_frames s < U64_MAX \<and> ss_outgoing_queue_max_bytes s < U64_MAX
     \<and> ss_mtu s \<le> 8192"

lemma max_payload_small: "ss_mtu s \<le> 8192 \<Longrightarrow> max_payload_for s rel sp < 8192"
  by (simp add: max_payload_for_def RAKNET_DATAGRAM_HEADER_SIZE_def)

lemma sat_add_below: "sat_add a b \<le> c \<Longrightarrow> c < U64_MAX \<Longrightarrow> sat_add a b = a + b"
  by (simp add: sat_add_def min_def split: if_splits)

lemma sat_mul_below: "sat_mul a b < U64_MAX \<Longrightarrow> sat_mul a b = a * b"
  by (simp add: sat_mul_def min_def split: if_splits)

text \<open>What is queued for a payload: frames that carry it, of the sizes that were estimated.\<close>

definition carries :: "Session \<Rightarrow> bytes \<Rightarrow> Reliability \<Rightarrow> Frame list \<Rightarrow> bool" where
  "carries s payload rel fs \<longleftrightarrow>
     concat (map fr_payload fs) = payload
     \<and> (\<exists>rel'. estimate_queue_impact s (length payload) rel = (length fs, sum_list (map frame_encoded_size fs), rel')
           \<and> (\<forall>f \<in> set fs. fr_rel f = rel'))"

lemma queue_allowed:
  assumes "evaluate_backpressure rnd s frames bytes rel' pr = BpAllow" and lim: "limits_ok s"
    and est: "estimate_queue_impact s (length payload) rel = (frames, bytes, rel')"
  shows "pending_outgoing_frames s + frames \<le> max (ss_outgoing_queue_max_frames s) 1"
    and "pending_outgoing_bytes s + bytes \<le> max (ss_outgoing_queue_max_bytes s) 1"
    and "pending_outgoing_bytes s + bytes < U64_MAX"
proof -
  have "max (ss_outgoing_queue_max_frames s) 1 < U64_MAX" "max (ss_outgoing_queue_max_bytes s) 1 < U64_MAX"
    using lim by (auto simp: limits_ok_def U64_MAX_def)
  with evaluate_allow [OF assms(1)]
  show "pending_outgoing_frames s + frames \<le> max (ss_outgoing_queue_max_frames s) 1"
    and b: "pending_outgoing_bytes s + bytes \<le> max (ss_outgoing_queue_max_bytes s) 1"
    using sat_add_below by metis+
  with \<open>max (ss_outgoing_queue_max_bytes s) 1 < U64_MAX\<close>
  show "pending_outgoing_bytes s + bytes < U64_MAX" by linarith
qed

lemma estimate_single:
  "length payload \<le> max_payload_for s rel False \<Longrightarrow> estimate_queue_impact s (length payload) rel = (frames, bytes, rel')
   \<Longrightarrow> bytes < U64_MAX \<Longrightarrow> frames = 1 \<and> bytes = frame_overhead rel False + length payload \<and> rel' = rel"
  by (auto simp: estimate_queue_impact_def sat_add_def min_def split: if_splits)

lemma estimate_split:
  assumes "\<not> length payload \<le> max_payload_for s rel False"
    and "estimate_queue_impact s (length payload) rel = (frames, bytes, rel')" and "bytes < U64_MAX"
  shows "frames = div_ceil (length payload) (split_capacity s rel)"
    and "rel' = normalize_reliability_for_split rel" and "bytes = length payload + frames * frame_overhead rel' True"
proof -
  have max: "max (split_capacity s rel) 1 = split_capacity s rel"
    by (simp add: split_capacity_def max_payload_for_def)
  then show fr: "frames = div_ceil (length payload) (split_capacity s rel)"
    and r: "rel' = normalize_reliability_for_split rel"
    using assms by (auto simp: estimate_queue_impact_def split_capacity_def Let_def)
  have bytes: "bytes = sat_add (length payload) (sat_mul frames (frame_overhead rel' True))"
    using assms max by (auto simp: estimate_queue_impact_def split_capacity_def Let_def)
  with assms(3) have "sat_mul frames (frame_overhead rel' True) < U64_MAX"
    by (auto simp: sat_add_def min_def split: if_splits)
  then show "bytes = length payload + frames * frame_overhead rel' True"
    using bytes assms(3) by (simp add: sat_mul_below sat_add_def min_def split: if_splits)
qed

lemma queue_payload_allowed:
  assumes ok: "queue_ok s" "limits_ok s"
    and run: "queue_payload_with_receipt rnd s payload rel ch pr rid = (Enqueued rb, s')"
  shows "\<exists>fs. queued s fs s' \<and> carries s payload rel fs
           \<and> pending_outgoing_frames s' \<le> max (ss_outgoing_queue_max_frames s) 1
           \<and> pending_outgoing_bytes s' \<le> max (ss_outgoing_queue_max_bytes s) 1
           \<and> rb = (if \<forall>f \<in> set fs. is_reliable (fr_rel f) then sum_list (map frame_encoded_size fs) else 0)"
proof -
  obtain frames bytes rel' where est: "estimate_queue_impact s (length payload) rel = (frames, bytes, rel')"
    by (metis prod_cases3)
  have allow: "evaluate_backpressure rnd s frames bytes rel' pr = BpAllow"
    using run by (auto simp: queue_payload_with_receipt_def est split: BackpressureAction.splits)
  note lim = queue_allowed [OF allow ok(2) est]
  have small: "bytes < U64_MAX" using lim(3) by simp
  have mtu: "ss_mtu s \<le> 8192" using ok(2) by (simp add: limits_ok_def)
  have bounds: "pending_outgoing_frames s' \<le> max (ss_outgoing_queue_max_frames s) 1
      \<and> pending_outgoing_bytes s' \<le> max (ss_outgoing_queue_max_bytes s) 1"
    if "queued s fs s'" "length fs = frames" "sum_list (map frame_encoded_size fs) = bytes" for fs
    using lim that by (simp add: queued_def pending_outgoing_frames_def pending_outgoing_bytes_def)
  show ?thesis
  proof (cases "length payload \<le> max_payload_for s rel False")
    case True
    note e = estimate_single [OF True est small]
    have len: "length payload < 8192" using True max_payload_small [OF mtu] le_less_trans by blast
    have "enqueue_single_frame s payload rel ch pr rid = (rb, s')"
      using run True allow by (auto simp: queue_payload_with_receipt_def est split: prod.splits)
    from enqueue_single_frame_queued [OF this ok(1) len] lim(3) e
    obtain si oi where q: "queued s [single_frame rel ch (ss_reliable_write_index s) si oi payload] s'"
      and "rb = (if is_reliable rel then frame_overhead rel False + length payload else 0)"
      by (auto simp: pending_outgoing_bytes_def)
    then show ?thesis using bounds [OF q] e est len
      by (intro exI [of _ "[single_frame rel ch (ss_reliable_write_index s) si oi payload]"])
        (simp add: carries_def single_frame_size, simp add: single_frame_def frame_header_new_def)
  next
    case False
    note e = estimate_split [OF False est small]
    let ?m = "split_capacity s rel"
    have m: "?m < 8192" using max_payload_small [OF mtu] by (simp add: split_capacity_def)
    have "enqueue_split_frames s payload rel ch pr rid = (rb, s')"
      using run False allow by (auto simp: queue_payload_with_receipt_def est split: prod.splits)
    from enqueue_split_frames_queued [OF this ok(1) e(2) HOL.refl m e(1)] lim(3) e(3)
    obtain si oi where q: "queued s (map (nth_part rel' ch si oi ?m frames (ss_split_write_index s) payload
        (ss_reliable_write_index s)) [0..<frames]) s'" and rb: "rb = bytes"
      by (auto simp: pending_outgoing_bytes_def)
    let ?fs = "map (nth_part rel' ch si oi ?m frames (ss_split_write_index s) payload (ss_reliable_write_index s)) [0..<frames]"
    have size: "sum_list (map frame_encoded_size ?fs) = bytes"
      using parts_size [OF split_capacity_pos m e(1)] e(3) by blast
    have "concat (map fr_payload ?fs) = payload"
      using parts_payload [OF split_capacity_pos [of s rel], of payload] by (simp add: nth_part_def split_part_frame_def comp_def e(1))
    moreover have "\<forall>f \<in> set ?fs. fr_rel f = rel' \<and> fr_split f \<noteq> None"
      by (simp add: nth_part_def split_part_frame_def frame_header_new_def)
    ultimately show ?thesis
      using bounds [OF q _ size] q rb est size e(2) by (intro exI [of _ ?fs]) (auto simp: carries_def)
  qed
qed

text \<open>A payload that is not accepted leaves no trace but in the metrics and the disconnect flag.\<close>

lemma queue_payload_refused:
  assumes "queue_payload_with_receipt rnd s payload rel ch pr rid = (res, s')" and "\<nexists>rb. res = Enqueued rb"
  shows "s' = s\<lparr>ss_metrics := ss_metrics s', ss_disconnect_requested_by_backpressure :=
      (ss_disconnect_requested_by_backpressure s \<or> res = DisconnectRequested)\<rparr>"
  using assms
  by (auto simp: queue_payload_with_receipt_def Let_def split: BackpressureAction.splits prod.splits if_splits)

section \<open>What the queue promises\<close>

lemma default_queue [simp]:
  "ss_outgoing_heap default_session = []" "ss_outgoing_queued_bytes default_session = 0"
  "ss_outgoing_next_weights default_session = map level_weight [0..<4]" "ss_mtu default_session = 1200"
  "ss_outgoing_queue_max_frames default_session = 8192" "ss_outgoing_queue_max_bytes default_session = 8388608"
  "ss_outgoing_queue_soft_ratio default_session = 17 / 20" "ss_backpressure_mode default_session = Shed"
  by (simp_all add: default_session_def session_init_def Let_def tunables_default_def default_params_def f64_clamp_def)

lemma default_queue_ok: "queue_ok default_session"
  by (auto simp: queue_ok_def heap_ok_def heap_bytes_def nth_append less_Suc_eq numeral_eq_Suc)

lemma default_limits_ok: "limits_ok default_session"
  by (simp add: limits_ok_def U64_MAX_def)

text \<open>C6: a payload that is accepted is queued as frames that carry it completely and in order, exactly as
  many and as large as estimated; the queue then holds at most the configured number of frames and
  bytes, its byte counter and heap stay consistent, and the number returned is the size of the
  reliable frames.\<close>

theorem queue_respects_limits:
  assumes "queue_ok s" "limits_ok s" and "queue_payload_with_receipt rnd s payload rel ch pr rid = (Enqueued rb, s')"
  shows "\<exists>fs. queued s fs s' \<and> carries s payload rel fs
           \<and> pending_outgoing_frames s' \<le> max (ss_outgoing_queue_max_frames s) 1
           \<and> pending_outgoing_bytes s' \<le> max (ss_outgoing_queue_max_bytes s) 1
           \<and> rb = (if \<forall>f \<in> set fs. is_reliable (fr_rel f) then sum_list (map frame_encoded_size fs) else 0)"
  by (rule queue_payload_allowed [OF assms])

lemma default_queue_small:
  "fst (queue_payload_with_receipt id default_session [1, 2, 3] Reliable 0 Normal None) = Enqueued 9"
  by (simp add: queue_payload_with_receipt_def estimate_queue_impact_def max_payload_for_def frame_overhead_def
      evaluate_backpressure_def soft_limit_def sat_add_def U64_MAX_def pending_outgoing_frames_def pending_outgoing_bytes_def
      RAKNET_DATAGRAM_HEADER_SIZE_def enqueue_single_frame_def Let_def split_beta frame_encoded_size_def frame_header_new_def
      payload_bits_def bits_to_bytes_def payload_len_def drop_bit_eq_div)

theorem queue_respects_limits_witness:
  "\<exists>s' fs. queue_payload_with_receipt id default_session [1, 2, 3] Reliable 0 Normal None = (Enqueued 9, s')
     \<and> queued default_session fs s' \<and> carries default_session [1, 2, 3] Reliable fs"
proof -
  obtain s' where s': "queue_payload_with_receipt id default_session [1, 2, 3] Reliable 0 Normal None = (Enqueued 9, s')"
    using default_queue_small by (metis prod.collapse)
  from queue_respects_limits [OF default_queue_ok default_limits_ok s'] s' show ?thesis by blast
qed

text \<open>C31: a payload that is dropped, deferred or answered with a disconnect request leaves nothing behind
  but counters and the request: no frame, no index and no weight is used up.\<close>

theorem refused_payload_no_trace:
  assumes "queue_payload_with_receipt rnd s payload rel ch pr rid = (res, s')" and "\<nexists>rb. res = Enqueued rb"
  shows "s' = s\<lparr>ss_metrics := ss_metrics s', ss_disconnect_requested_by_backpressure :=
      (ss_disconnect_requested_by_backpressure s \<or> res = DisconnectRequested)\<rparr>"
  by (rule queue_payload_refused [OF assms])

definition tight_session :: Session where
  "tight_session = default_session\<lparr>ss_outgoing_queue_max_bytes := 4, ss_backpressure_mode := Disconnect\<rparr>"

theorem refused_payload_no_trace_witness:
  "\<exists>s'. queue_payload_with_receipt id tight_session [1, 2, 3] Reliable 0 Normal None = (DisconnectRequested, s')
     \<and> s' = tight_session\<lparr>ss_metrics := ss_metrics s', ss_disconnect_requested_by_backpressure :=
         (ss_disconnect_requested_by_backpressure tight_session \<or> DisconnectRequested = DisconnectRequested)\<rparr>"
proof -
  have "fst (queue_payload_with_receipt id tight_session [1, 2, 3] Reliable 0 Normal None) = DisconnectRequested"
    by (simp add: queue_payload_with_receipt_def estimate_queue_impact_def max_payload_for_def frame_overhead_def
      evaluate_backpressure_def soft_limit_def sat_add_def U64_MAX_def pending_outgoing_frames_def pending_outgoing_bytes_def
      RAKNET_DATAGRAM_HEADER_SIZE_def Let_def tight_session_def)
  then obtain s' where s': "queue_payload_with_receipt id tight_session [1, 2, 3] Reliable 0 Normal None = (DisconnectRequested, s')"
    by (metis prod.collapse)
  from refused_payload_no_trace [OF s'] s' show ?thesis by blast
qed

end
