(* ===== verification/SessionTransmit.thy ===== *)
theory SessionTransmit
  imports SessionReceive SessionControl SessionQueue
begin

text \<open>
  \<^verbatim>\<open>src/session/mod.rs\<close>, lines 618 to 702, 776 to 1047 and 1318 to 1531: what a session sends.  ACK
  and NACK datagrams, packing queued frames into datagrams, the record of what is in flight, the
  treatment of the peer's ACKs and NACKs, retransmission, and the tick that drives them.
\<close>

section \<open>ACK and NACK datagrams\<close>

definition drain_ack_datagram :: "Session \<Rightarrow> Instant \<Rightarrow> Datagram option \<times> Session" where
  "drain_ack_datagram s now =
     (let (ranges, q) = pop_for_mtu (ss_outgoing_acks s) (ss_mtu s) 3 (ss_ack_max_ranges_per_datagram s);
          s1 = s\<lparr>ss_outgoing_acks := q\<rparr>
      in if ranges = [] then (None, s1)
         else (Some \<lparr>dg_header = \<lparr>dh_flags = FLAG_VALID OR FLAG_ACK, dh_sequence = seq_new 0\<rparr>,
                     dg_payload = Ack \<lparr>ann_ranges = ranges\<rparr>\<rparr>,
               bump m_ack_out_datagrams_update (s1\<lparr>ss_next_ack_flush_at := now + ss_ack_flush_interval s1\<rparr>)))"

definition drain_nack_datagram :: "Session \<Rightarrow> Instant \<Rightarrow> Datagram option \<times> Session" where
  "drain_nack_datagram s now =
     (let (ranges, q) = pop_for_mtu (ss_outgoing_nacks s) (ss_mtu s) 3 (ss_nack_max_ranges_per_datagram s);
          s1 = s\<lparr>ss_outgoing_nacks := q\<rparr>
      in if ranges = [] then (None, s1)
         else (Some \<lparr>dg_header = \<lparr>dh_flags = FLAG_VALID OR FLAG_NACK, dh_sequence = seq_new 0\<rparr>,
                     dg_payload = Nack \<lparr>ann_ranges = ranges\<rparr>\<rparr>,
               bump m_nack_out_datagrams_update (s1\<lparr>ss_next_nack_flush_at := now + ss_nack_flush_interval s1\<rparr>)))"

definition flush_ack_if_due :: "Session \<Rightarrow> Instant \<Rightarrow> Datagram list \<times> Session" where
  "flush_ack_if_due s now =
     (if ackq_is_empty (ss_outgoing_acks s) \<or> now < ss_next_ack_flush_at s then ([], s)
      else case drain_ack_datagram s now of (Some ack, s1) \<Rightarrow> ([ack], s1) | (None, s1) \<Rightarrow> ([], s1))"

definition flush_nack_if_due :: "Session \<Rightarrow> Instant \<Rightarrow> Datagram list \<times> Session" where
  "flush_nack_if_due s now =
     (if ackq_is_empty (ss_outgoing_nacks s) \<or> now < ss_next_nack_flush_at s then ([], s)
      else case drain_nack_datagram s now of (Some nack, s1) \<Rightarrow> ([nack], s1) | (None, s1) \<Rightarrow> ([], s1))"

section \<open>Packing frames into a datagram\<close>

definition has_immediate_outgoing_frame :: "Session \<Rightarrow> bool" where
  "has_immediate_outgoing_frame s \<longleftrightarrow> list_ex (\<lambda>q. qf_priority q = Immediate) (ss_outgoing_heap s)"

definition min_queued_frame_size :: "Session \<Rightarrow> usize option" where
  "min_queued_frame_size s =
     (if ss_outgoing_heap s = [] then None else Some (min_list (map qf_encoded_size (ss_outgoing_heap s))))"

text \<open>The \<^verbatim>\<open>while let Some(candidate) = self.outgoing_heap.pop()\<close> loop.\<close>

definition eligible :: "bool \<Rightarrow> usize \<Rightarrow> usize \<Rightarrow> usize \<Rightarrow> QueuedFrame \<Rightarrow> bool" where
  "eligible allow_reliable mtu datagram_size budget candidate \<longleftrightarrow>
     (let fits_mtu = sat_add datagram_size (qf_encoded_size candidate) \<le> mtu;
          fits_budget = qf_encoded_size candidate \<le> budget;
          reliability_ok = allow_reliable \<or> \<not> qf_is_reliable candidate
      in fits_mtu \<and> fits_budget \<and> reliability_ok)"

function pop_candidates :: "(QueuedFrame \<Rightarrow> bool) \<Rightarrow> QueuedFrame list \<Rightarrow> QueuedFrame list
    \<Rightarrow> QueuedFrame option \<times> QueuedFrame list \<times> QueuedFrame list" where
  "pop_candidates ok deferred heap =
     (case heap_pop qf_weight heap of
        None \<Rightarrow> (None, deferred, heap)
      | Some (candidate, heap') \<Rightarrow>
          if ok candidate then (Some candidate, deferred, heap')
          else pop_candidates ok (deferred @ [candidate]) heap')"
  by pat_completeness auto
termination
  by (relation "measure (\<lambda>(ok, deferred, heap). length heap)") (auto dest: heap_pop_shorter)

declare pop_candidates.simps [simp del]

definition pop_next_frame_for_datagram :: "Session \<Rightarrow> bool \<Rightarrow> usize \<Rightarrow> usize \<Rightarrow> QueuedFrame option \<times> Session" where
  "pop_next_frame_for_datagram s allow_reliable datagram_size remaining_bytes_budget =
     (let (selected, deferred, heap) =
            pop_candidates (eligible allow_reliable (ss_mtu s) datagram_size remaining_bytes_budget) [] (ss_outgoing_heap s)
      in (selected, s\<lparr>ss_outgoing_heap := fold (heap_push qf_weight) deferred heap\<rparr>))"

lemma pop_candidates_length:
  "pop_candidates ok deferred heap = (sel, deferred', heap') \<Longrightarrow>
     length deferred' + length heap' + (if sel = None then 0 else 1) = length deferred + length heap"
proof (induction ok deferred heap rule: pop_candidates.induct)
  case (1 ok deferred heap)
  note step = 1(2) [unfolded pop_candidates.simps [of ok deferred heap]]
  show ?case
  proof (cases "heap_pop qf_weight heap")
    case None
    then show ?thesis using step by auto
  next
    case (Some p)
    obtain c heap1 where p: "p = (c, heap1)" by (cases p)
    have "length heap = Suc (length heap1)" using heap_pop_shorter Some p by fastforce
    moreover have "\<not> ok c \<Longrightarrow> pop_candidates ok (deferred @ [c]) heap1 = (sel, deferred', heap')"
      using step Some p by simp
    ultimately show ?thesis using step Some p 1(1) [OF Some p [symmetric]] by (cases "ok c") auto
  qed
qed

lemma length_fold_push [simp]: "length (fold (heap_push k) xs h) = length xs + length h"
  by (induction xs arbitrary: h) simp_all

lemma pop_next_length:
  "pop_next_frame_for_datagram s allow sz budget = (Some q, s') \<Longrightarrow>
     length (ss_outgoing_heap s) = Suc (length (ss_outgoing_heap s'))"
  by (auto simp: pop_next_frame_for_datagram_def split: prod.splits dest!: pop_candidates_length)

text \<open>The local variables of \<^verbatim>\<open>build_data_datagram\<close>.\<close>

record Building =
  bd_frames :: "Frame list"
  bd_receipt_ids :: "u64 list"
  bd_size :: usize
  bd_has_reliable :: bool
  bd_has_split :: bool

definition start_building :: Building where
  "start_building = \<lparr>bd_frames = [], bd_receipt_ids = [], bd_size = RAKNET_DATAGRAM_HEADER_SIZE,
     bd_has_reliable = False, bd_has_split = False\<rparr>"

definition add_queued :: "Building \<Rightarrow> QueuedFrame \<Rightarrow> Building" where
  "add_queued b q =
     \<lparr>bd_frames = bd_frames b @ [qf_frame q],
      bd_receipt_ids = (case qf_receipt_id q of
                          Some r \<Rightarrow> if r \<in> set (bd_receipt_ids b) then bd_receipt_ids b else bd_receipt_ids b @ [r]
                        | None \<Rightarrow> bd_receipt_ids b),
      bd_size = bd_size b + qf_encoded_size q,
      bd_has_reliable = (bd_has_reliable b \<or> qf_is_reliable q),
      bd_has_split = (bd_has_split b \<or> fh_is_split (fr_header (qf_frame q)))\<rparr>"

function fill_datagram :: "rounding \<Rightarrow> Session \<Rightarrow> usize \<Rightarrow> Building \<Rightarrow> Building \<times> usize \<times> Session" where
  "fill_datagram rnd s budget b =
     (let allow_reliable = bd_has_reliable b \<or> can_emit_new_reliable_datagram rnd s
      in case pop_next_frame_for_datagram s allow_reliable (bd_size b) budget of
           (None, s1) \<Rightarrow> (b, budget, s1)
         | (Some item, s1) \<Rightarrow>
             fill_datagram rnd
               (s1\<lparr>ss_outgoing_queued_bytes := ss_outgoing_queued_bytes s1 - qf_encoded_size item\<rparr>)
               (budget - qf_encoded_size item) (add_queued b item))"
  by pat_completeness auto
termination
  by (relation "measure (\<lambda>(rnd, s, budget, b). length (ss_outgoing_heap s))") (auto dest!: sym [of "(Some _, _)"] pop_next_length)

declare fill_datagram.simps [simp del]

section \<open>What is in flight\<close>

definition has_frame_with :: "(Reliability \<Rightarrow> bool) \<Rightarrow> DatagramPayload \<Rightarrow> bool" where
  "has_frame_with p payload =
     (case payload of Frames frames \<Rightarrow> list_ex (\<lambda>f. p (fr_rel f)) frames | Ack _ \<Rightarrow> False | Nack _ \<Rightarrow> False)"

definition count_receipt :: "u64 \<Rightarrow> Session \<Rightarrow> Session" where
  "count_receipt receipt_id s =
     s\<lparr>ss_receipt_tracking :=
        AList.update receipt_id
          (sat_add (case map_of (ss_receipt_tracking s) receipt_id of Some c \<Rightarrow> c | None \<Rightarrow> 0) 1)
          (ss_receipt_tracking s)\<rparr>"

definition track_sent_reliable_datagram :: "Session \<Rightarrow> Datagram \<Rightarrow> Instant \<Rightarrow> u64 list \<Rightarrow> Session" where
  "track_sent_reliable_datagram s datagram now receipt_ids =
     (let seq = dh_sequence (dg_header datagram);
          has_reliable = has_frame_with is_reliable (dg_payload datagram);
          has_ack_receipt = has_frame_with is_with_ack_receipt (dg_payload datagram)
      in if \<not> has_reliable \<and> \<not> has_ack_receipt \<and> receipt_ids = [] then s
         else let s1 = (if has_reliable then bump m_reliable_sent_datagrams_update s else s);
                  s2 = fold count_receipt receipt_ids s1
              in s2\<lparr>ss_sent_datagrams :=
                    bt_insert seq_cmp seq
                      \<lparr>td_datagram = datagram, td_send_time = now, td_next_send = now + ss_resend_rto s2,
                       td_retries = 0, td_nack_resend_pending = False, td_resendable = has_reliable,
                       td_receipt_ids = receipt_ids\<rparr>
                      (ss_sent_datagrams s2)\<rparr>)"

definition build_data_datagram :: "rounding \<Rightarrow> Session \<Rightarrow> Instant \<Rightarrow> usize \<Rightarrow> Datagram option \<times> usize \<times> Session" where
  "build_data_datagram rnd s now budget =
     (if ss_outgoing_heap s = [] \<or> budget = 0 then (None, budget, s)
      else let (b, budget1, s1) = fill_datagram rnd s budget start_building
           in if bd_frames b = [] then (None, budget1, s1)
              else let flags = (if ss_outgoing_heap s1 \<noteq> [] \<or> bd_has_split b
                                then FLAG_VALID OR FLAG_CONTINUOUS_SEND else FLAG_VALID OR FLAG_HAS_B_AND_AS);
                       (seq, s2) = next_datagram_sequence s1;
                       datagram = \<lparr>dg_header = \<lparr>dh_flags = flags, dh_sequence = seq\<rparr>,
                                   dg_payload = Frames (bd_frames b)\<rparr>;
                       s3 = (if bd_has_reliable b \<or> bd_receipt_ids b \<noteq> []
                             then track_sent_reliable_datagram s2 datagram now (bd_receipt_ids b) else s2)
                   in (Some datagram, budget1, s3))"

section \<open>The peer's ACKs and NACKs\<close>

function for_each_sequence :: "Sequence24 \<Rightarrow> Sequence24 \<Rightarrow> (Sequence24 \<Rightarrow> 's \<Rightarrow> 's) \<Rightarrow> 's \<Rightarrow> 's" where
  "for_each_sequence seq end_seq f st =
     (let st' = f seq st
      in if seq = end_seq then st' else for_each_sequence (seq_next seq) end_seq f st')"
  by pat_completeness auto

lemma offset_next_less: "seq \<noteq> e \<Longrightarrow> offset (seq_next seq) e < offset seq e"
  using offset_advance [where j = 1 and a = seq and b = e] offset_zero_iff [where a = seq and b = e]
  by (auto simp: seq_next_eq)

termination for_each_sequence
  by (relation "measure (\<lambda>(seq, e, f, st). offset seq e)") (auto intro: offset_next_less)

declare for_each_sequence.simps [simp del]

definition settle_receipt :: "u64 \<Rightarrow> Session \<times> ReceiptProgress \<Rightarrow> Session \<times> ReceiptProgress" where
  "settle_receipt receipt_id = (\<lambda>(s, progress).
     case map_of (ss_receipt_tracking s) receipt_id of
       None \<Rightarrow> (s, progress)
     | Some pending \<Rightarrow>
         if pending > 1
         then (s\<lparr>ss_receipt_tracking := AList.update receipt_id (pending - 1) (ss_receipt_tracking s)\<rparr>, progress)
         else (s\<lparr>ss_receipt_tracking := AList.delete receipt_id (ss_receipt_tracking s)\<rparr>,
               progress\<lparr>rp_acked_receipt_ids := rp_acked_receipt_ids progress @ [receipt_id]\<rparr>))"

definition ack_sequence :: "rounding \<Rightarrow> Instant \<Rightarrow> Sequence24 \<Rightarrow> Session \<times> ReceiptProgress \<Rightarrow> Session \<times> ReceiptProgress" where
  "ack_sequence rnd now seq = (\<lambda>(s, progress).
     case bt_get seq_cmp (ss_sent_datagrams s) seq of
       None \<Rightarrow> (s, progress)
     | Some acked \<Rightarrow>
         (let s1 = on_reliable_ack rnd (s\<lparr>ss_sent_datagrams := bt_remove seq_cmp seq (ss_sent_datagrams s)\<rparr>);
              s2 = (if td_retries acked = 0 then observe_rtt_sample rnd s1 (now - td_send_time acked) else s1)
          in fold settle_receipt (td_receipt_ids acked) (s2, progress\<lparr>rp_acked := rp_acked progress + 1\<rparr>)))"

definition nack_sequence :: "Instant \<Rightarrow> Sequence24 \<Rightarrow> Session \<times> ReceiptProgress \<Rightarrow> Session \<times> ReceiptProgress" where
  "nack_sequence now seq = (\<lambda>(s, progress).
     case bt_get seq_cmp (ss_sent_datagrams s) seq of
       None \<Rightarrow> (s, progress)
     | Some entry \<Rightarrow>
         if td_resendable entry \<and> td_next_send entry > now
         then (s\<lparr>ss_sent_datagrams :=
                  bt_insert seq_cmp seq (entry\<lparr>td_next_send := now, td_nack_resend_pending := True\<rparr>) (ss_sent_datagrams s)\<rparr>,
               progress\<lparr>rp_nacked := rp_nacked progress + 1\<rparr>)
         else (s, progress))"

definition for_each_range :: "(Sequence24 \<Rightarrow> 's \<Rightarrow> 's) \<Rightarrow> SequenceRange list \<Rightarrow> 's \<Rightarrow> 's" where
  "for_each_range f ranges = fold (\<lambda>r. for_each_sequence (sr_start r) (sr_end r) f) ranges"

definition process_incoming_receipts :: "rounding \<Rightarrow> Session \<Rightarrow> Instant \<Rightarrow> ReceiptProgress \<times> Session" where
  "process_incoming_receipts rnd s now =
     (let (s1, p1) = for_each_range (ack_sequence rnd now) (ss_incoming_acks s)
                       (s\<lparr>ss_incoming_acks := []\<rparr>, receipt_progress_default);
          s2 = s1\<lparr>ss_metrics := m_acked_datagrams_update (\<lambda>n. sat_add n (rp_acked p1)) (ss_metrics s1)\<rparr>;
          (s3, p2) = for_each_range (nack_sequence now) (ss_incoming_nacks s2) (s2\<lparr>ss_incoming_nacks := []\<rparr>, p1);
          s4 = (if rp_nacked p2 > 0 then on_nack_loss rnd s3 now else s3)
      in (p2, s4\<lparr>ss_metrics := m_nacked_datagrams_update (\<lambda>n. sat_add n (rp_nacked p2)) (ss_metrics s4)\<rparr>))"

section \<open>Retransmission\<close>

text \<open>The selection loop: the keys selected, whether one of them timed out.\<close>

fun select_resendable :: "Instant \<Rightarrow> usize \<Rightarrow> usize \<Rightarrow> (Sequence24 \<times> TrackedDatagram) list \<Rightarrow> usize
    \<Rightarrow> Sequence24 list \<Rightarrow> bool \<Rightarrow> Sequence24 list \<times> bool" where
  "select_resendable now max_count max_bytes [] total_bytes selected timeout = (selected, timeout)"
| "select_resendable now max_count max_bytes ((seq, tracked) # rest) total_bytes selected timeout =
     (if length selected \<ge> max_count then (selected, timeout)
      else if \<not> td_resendable tracked \<or> td_next_send tracked > now
      then select_resendable now max_count max_bytes rest total_bytes selected timeout
      else let size = datagram_encoded_size (td_datagram tracked)
           in if total_bytes + size > max_bytes then (selected, timeout)
              else select_resendable now max_count max_bytes rest (total_bytes + size) (selected @ [seq])
                     (timeout \<or> \<not> td_nack_resend_pending tracked))"

definition resend_one :: "Instant \<Rightarrow> Instant \<Rightarrow> Sequence24 \<Rightarrow> Datagram list \<times> Session \<Rightarrow> Datagram list \<times> Session" where
  "resend_one now next_send_at seq = (\<lambda>(out, s).
     case bt_get seq_cmp (ss_sent_datagrams s) seq of
       None \<Rightarrow> (out, s)
     | Some tracked \<Rightarrow>
         (out @ [td_datagram tracked],
          bump m_resent_datagrams_update
            (s\<lparr>ss_sent_datagrams :=
                bt_insert seq_cmp seq
                  (tracked\<lparr>td_send_time := now, td_next_send := next_send_at,
                           td_retries := u32_sat_add (td_retries tracked) 1, td_nack_resend_pending := False\<rparr>)
                  (ss_sent_datagrams s)\<rparr>)))"

definition collect_resendable :: "rounding \<Rightarrow> Session \<Rightarrow> Instant \<Rightarrow> usize \<Rightarrow> usize \<Rightarrow> Datagram list \<times> Session" where
  "collect_resendable rnd s now max_count max_bytes =
     (let (selected, timeout) = select_resendable now max_count max_bytes (ss_sent_datagrams s) 0 [] False
      in if selected = [] then ([], s)
         else let s1 = (if timeout then on_timeout rnd s now else s);
                  next_send_at = now + ss_resend_rto s1
              in fold (resend_one now next_send_at) selected ([], s1))"

section \<open>The tick\<close>

definition prune_split_state :: "Session \<Rightarrow> Instant \<Rightarrow> usize \<times> Session" where
  "prune_split_state s now =
     (let (dropped, sa) = split_prune (ss_split_assembler s) now
      in (dropped, s\<lparr>ss_split_assembler := sa,
                     ss_metrics := m_split_ttl_drops_update (\<lambda>n. sat_add n dropped) (ss_metrics s)\<rparr>))"

definition pacing_allowance :: "Session \<Rightarrow> usize" where
  "pacing_allowance s =
     (if ss_pacing_enabled s then min (nat \<lfloor>ss_pacing_budget_bytes s\<rfloor>) U64_MAX else U64_MAX)"

text \<open>The \<^verbatim>\<open>while new_datagram_count < max_new_datagrams\<close> loop.\<close>

fun emit_datagrams :: "rounding \<Rightarrow> Instant \<Rightarrow> nat \<Rightarrow> Session \<Rightarrow> usize \<Rightarrow> usize \<Rightarrow> Datagram list \<times> usize \<times> Session" where
  "emit_datagrams rnd now 0 s remaining used = ([], used, s)"
| "emit_datagrams rnd now (Suc left) s remaining used =
     (case build_data_datagram rnd s now remaining of
        (None, _, s1) \<Rightarrow> ([], used, s1)
      | (Some datagram, remaining1, s1) \<Rightarrow>
          (let used1 = sat_add used (datagram_encoded_size datagram)
           in if remaining1 = 0 then ([datagram], used1, s1)
              else let (ds, used2, s2) = emit_datagrams rnd now left s1 remaining1 used1
                   in (datagram # ds, used2, s2)))"

definition flush_control :: "Session \<Rightarrow> Instant \<Rightarrow> Datagram list \<times> Session" where
  "flush_control s now =
     (case ss_ack_nack_priority s of
        NackFirst \<Rightarrow> (let (o1, s1) = flush_nack_if_due s now; (o2, s2) = flush_ack_if_due s1 now in (o1 @ o2, s2))
      | AckFirst \<Rightarrow> (let (o1, s1) = flush_ack_if_due s now; (o2, s2) = flush_nack_if_due s1 now in (o1 @ o2, s2)))"

text \<open>The budget for new datagrams, with the bypass for immediate frames.\<close>

definition new_bytes_budget :: "Session \<Rightarrow> usize \<Rightarrow> usize" where
  "new_bytes_budget s max_new_bytes =
     (let remaining = min max_new_bytes (pacing_allowance s);
          too_small = (case min_queued_frame_size s of Some m \<Rightarrow> remaining < m | None \<Rightarrow> False);
          bypass = (ss_pacing_enabled s \<and> (remaining = 0 \<or> too_small) \<and> max_new_bytes > 0
                    \<and> has_immediate_outgoing_frame s)
      in if bypass then max (min (ss_mtu s) max_new_bytes) 1 else remaining)"

definition on_tick :: "rounding \<Rightarrow> Session \<Rightarrow> Instant \<Rightarrow> usize \<Rightarrow> usize \<Rightarrow> usize \<Rightarrow> usize \<Rightarrow> Datagram list \<times> Session" where
  "on_tick rnd s now max_new_datagrams max_new_bytes max_resend_datagrams max_resend_bytes =
     (let s1 = refresh_pacing_budget rnd s now;
          (control, s2) = flush_control s1 now;
          resend_bytes_budget = min max_resend_bytes (pacing_allowance s2);
          (resends, s3) = collect_resendable rnd s2 now max_resend_datagrams resend_bytes_budget;
          s4 = consume_pacing_budget rnd s3 (sum_list (map datagram_encoded_size resends));
          remaining = new_bytes_budget s4 max_new_bytes;
          (news, used, s5) = emit_datagrams rnd now max_new_datagrams s4 remaining 0;
          s6 = consume_pacing_budget rnd s5 used;
          (_, s7) = prune_split_state s6 now
      in (control @ resends @ news, s7))"

section \<open>Dropping a session\<close>

text \<open>
  \<^verbatim>\<open>best_effort_zeroize_buffered_payloads\<close>: every buffer it hands to \<^verbatim>\<open>best_effort_zeroize_bytes\<close>, and
  the session it leaves.
\<close>

definition take_payloads :: "TrackedDatagram \<Rightarrow> bytes list \<times> TrackedDatagram" where
  "take_payloads t =
     (case dg_payload (td_datagram t) of
        Frames frames \<Rightarrow>
          (map fr_payload frames,
           t\<lparr>td_datagram := (td_datagram t)\<lparr>dg_payload := Frames (map (\<lambda>f. f\<lparr>fr_payload := []\<rparr>) frames)\<rparr>\<rparr>)
      | Ack _ \<Rightarrow> ([], t) | Nack _ \<Rightarrow> ([], t))"

definition best_effort_zeroize_buffered_payloads :: "Session \<Rightarrow> bytes list \<times> Session" where
  "best_effort_zeroize_buffered_payloads s =
     (let outgoing = map (fr_payload \<circ> qf_frame) (ss_outgoing_heap s);
          sent = concat (map (\<lambda>(k, t). fst (take_payloads t)) (ss_sent_datagrams s));
          (ordered, oc) = drain_pending_ordered_frames (ss_ordering s);
          (parts, sa) = drain_buffered_parts (ss_split_assembler s)
      in (outgoing @ sent @ map fr_payload ordered @ parts,
          s\<lparr>ss_outgoing_heap := [],
            ss_sent_datagrams := map (\<lambda>(k, t). (k, snd (take_payloads t))) (ss_sent_datagrams s),
            ss_ordering := oc, ss_split_assembler := sa\<rparr>))"

definition session_drop :: "Session \<Rightarrow> bytes list \<times> Session" where
  "session_drop s =
     (if ss_zeroize_dropped_payloads s then best_effort_zeroize_buffered_payloads s else ([], s))"

section \<open>Selection\<close>

lemma pop_candidates_spec:
  assumes "pop_candidates ok d h = (sel, d', h')" and "heap_ok qf_weight h"
  shows "heap_ok qf_weight h'
     \<and> (\<exists>ds. d' = d @ ds \<and> (\<forall>x \<in> set ds. \<not> ok x)
         \<and> (case sel of None \<Rightarrow> mset h = mset ds \<and> h' = []
            | Some c \<Rightarrow> ok c \<and> mset h = add_mset c (mset ds + mset h') \<and> (\<forall>y \<in> set h'. qf_weight c \<le> qf_weight y)))"
  using assms
proof (induction ok d h arbitrary: sel d' h' rule: pop_candidates.induct)
  case (1 ok d h)
  note step = 1(2) [unfolded pop_candidates.simps [of ok d h]]
  show ?case
  proof (cases "heap_pop qf_weight h")
    case None
    then have "h = []" by (simp add: heap_pop_None)
    moreover have "sel = None" "d' = d" "h' = h" using step None by simp_all
    ultimately show ?thesis by (simp add: heap_ok_def)
  next
    case (Some p)
    obtain c h1 where p: "p = (c, h1)" by (cases p)
    have pop: "heap_pop qf_weight h = Some (c, h1)" using Some p by simp
    note sp = heap_pop_spec [OF pop 1(3)]
    show ?thesis
    proof (cases "ok c")
      case True
      then have "sel = Some c" "d' = d" "h' = h1" using step pop by auto
      then show ?thesis using sp True heap_pop_least [OF pop 1(3)] by auto
    next
      case False
      then have rec: "pop_candidates ok (d @ [c]) h1 = (sel, d', h')" using step pop by simp
      from 1(1) [OF Some p [symmetric] False rec sp(3)] obtain ds where
        "heap_ok qf_weight h'" "d' = (d @ [c]) @ ds" "\<forall>x \<in> set ds. \<not> ok x"
        "case sel of None \<Rightarrow> mset h1 = mset ds \<and> h' = []
            | Some x \<Rightarrow> ok x \<and> mset h1 = add_mset x (mset ds + mset h') \<and> (\<forall>y \<in> set h'. qf_weight x \<le> qf_weight y)"
        by blast
      then show ?thesis using False sp(2)
        by (intro conjI exI [of _ "c # ds"]) (auto split: option.splits)
    qed
  qed
qed

lemma pop_next_spec:
  assumes "pop_next_frame_for_datagram s allow sz budget = (sel, s')" and "heap_ok qf_weight (ss_outgoing_heap s)"
  shows "s' = s\<lparr>ss_outgoing_heap := ss_outgoing_heap s'\<rparr>" and "heap_ok qf_weight (ss_outgoing_heap s')"
    and "sel = None \<Longrightarrow> mset (ss_outgoing_heap s') = mset (ss_outgoing_heap s)
          \<and> (\<forall>q \<in> set (ss_outgoing_heap s). \<not> eligible allow (ss_mtu s) sz budget q)"
    and "sel = Some c \<Longrightarrow> eligible allow (ss_mtu s) sz budget c
          \<and> mset (ss_outgoing_heap s) = add_mset c (mset (ss_outgoing_heap s'))
          \<and> (\<forall>q \<in> set (ss_outgoing_heap s). eligible allow (ss_mtu s) sz budget q \<longrightarrow> qf_weight c \<le> qf_weight q)"
proof -
  let ?ok = "eligible allow (ss_mtu s) sz budget"
  obtain d h where pop: "pop_candidates ?ok [] (ss_outgoing_heap s) = (sel, d, h)"
    and s': "s' = s\<lparr>ss_outgoing_heap := fold (heap_push qf_weight) d h\<rparr>"
    using assms(1) by (auto simp: pop_next_frame_for_datagram_def split: prod.splits)
  from pop_candidates_spec [OF pop assms(2)] have h: "heap_ok qf_weight h" and d: "\<forall>x \<in> set d. \<not> ?ok x"
    and sel: "case sel of None \<Rightarrow> mset (ss_outgoing_heap s) = mset d \<and> h = []
       | Some c \<Rightarrow> ?ok c \<and> mset (ss_outgoing_heap s) = add_mset c (mset d + mset h) \<and> (\<forall>y \<in> set h. qf_weight c \<le> qf_weight y)"
    by auto
  show "s' = s\<lparr>ss_outgoing_heap := ss_outgoing_heap s'\<rparr>" by (simp add: s')
  show "heap_ok qf_weight (ss_outgoing_heap s')" by (simp add: s' binary_heap.ok_push_all [OF h])
  have m: "mset (ss_outgoing_heap s') = mset d + mset h" by (simp add: s' binary_heap.elems_push_all)
  show "sel = None \<Longrightarrow> mset (ss_outgoing_heap s') = mset (ss_outgoing_heap s)
      \<and> (\<forall>q \<in> set (ss_outgoing_heap s). \<not> ?ok q)"
    using sel m d by (auto dest: mset_eq_setD)
  assume c: "sel = Some c"
  then have c': "?ok c" "mset (ss_outgoing_heap s) = add_mset c (mset d + mset h)" "\<forall>y \<in> set h. qf_weight c \<le> qf_weight y"
    using sel by auto
  have "set (ss_outgoing_heap s) = insert c (set d \<union> set h)"
    using arg_cong [OF c'(2), of set_mset] by simp
  then show "?ok c \<and> mset (ss_outgoing_heap s) = add_mset c (mset (ss_outgoing_heap s'))
      \<and> (\<forall>q \<in> set (ss_outgoing_heap s). ?ok q \<longrightarrow> qf_weight c \<le> qf_weight q)"
    using c' m d by auto
qed

lemma queue_ok_pop:
  assumes s: "queue_ok s" and pop: "pop_next_frame_for_datagram s allow sz budget = (Some c, s1)"
    and s2: "s2 = s1\<lparr>ss_outgoing_queued_bytes := ss_outgoing_queued_bytes s1 - qf_encoded_size c\<rparr>"
  shows "queue_ok s2" and "entry_consistent c"
    and "ss_outgoing_queued_bytes s = ss_outgoing_queued_bytes s2 + qf_encoded_size c"
proof -
  have h: "heap_ok qf_weight (ss_outgoing_heap s)" using s by (simp add: queue_ok_def)
  note sp = pop_next_spec(1,2) [OF pop h] and m = pop_next_spec(4) [OF pop h HOL.refl]
  have bytes: "heap_bytes (ss_outgoing_heap s) = qf_encoded_size c + heap_bytes (ss_outgoing_heap s1)"
    using m by (simp add: heap_bytes_mset)
  have all: "entry_consistent c \<and> list_all entry_consistent (ss_outgoing_heap s1)"
    using s m by (auto simp: queue_ok_def entries_mset)
  then show "entry_consistent c" by simp
  have f: "ss_outgoing_queued_bytes s1 = ss_outgoing_queued_bytes s" "ss_outgoing_next_weights s1 = ss_outgoing_next_weights s"
    by (subst sp(1), simp)+
  then show "queue_ok s2" "ss_outgoing_queued_bytes s = ss_outgoing_queued_bytes s2 + qf_encoded_size c"
    using s bytes all sp(2) by (simp_all add: queue_ok_def s2)
qed

section \<open>Packing\<close>

text \<open>Only the queue differs.\<close>

definition queue_only :: "Session \<Rightarrow> Session \<Rightarrow> bool" where
  "queue_only s s' \<longleftrightarrow>
     s' = s\<lparr>ss_outgoing_heap := ss_outgoing_heap s', ss_outgoing_queued_bytes := ss_outgoing_queued_bytes s'\<rparr>"

lemma queue_only_heap: "s' = s\<lparr>ss_outgoing_heap := h\<rparr> \<Longrightarrow> queue_only s s'"
  by (simp add: queue_only_def)

lemma queue_only_bytes: "queue_only s s' \<Longrightarrow> queue_only s (s'\<lparr>ss_outgoing_queued_bytes := n\<rparr>)"
  unfolding queue_only_def by (erule ssubst) simp

lemma queue_only_trans: "queue_only s s1 \<Longrightarrow> queue_only s1 s2 \<Longrightarrow> queue_only s s2"
  unfolding queue_only_def
proof -
  assume 1: "s1 = s\<lparr>ss_outgoing_heap := ss_outgoing_heap s1, ss_outgoing_queued_bytes := ss_outgoing_queued_bytes s1\<rparr>"
    and 2: "s2 = s1\<lparr>ss_outgoing_heap := ss_outgoing_heap s2, ss_outgoing_queued_bytes := ss_outgoing_queued_bytes s2\<rparr>"
  show "s2 = s\<lparr>ss_outgoing_heap := ss_outgoing_heap s2, ss_outgoing_queued_bytes := ss_outgoing_queued_bytes s2\<rparr>"
    by (subst 2, subst 1) simp
qed

lemma queue_only_fields:
  assumes "queue_only s s'"
  shows "ss_mtu s' = ss_mtu s" and "ss_sent_datagrams s' = ss_sent_datagrams s"
    and "ss_outgoing_next_weights s' = ss_outgoing_next_weights s"
    and "ss_datagram_write_index s' = ss_datagram_write_index s"
    and "can_emit_new_reliable_datagram rnd s' = can_emit_new_reliable_datagram rnd s"
proof -
  note e = assms [unfolded queue_only_def]
  show "ss_mtu s' = ss_mtu s" "ss_sent_datagrams s' = ss_sent_datagrams s"
    "ss_outgoing_next_weights s' = ss_outgoing_next_weights s"
    "ss_datagram_write_index s' = ss_datagram_write_index s"
    "can_emit_new_reliable_datagram rnd s' = can_emit_new_reliable_datagram rnd s"
    by (subst e, simp add: can_emit_new_reliable_datagram_def)+
qed

text \<open>
  What the packing loop did: the entries \<open>qs\<close> left the queue for the datagram, and none of those
  that stay could be added.
\<close>

definition packed :: "rounding \<Rightarrow> Session \<Rightarrow> usize \<Rightarrow> Building \<Rightarrow> QueuedFrame list \<Rightarrow> Building \<Rightarrow> usize \<Rightarrow> Session \<Rightarrow> bool" where
  "packed rnd s budget b qs b' budget' s' \<longleftrightarrow>
     b' = foldl add_queued b qs \<and> list_all entry_consistent qs
     \<and> mset (ss_outgoing_heap s) = mset qs + mset (ss_outgoing_heap s')
     \<and> budget = budget' + sum_list (map qf_encoded_size qs)
     \<and> queue_ok s'
     \<and> queue_only s s'
     \<and> (qs \<noteq> [] \<longrightarrow> bd_size b' \<le> ss_mtu s)
     \<and> (bd_has_reliable b' \<longrightarrow> bd_has_reliable b \<or> can_emit_new_reliable_datagram rnd s)
     \<and> (\<forall>q \<in> set (ss_outgoing_heap s').
           \<not> eligible (bd_has_reliable b' \<or> can_emit_new_reliable_datagram rnd s) (ss_mtu s) (bd_size b') budget' q)"

lemma add_queued_fields [simp]:
  "bd_size (add_queued b q) = bd_size b + qf_encoded_size q"
  "bd_has_reliable (add_queued b q) \<longleftrightarrow> bd_has_reliable b \<or> qf_is_reliable q"
  "bd_frames (add_queued b q) = bd_frames b @ [qf_frame q]"
  by (simp_all add: add_queued_def)

lemma foldl_add_size: "bd_size (foldl add_queued b qs) = bd_size b + sum_list (map qf_encoded_size qs)"
  by (induction qs arbitrary: b) simp_all

lemma foldl_add_frames: "bd_frames (foldl add_queued b qs) = bd_frames b @ map qf_frame qs"
  by (induction qs arbitrary: b) simp_all

lemma foldl_add_reliable: "bd_has_reliable (foldl add_queued b qs) \<longleftrightarrow> bd_has_reliable b \<or> list_ex qf_is_reliable qs"
  by (induction qs arbitrary: b) auto

lemma fill_datagram_packed:
  assumes "fill_datagram rnd s budget b = (b', budget', s')" and "queue_ok s" and "ss_mtu s < U64_MAX"
  shows "\<exists>qs. packed rnd s budget b qs b' budget' s'"
  using assms
proof (induction rnd s budget b arbitrary: b' budget' s' rule: fill_datagram.induct)
  case (1 rnd s budget b)
  let ?allow = "bd_has_reliable b \<or> can_emit_new_reliable_datagram rnd s"
  have h: "heap_ok qf_weight (ss_outgoing_heap s)" using 1(3) by (simp add: queue_ok_def)
  obtain sel s1 where pop: "pop_next_frame_for_datagram s ?allow (bd_size b) budget = (sel, s1)" by fastforce
  note step = 1(2) [unfolded fill_datagram.simps [of rnd s budget b] Let_def pop]
  note frame = pop_next_spec(1,2) [OF pop h]
  show ?case
  proof (cases sel)
    case None
    then have r: "b' = b" "budget' = budget" "s' = s1" using step by simp_all
    note m = pop_next_spec(3) [OF pop h None] and only = queue_only_heap [OF frame(1)]
    have bytes: "ss_outgoing_queued_bytes s1 = ss_outgoing_queued_bytes s" by (subst frame(1)) simp
    have "queue_ok s1"
      using 1(3) frame(2) m queue_only_fields [OF only] by (simp add: queue_ok_def heap_bytes_mset entries_mset bytes)
    then have "packed rnd s budget b [] b' budget' s'"
      using only m mset_eq_setD [OF conjunct1 [OF m]] by (simp add: packed_def r)
    then show ?thesis ..
  next
    case (Some c)
    define s2 where "s2 = s1\<lparr>ss_outgoing_queued_bytes := ss_outgoing_queued_bytes s1 - qf_encoded_size c\<rparr>"
    note m = pop_next_spec(4) [OF pop h Some] and ok2 = queue_ok_pop [OF 1(3) pop [unfolded Some] s2_def]
    have e: "bd_size b + qf_encoded_size c \<le> ss_mtu s" "qf_encoded_size c \<le> budget" "?allow \<or> \<not> qf_is_reliable c"
      using m 1(4) by (auto simp: eligible_def Let_def sat_add_def min_def split: if_splits)
    have only: "queue_only s s2" unfolding s2_def by (rule queue_only_bytes, rule queue_only_heap, rule frame(1))
    note f = queue_only_fields [OF only]
    have rec: "fill_datagram rnd s2 (budget - qf_encoded_size c) (add_queued b c) = (b', budget', s')"
      using step Some by (simp add: s2_def)
    from 1(1) [OF HOL.refl pop [symmetric] Some rec [unfolded s2_def]] ok2(1) 1(4) f(1)
    obtain qs where qs: "packed rnd s2 (budget - qf_encoded_size c) (add_queued b c) qs b' budget' s'"
      by (auto simp: s2_def)
    have heap: "ss_outgoing_heap s2 = ss_outgoing_heap s1" by (simp add: s2_def)
    have "bd_size b' \<le> ss_mtu s"
    proof (cases "qs = []")
      case True
      then show ?thesis using qs e(1) by (simp add: packed_def)
    next
      case False
      then have "bd_size b' \<le> ss_mtu s2" using qs unfolding packed_def by blast
      then show ?thesis using f(1) by simp
    qed
    moreover have "bd_has_reliable b' \<longrightarrow> bd_has_reliable b \<or> can_emit_new_reliable_datagram rnd s"
      using qs e(3) f(5) unfolding packed_def by auto
    moreover have "\<forall>q \<in> set (ss_outgoing_heap s').
        \<not> eligible (bd_has_reliable b' \<or> can_emit_new_reliable_datagram rnd s) (ss_mtu s) (bd_size b') budget' q"
      using qs unfolding packed_def f by blast
    moreover have "b' = foldl add_queued b (c # qs)" "queue_ok s'" "queue_only s2 s'" "list_all entry_consistent qs"
        "mset (ss_outgoing_heap s) = mset (c # qs) + mset (ss_outgoing_heap s')"
      using qs m by (simp_all add: packed_def heap)
    moreover have "budget - qf_encoded_size c = budget' + sum_list (map qf_encoded_size qs)"
      using qs unfolding packed_def by blast
    then have "budget = budget' + sum_list (map qf_encoded_size (c # qs))" using e(2) by simp
    ultimately have "packed rnd s budget b (c # qs) b' budget' s'"
      unfolding packed_def using ok2(2) queue_only_trans [OF only] by simp
    then show ?thesis ..
  qed
qed

section \<open>A data datagram\<close>

lemma count_receipts_fields [simp]:
  "ss_outgoing_heap (fold count_receipt ids s) = ss_outgoing_heap s"
  "ss_outgoing_queued_bytes (fold count_receipt ids s) = ss_outgoing_queued_bytes s"
  "ss_outgoing_next_weights (fold count_receipt ids s) = ss_outgoing_next_weights s"
  "ss_mtu (fold count_receipt ids s) = ss_mtu s"
  "ss_datagram_write_index (fold count_receipt ids s) = ss_datagram_write_index s"
  "ss_congestion_window_packets (fold count_receipt ids s) = ss_congestion_window_packets s"
  "ss_resend_rto (fold count_receipt ids s) = ss_resend_rto s"
  "ss_sent_datagrams (fold count_receipt ids s) = ss_sent_datagrams s"
  by (induction ids arbitrary: s) (simp_all add: count_receipt_def)

lemma track_fields [simp]:
  "ss_outgoing_heap (track_sent_reliable_datagram s d now ids) = ss_outgoing_heap s"
  "ss_outgoing_queued_bytes (track_sent_reliable_datagram s d now ids) = ss_outgoing_queued_bytes s"
  "ss_outgoing_next_weights (track_sent_reliable_datagram s d now ids) = ss_outgoing_next_weights s"
  "ss_mtu (track_sent_reliable_datagram s d now ids) = ss_mtu s"
  "ss_datagram_write_index (track_sent_reliable_datagram s d now ids) = ss_datagram_write_index s"
  "ss_congestion_window_packets (track_sent_reliable_datagram s d now ids) = ss_congestion_window_packets s"
  "ss_resend_rto (track_sent_reliable_datagram s d now ids) = ss_resend_rto s"
  by (simp_all add: track_sent_reliable_datagram_def Let_def)

lemma consistent_frames:
  "list_all entry_consistent qs \<Longrightarrow> map (frame_encoded_size \<circ> qf_frame) qs = map qf_encoded_size qs"
  "list_all entry_consistent qs \<Longrightarrow> list_ex (\<lambda>f. is_reliable (fr_rel f)) (map qf_frame qs) \<longleftrightarrow> list_ex qf_is_reliable qs"
  by (induction qs) (auto simp: entry_consistent_def)

lemma build_data_datagram_Some:
  assumes run: "build_data_datagram rnd s now budget = (Some d, budget', s')"
    and s: "queue_ok s" "ss_mtu s < U64_MAX"
  obtains qs b s1 where "packed rnd s budget start_building qs b budget' s1" and "qs \<noteq> []"
    and "dg_payload d = Frames (map qf_frame qs)" and "dh_sequence (dg_header d) = ss_datagram_write_index s"
    and "datagram_encoded_size d = RAKNET_DATAGRAM_HEADER_SIZE + sum_list (map qf_encoded_size qs)"
    and "s' = (let s2 = s1\<lparr>ss_datagram_write_index := ss_datagram_write_index s + 1\<rparr>
               in if bd_has_reliable b \<or> bd_receipt_ids b \<noteq> []
                  then track_sent_reliable_datagram s2 d now (bd_receipt_ids b) else s2)"
proof -
  obtain b budget1 s1 where fill1: "fill_datagram rnd s budget start_building = (b, budget1, s1)"
    by (metis prod_cases3)
  note step = run [unfolded build_data_datagram_def fill1 Let_def]
  have fill: "fill_datagram rnd s budget start_building = (b, budget', s1)"
    using step fill1 by (auto split: if_splits prod.splits)
  obtain qs where qs: "packed rnd s budget start_building qs b budget' s1" using fill_datagram_packed [OF fill s] ..
  have b: "b = foldl add_queued start_building qs" and c: "list_all entry_consistent qs" and only: "queue_only s s1"
    using qs by (simp_all add: packed_def)
  have frames: "bd_frames b = map qf_frame qs" by (simp add: b foldl_add_frames start_building_def)
  note widx = queue_only_fields(4) [OF only]
  have ne: "bd_frames b \<noteq> []"
    using step by (auto split: if_splits)
  then have d: "dg_payload d = Frames (bd_frames b)" "dh_sequence (dg_header d) = ss_datagram_write_index s1"
    "s' = (let s2 = s1\<lparr>ss_datagram_write_index := ss_datagram_write_index s1 + 1\<rparr>
           in if bd_has_reliable b \<or> bd_receipt_ids b \<noteq> []
              then track_sent_reliable_datagram s2 d now (bd_receipt_ids b) else s2)"
    using step by (auto simp: next_datagram_sequence_def seq_next_eq Let_def split: if_splits)
  have size: "datagram_encoded_size d = RAKNET_DATAGRAM_HEADER_SIZE + sum_list (map frame_encoded_size (bd_frames b))"
    using d(1) by (cases d) simp
  show thesis
  proof (rule that [OF qs])
    show "qs \<noteq> []" using ne frames by simp
    show "dg_payload d = Frames (map qf_frame qs)" using d(1) frames by simp
    show "dh_sequence (dg_header d) = ss_datagram_write_index s" using d(2) widx by simp
    show "datagram_encoded_size d = RAKNET_DATAGRAM_HEADER_SIZE + sum_list (map qf_encoded_size qs)"
      using size frames consistent_frames(1) [OF c] by simp
  qed (use d(3) widx in simp)
qed

fun frames_of :: "Datagram \<Rightarrow> Frame list" where
  "frames_of \<lparr>dg_header = h, dg_payload = Frames frames\<rparr> = frames"
| "frames_of \<lparr>dg_header = h, dg_payload = Ack p\<rparr> = []"
| "frames_of \<lparr>dg_header = h, dg_payload = Nack p\<rparr> = []"

abbreviation queued_frames :: "Session \<Rightarrow> Frame multiset" where
  "queued_frames s \<equiv> image_mset qf_frame (mset (ss_outgoing_heap s))"

lemma queue_ok_cong:
  "queue_ok s \<Longrightarrow> ss_outgoing_heap s' = ss_outgoing_heap s \<Longrightarrow> ss_outgoing_queued_bytes s' = ss_outgoing_queued_bytes s
   \<Longrightarrow> ss_outgoing_next_weights s' = ss_outgoing_next_weights s \<Longrightarrow> queue_ok s'"
  by (simp add: queue_ok_def)

lemma build_data_datagram_sent:
  assumes run: "build_data_datagram rnd s now budget = (Some d, budget', s')"
    and s: "queue_ok s" "ss_mtu s < U64_MAX"
  shows "queue_ok s'" and "ss_mtu s' = ss_mtu s"
    and "datagram_encoded_size d \<le> ss_mtu s" and "budget + RAKNET_DATAGRAM_HEADER_SIZE = budget' + datagram_encoded_size d"
    and "queued_frames s = mset (frames_of d) + queued_frames s'" and "frames_of d \<noteq> []"
    and "dh_sequence (dg_header d) = ss_datagram_write_index s"
    and "ss_datagram_write_index s' = ss_datagram_write_index s + 1"
    and "list_ex (\<lambda>f. is_reliable (fr_rel f)) (frames_of d) \<Longrightarrow> can_emit_new_reliable_datagram rnd s"
proof -
  obtain qs b s1 where p: "packed rnd s budget start_building qs b budget' s1" and ne: "qs \<noteq> []"
    and d: "dg_payload d = Frames (map qf_frame qs)" "dh_sequence (dg_header d) = ss_datagram_write_index s"
    and size: "datagram_encoded_size d = RAKNET_DATAGRAM_HEADER_SIZE + sum_list (map qf_encoded_size qs)"
    and s': "s' = (let s2 = s1\<lparr>ss_datagram_write_index := ss_datagram_write_index s + 1\<rparr>
               in if bd_has_reliable b \<or> bd_receipt_ids b \<noteq> []
                  then track_sent_reliable_datagram s2 d now (bd_receipt_ids b) else s2)"
    using build_data_datagram_Some [OF run s] .
  have fr: "frames_of d = map qf_frame qs" using d(1) by (cases d) simp
  have b: "b = foldl add_queued start_building qs" and c: "list_all entry_consistent qs" and only: "queue_only s s1"
    and q1: "queue_ok s1" and m: "mset (ss_outgoing_heap s) = mset qs + mset (ss_outgoing_heap s1)"
    and bud: "budget = budget' + sum_list (map qf_encoded_size qs)"
    and rel: "bd_has_reliable b \<longrightarrow> can_emit_new_reliable_datagram rnd s"
    using p by (simp_all add: packed_def start_building_def)
  have fits: "bd_size b \<le> ss_mtu s" using p ne unfolding packed_def by blast
  show "queue_ok s'" by (rule queue_ok_cong [OF q1]) (simp_all add: s' Let_def)
  show "ss_mtu s' = ss_mtu s" "ss_datagram_write_index s' = ss_datagram_write_index s + 1"
    by (simp_all add: s' Let_def queue_only_fields(1) [OF only])
  show "datagram_encoded_size d \<le> ss_mtu s" using fits size by (simp add: b foldl_add_size start_building_def)
  show "budget + RAKNET_DATAGRAM_HEADER_SIZE = budget' + datagram_encoded_size d" using bud size by simp
  show "queued_frames s = mset (frames_of d) + queued_frames s'" using m by (simp add: fr s' Let_def)
  show "frames_of d \<noteq> []" "dh_sequence (dg_header d) = ss_datagram_write_index s" using ne fr d by simp_all
  show "list_ex (\<lambda>f. is_reliable (fr_rel f)) (frames_of d) \<Longrightarrow> can_emit_new_reliable_datagram rnd s"
    using rel consistent_frames(2) [OF c] by (simp add: fr b foldl_add_reliable start_building_def)
qed

lemma build_data_datagram_None:
  assumes run: "build_data_datagram rnd s now budget = (None, budget', s')"
    and s: "queue_ok s" "ss_mtu s < U64_MAX"
  shows "queue_ok s'" and "ss_mtu s' = ss_mtu s" and "queued_frames s' = queued_frames s" and "budget' = budget"
    and "queue_only s s'"
    and "budget = 0 \<or> (\<forall>q \<in> set (ss_outgoing_heap s).
           \<not> eligible (can_emit_new_reliable_datagram rnd s) (ss_mtu s) RAKNET_DATAGRAM_HEADER_SIZE budget q)"
proof -
  have "queue_ok s' \<and> queue_only s s' \<and> queued_frames s' = queued_frames s \<and> budget' = budget
    \<and> (budget = 0 \<or> (\<forall>q \<in> set (ss_outgoing_heap s).
           \<not> eligible (can_emit_new_reliable_datagram rnd s) (ss_mtu s) RAKNET_DATAGRAM_HEADER_SIZE budget q))"
  proof (cases "ss_outgoing_heap s = [] \<or> budget = 0")
    case True
    then show ?thesis using run s by (auto simp: build_data_datagram_def queue_only_def)
  next
    case False
    obtain b budget1 s1 where fill: "fill_datagram rnd s budget start_building = (b, budget1, s1)"
      by (metis prod_cases3)
    obtain qs where p: "packed rnd s budget start_building qs b budget1 s1"
      using fill_datagram_packed [OF fill s] ..
    have "bd_frames b = []" "s' = s1" "budget' = budget1"
      using run False by (auto simp: build_data_datagram_def fill Let_def split: if_splits prod.splits)
    moreover from this have "qs = []" using p by (simp add: packed_def foldl_add_frames)
    ultimately show ?thesis using p by (auto simp: packed_def start_building_def dest: mset_eq_setD)
  qed
  then show "queue_ok s'" "queued_frames s' = queued_frames s" "budget' = budget" "queue_only s s'"
    "budget = 0 \<or> (\<forall>q \<in> set (ss_outgoing_heap s).
           \<not> eligible (can_emit_new_reliable_datagram rnd s) (ss_mtu s) RAKNET_DATAGRAM_HEADER_SIZE budget q)"
    by blast+
  then show "ss_mtu s' = ss_mtu s" using queue_only_fields(1) by blast
qed

section \<open>Several datagrams\<close>

lemma emit_datagrams_spec:
  assumes "emit_datagrams rnd now left s remaining used = (ds, used', s')" and "queue_ok s" and "ss_mtu s < U64_MAX"
  shows "queue_ok s' \<and> ss_mtu s' = ss_mtu s \<and> length ds \<le> left
    \<and> (\<forall>d \<in> set ds. datagram_encoded_size d \<le> ss_mtu s \<and> frames_of d \<noteq> [])
    \<and> queued_frames s = mset (concat (map frames_of ds)) + queued_frames s'
    \<and> sum_list (map datagram_encoded_size ds) \<le> remaining + RAKNET_DATAGRAM_HEADER_SIZE * length ds
    \<and> map (dh_sequence \<circ> dg_header) ds = map (\<lambda>i. ss_datagram_write_index s + of_nat i) [0..<length ds]
    \<and> ss_datagram_write_index s' = ss_datagram_write_index s + of_nat (length ds)"
  using assms
proof (induction left arbitrary: s remaining used ds used')
  case 0
  then show ?case by simp
next
  case (Suc left)
  obtain o1 r1 s1 where b: "build_data_datagram rnd s now remaining = (o1, r1, s1)" by (metis prod_cases3)
  note step = Suc.prems(1) [unfolded emit_datagrams.simps b]
  show ?case
  proof (cases o1)
    case None
    then have "ds = []" "s' = s1" using step by auto
    moreover note build_data_datagram_None [OF b [unfolded None] Suc.prems(2,3)]
    moreover from this(5) have "ss_datagram_write_index s1 = ss_datagram_write_index s" by (rule queue_only_fields(4))
    ultimately show ?thesis by simp
  next
    case (Some d)
    note one = build_data_datagram_sent [OF b [unfolded Some] Suc.prems(2,3)]
    show ?thesis
    proof (cases "r1 = 0")
      case True
      then have "ds = [d]" "s' = s1" using step Some by (auto simp: Let_def)
      with one True show ?thesis by simp
    next
      case False
      obtain ds' where rec: "emit_datagrams rnd now left s1 r1 (sat_add used (datagram_encoded_size d)) = (ds', used', s')"
        and ds: "ds = d # ds'"
        using step Some False by (auto simp: Let_def split: prod.splits)
      have "ss_mtu s1 < U64_MAX" using Suc.prems(3) one(2) by simp
      note IH = Suc.IH [OF rec one(1) this]
      have seqs: "map (\<lambda>i. ss_datagram_write_index s + of_nat i) [0..<length ds]
          = ss_datagram_write_index s # map (\<lambda>i. ss_datagram_write_index s1 + of_nat i) [0..<length ds']"
        by (simp add: ds upt_conv_Cons one(8) add.assoc comp_def flip: map_Suc_upt del: upt_Suc)
      show ?thesis using IH one seqs by (auto simp: ds)
    qed
  qed
qed

section \<open>Control datagrams\<close>

fun ranges_of :: "Datagram \<Rightarrow> SequenceRange list" where
  "ranges_of \<lparr>dg_header = h, dg_payload = Frames frames\<rparr> = []"
| "ranges_of \<lparr>dg_header = h, dg_payload = Ack p\<rparr> = ann_ranges p"
| "ranges_of \<lparr>dg_header = h, dg_payload = Nack p\<rparr> = ann_ranges p"

text \<open>What a control flush leaves alone.\<close>

definition control_only :: "Session \<Rightarrow> Session \<Rightarrow> bool" where
  "control_only s s' \<longleftrightarrow>
     (queue_ok s \<longrightarrow> queue_ok s') \<and> ss_mtu s' = ss_mtu s \<and> ss_sent_datagrams s' = ss_sent_datagrams s
     \<and> ss_outgoing_heap s' = ss_outgoing_heap s \<and> ss_datagram_write_index s' = ss_datagram_write_index s
     \<and> ss_pacing_enabled s' = ss_pacing_enabled s \<and> ss_pacing_budget_bytes s' = ss_pacing_budget_bytes s"

lemma control_only_trans: "control_only s s1 \<Longrightarrow> control_only s1 s2 \<Longrightarrow> control_only s s2"
  by (simp add: control_only_def)

lemma popped_datagram:
  assumes "pop_for_mtu q mtu 3 mx = (rs, q')" and "17 \<le> mtu"
  shows "datagram_encoded_size \<lparr>dg_header = h, dg_payload = Ack \<lparr>ann_ranges = rs\<rparr>\<rparr> \<le> mtu"
    and "datagram_encoded_size \<lparr>dg_header = h, dg_payload = Nack \<lparr>ann_ranges = rs\<rparr>\<rparr> \<le> mtu"
  using pop_for_mtu_fits [OF assms(1)] assms(2) by (simp_all add: ack_encoded_size_popped)

lemma flush_ack_spec:
  assumes "flush_ack_if_due s now = (ds, s')" and "17 \<le> ss_mtu s"
  shows "control_only s s'" and "ss_outgoing_nacks s' = ss_outgoing_nacks s"
    and "aq_queue (ss_outgoing_acks s) = concat (map ranges_of ds) @ aq_queue (ss_outgoing_acks s')"
    and "list_all (\<lambda>d. datagram_encoded_size d \<le> ss_mtu s \<and> frames_of d = []) ds"
  using assms popped_datagram(1) [OF _ assms(2)]
  by (auto simp: flush_ack_if_due_def drain_ack_datagram_def Let_def control_only_def queue_ok_def
      split: if_splits prod.splits option.splits dest: pop_for_mtu_split)

lemma flush_nack_spec:
  assumes "flush_nack_if_due s now = (ds, s')" and "17 \<le> ss_mtu s"
  shows "control_only s s'" and "ss_outgoing_acks s' = ss_outgoing_acks s"
    and "aq_queue (ss_outgoing_nacks s) = concat (map ranges_of ds) @ aq_queue (ss_outgoing_nacks s')"
    and "list_all (\<lambda>d. datagram_encoded_size d \<le> ss_mtu s \<and> frames_of d = []) ds"
  using assms popped_datagram(2) [OF _ assms(2)]
  by (auto simp: flush_nack_if_due_def drain_nack_datagram_def Let_def control_only_def queue_ok_def
      split: if_splits prod.splits option.splits dest: pop_for_mtu_split)

lemma flush_control_spec:
  assumes "flush_control s now = (ds, s')" and "17 \<le> ss_mtu s"
  shows "control_only s s'" and "list_all (\<lambda>d. datagram_encoded_size d \<le> ss_mtu s \<and> frames_of d = []) ds"
proof -
  have "control_only s s' \<and> list_all (\<lambda>d. datagram_encoded_size d \<le> ss_mtu s \<and> frames_of d = []) ds"
  proof (cases "ss_ack_nack_priority s")
    case NackFirst
    then obtain o1 s1 o2 where 1: "flush_nack_if_due s now = (o1, s1)" and 2: "flush_ack_if_due s1 now = (o2, s')"
      and ds: "ds = o1 @ o2" using assms(1) by (auto simp: flush_control_def split: prod.splits)
    note n = flush_nack_spec [OF 1 assms(2)]
    have "17 \<le> ss_mtu s1" "ss_mtu s1 = ss_mtu s" using n(1) assms(2) by (simp_all add: control_only_def)
    with flush_ack_spec [OF 2] n show ?thesis by (auto simp: ds intro: control_only_trans)
  next
    case AckFirst
    then obtain o1 s1 o2 where 1: "flush_ack_if_due s now = (o1, s1)" and 2: "flush_nack_if_due s1 now = (o2, s')"
      and ds: "ds = o1 @ o2" using assms(1) by (auto simp: flush_control_def split: prod.splits)
    note n = flush_ack_spec [OF 1 assms(2)]
    have "17 \<le> ss_mtu s1" "ss_mtu s1 = ss_mtu s" using n(1) assms(2) by (simp_all add: control_only_def)
    with flush_nack_spec [OF 2] n show ?thesis by (auto simp: ds intro: control_only_trans)
  qed
  then show "control_only s s'" "list_all (\<lambda>d. datagram_encoded_size d \<le> ss_mtu s \<and> frames_of d = []) ds" by blast+
qed

section \<open>What packing promises\<close>

text \<open>C26: the frame taken for a datagram is one of least weight among those that fit the datagram and the
  budget and may be sent; every other frame stays queued, and none is taken only when none
  qualifies.\<close>

theorem pop_least_eligible:
  assumes run: "pop_next_frame_for_datagram s allow sz budget = (sel, s')" and h: "heap_ok qf_weight (ss_outgoing_heap s)"
  shows "heap_ok qf_weight (ss_outgoing_heap s') \<and>
    (case sel of
       None \<Rightarrow> mset (ss_outgoing_heap s') = mset (ss_outgoing_heap s)
         \<and> (\<forall>q \<in> set (ss_outgoing_heap s). \<not> eligible allow (ss_mtu s) sz budget q)
     | Some c \<Rightarrow> eligible allow (ss_mtu s) sz budget c
         \<and> mset (ss_outgoing_heap s) = add_mset c (mset (ss_outgoing_heap s'))
         \<and> (\<forall>q \<in> set (ss_outgoing_heap s). eligible allow (ss_mtu s) sz budget q \<longrightarrow> qf_weight c \<le> qf_weight q))"
  using pop_next_spec [OF run h] by (cases sel) auto

definition queued_frame :: QueuedFrame where
  "queued_frame = \<lparr>qf_weight = 0, qf_encoded_size = 7, qf_is_reliable = True, qf_priority = Immediate, qf_receipt_id = Some 5,
     qf_frame = reliable_frame 0\<rparr>"

definition busy_session :: Session where
  "busy_session = default_session\<lparr>ss_outgoing_heap := [queued_frame], ss_outgoing_queued_bytes := 7\<rparr>"

lemma busy_session_ok: "queue_ok busy_session" "ss_mtu busy_session = 1200" "ss_outgoing_heap busy_session = [queued_frame]"
  "ss_sent_datagrams busy_session = []" "ss_congestion_window_packets busy_session = 64"
  subgoal
    using default_queue_ok
    by (simp add: queue_ok_def busy_session_def heap_ok_def heap_bytes_def entry_consistent_def queued_frame_def reliable_frame_def
        frame_encoded_size_def payload_len_def bits_to_bytes_def drop_bit_eq_div)
  by (simp_all add: busy_session_def default_session_def session_init_def Let_def default_params_def f64_clamp_def)

theorem pop_least_eligible_witness:
  "\<exists>c s'. pop_next_frame_for_datagram busy_session True 4 1000 = (Some c, s') \<and> eligible True 1200 4 1000 c"
proof -
  obtain sel s' where p: "pop_next_frame_for_datagram busy_session True 4 1000 = (sel, s')"
    by (cases "pop_next_frame_for_datagram busy_session True 4 1000")
  have e: "eligible True 1200 4 1000 queued_frame"
    by (simp add: eligible_def queued_frame_def sat_add_def U64_MAX_def)
  from pop_least_eligible [OF p] e p show ?thesis
    using busy_session_ok by (cases sel) (auto simp: heap_ok_def)
qed

lemma build_progress:
  assumes "queue_ok s" "ss_mtu s < U64_MAX" "budget \<noteq> 0" and "q \<in> set (ss_outgoing_heap s)"
    and "eligible (can_emit_new_reliable_datagram rnd s) (ss_mtu s) RAKNET_DATAGRAM_HEADER_SIZE budget q"
  shows "\<exists>d budget' s'. build_data_datagram rnd s now budget = (Some d, budget', s')"
proof -
  obtain o1 budget' s' where b: "build_data_datagram rnd s now budget = (o1, budget', s')"
    by (cases "build_data_datagram rnd s now budget")
  show ?thesis
    using b build_data_datagram_None(6) [of rnd s now budget budget' s'] assms by (cases o1) auto
qed

text \<open>C27: as long as some queued frame fits and may be sent, building a datagram succeeds and the datagram
  carries frames.\<close>

theorem build_makes_progress:
  assumes "queue_ok s" "ss_mtu s < U64_MAX" "budget \<noteq> 0" and "q \<in> set (ss_outgoing_heap s)"
    and "eligible (can_emit_new_reliable_datagram rnd s) (ss_mtu s) RAKNET_DATAGRAM_HEADER_SIZE budget q"
  shows "\<exists>d budget' s'. build_data_datagram rnd s now budget = (Some d, budget', s') \<and> frames_of d \<noteq> []"
  using build_progress [OF assms, of now] build_data_datagram_sent(6) [OF _ assms(1,2)] by blast

lemma busy_eligible:
  "eligible (can_emit_new_reliable_datagram id busy_session) (ss_mtu busy_session) RAKNET_DATAGRAM_HEADER_SIZE 1000 queued_frame"
  by (simp add: eligible_def can_emit_new_reliable_datagram_def busy_session_ok queued_frame_def sat_add_def U64_MAX_def
      RAKNET_DATAGRAM_HEADER_SIZE_def)

theorem build_makes_progress_witness:
  "\<exists>d budget' s'. build_data_datagram id busy_session 5 1000 = (Some d, budget', s') \<and> frames_of d \<noteq> []"
  by (rule build_makes_progress [of _ _ queued_frame])
    (use busy_eligible in \<open>simp_all add: busy_session_ok U64_MAX_def\<close>)

text \<open>C10: a built datagram fits the MTU, uses up the budget by its frames, carries exactly the frames that
  leave the queue, has the next sequence number, and contains reliable frames only when the
  congestion window allowed it.\<close>

theorem built_datagram:
  assumes run: "build_data_datagram rnd s now budget = (Some d, budget', s')" and s: "queue_ok s" "ss_mtu s < U64_MAX"
  shows "queue_ok s' \<and> datagram_encoded_size d \<le> ss_mtu s
    \<and> budget + RAKNET_DATAGRAM_HEADER_SIZE = budget' + datagram_encoded_size d
    \<and> queued_frames s = mset (frames_of d) + queued_frames s'
    \<and> dh_sequence (dg_header d) = ss_datagram_write_index s \<and> ss_datagram_write_index s' = ss_datagram_write_index s + 1
    \<and> (list_ex (\<lambda>f. is_reliable (fr_rel f)) (frames_of d) \<longrightarrow> can_emit_new_reliable_datagram rnd s)"
  using build_data_datagram_sent [OF assms] by simp

theorem built_datagram_witness:
  "\<exists>d budget' s'. build_data_datagram id busy_session 5 1000 = (Some d, budget', s')
    \<and> datagram_encoded_size d \<le> ss_mtu busy_session
    \<and> queued_frames busy_session = mset (frames_of d) + queued_frames s'"
proof -
  obtain d budget' s' where b: "build_data_datagram id busy_session 5 1000 = (Some d, budget', s')"
    using build_progress [of busy_session 1000 queued_frame id 5] busy_eligible by (auto simp: busy_session_ok U64_MAX_def)
  from built_datagram [OF b] b show ?thesis by (auto simp: busy_session_ok U64_MAX_def)
qed

section \<open>What dropping a session overwrites\<close>

text \<open>Every payload a session holds.\<close>

definition buffered_payloads :: "Session \<Rightarrow> bytes list" where
  "buffered_payloads s = map (fr_payload \<circ> qf_frame) (ss_outgoing_heap s)
     @ concat (map (\<lambda>(k, t). map fr_payload (frames_of (td_datagram t))) (ss_sent_datagrams s))
     @ concat (map (\<lambda>st. map (fr_payload \<circ> snd) (cs_pending_ordered st)) (oc_channels (ss_ordering s)))
     @ concat (map (\<lambda>(k, e). List.map_filter id (se_parts e)) (sa_entries (ss_split_assembler s)))"

lemma take_payloads_frames:
  "fst (take_payloads t) = map fr_payload (frames_of (td_datagram t))"
  "frames_of (td_datagram (snd (take_payloads t))) = map (\<lambda>f. f\<lparr>fr_payload := []\<rparr>) (frames_of (td_datagram t))"
proof -
  obtain h p where d: "td_datagram t = \<lparr>dg_header = h, dg_payload = p\<rparr>" by (cases "td_datagram t")
  show "fst (take_payloads t) = map fr_payload (frames_of (td_datagram t))"
    "frames_of (td_datagram (snd (take_payloads t))) = map (\<lambda>f. f\<lparr>fr_payload := []\<rparr>) (frames_of (td_datagram t))"
    by (cases p; simp add: take_payloads_def d)+
qed



end
