(* ===== verification/SessionInFlight.thy ===== *)
theory SessionInFlight
  imports SessionTransmit
begin

text \<open>
  What is proved about the datagrams in flight: the peer's ACKs remove exactly the datagrams they
  name, NACKs change nothing but when a datagram is sent again, and the receipt counters agree with the datagrams that carry a receipt.  The sequence numbers in
  flight are assumed to lie in half the sequence space, where their order is total.
\<close>

section \<open>Ranges\<close>

definition seqs_of :: "SequenceRange \<Rightarrow> Sequence24 list" where
  "seqs_of r = map (\<lambda>i. sr_start r + of_nat i) [0..<Suc (offset (sr_start r) (sr_end r))]"

text \<open>The loop visits the numbers of the range, each once, and ends.\<close>

lemma for_each_sequence_fold:
  "for_each_sequence a b f st = fold f (map (\<lambda>i. a + of_nat i) [0..<Suc (offset a b)]) st"
proof (induction a b f st rule: for_each_sequence.induct)
  case (1 a b f st)
  show ?case
  proof (cases "a = b")
    case True
    then show ?thesis by (subst for_each_sequence.simps) simp
  next
    case False
    then have pos: "0 < offset a b" using offset_zero_iff [where a = a and b = b] by simp
    have "offset (a + 1) b = offset a b - 1"
      using offset_advance [where j = 1 and a = a and b = b] pos by simp
    then have len: "Suc (offset (a + 1) b) = offset a b" using pos by simp
    have "for_each_sequence a b f st = fold f (map (\<lambda>i. (a + 1) + of_nat i) [0..<offset a b]) (f a st)"
      using 1 [OF HOL.refl] False len by (subst for_each_sequence.simps) (simp add: seq_next_eq)
    also have "\<dots> = fold f (map (\<lambda>i. a + of_nat i) [0..<Suc (offset a b)]) st"
      by (simp add: upt_conv_Cons comp_def add.assoc flip: map_Suc_upt del: upt_Suc)
    finally show ?thesis .
  qed
qed

lemma for_each_range_fold: "for_each_range f rs st = fold f (concat (map seqs_of rs)) st"
  by (induction rs arbitrary: st) (simp_all add: for_each_range_def for_each_sequence_fold seqs_of_def)

lemma offset_index: "i < Suc n \<Longrightarrow> n < 16777216 \<Longrightarrow> offset a (a + of_nat i) \<le> n"
  by (simp add: unat_of_nat_seq)

lemma offset_inverse: "a + of_nat (offset a x) = x"
  by simp

lemma set_seqs_of: "set (seqs_of r) = range_set r"
proof (rule set_eqI)
  fix x
  have n: "offset (sr_start r) (sr_end r) < 16777216" by simp
  define n where "n = offset (sr_start r) (sr_end r)"
  have "x \<in> (\<lambda>i. sr_start r + of_nat i) ` {0..<Suc n} \<longleftrightarrow> offset (sr_start r) x \<le> n"
  proof
    assume "offset (sr_start r) x \<le> n"
    then show "x \<in> (\<lambda>i. sr_start r + of_nat i) ` {0..<Suc n}"
      by (intro rev_image_eqI [of "offset (sr_start r) x"]) (simp_all only: offset_inverse atLeastLessThan_iff less_Suc_eq_le le0)
  qed (use n offset_index [of _ n "sr_start r"] in \<open>auto simp: n_def [symmetric]\<close>)
  then show "x \<in> set (seqs_of r) \<longleftrightarrow> x \<in> range_set r"
    by (simp only: seqs_of_def set_map set_upt range_set_iff n_def)
qed

lemma set_concat_seqs: "set (concat (map seqs_of rs)) = covered rs"
  by (simp add: covered_def set_seqs_of)

section \<open>The map of datagrams in flight\<close>

abbreviation sent_wf :: "Sequence24 \<Rightarrow> Session \<Rightarrow> bool" where
  "sent_wf base s \<equiv> seq_keys.wf base (ss_sent_datagrams s)"

lemma seq_cmp_refl [simp]: "seq_cmp k k = Equal"
  by simp

lemma seq_get_in: "bt_get seq_cmp m k = Some v \<Longrightarrow> (k, v) \<in> set m"
  by (rule bt_get_in [of seq_cmp]) simp_all

text \<open>A number that is not in the map is not found, inside the window or not.\<close>

lemma sent_get:
  assumes "sent_wf base s"
  shows "bt_get seq_cmp (ss_sent_datagrams s) k = map_of (ss_sent_datagrams s) k"
proof (cases "k \<in> half_window base")
  case True
  then show ?thesis by (rule seq_keys.get_map_of [OF assms])
next
  case False
  then have "k \<notin> bt_keys (ss_sent_datagrams s)" using assms by (auto simp: seq_keys.wf_def)
  moreover from this have "bt_get seq_cmp (ss_sent_datagrams s) k = None"
    by (cases "bt_get seq_cmp (ss_sent_datagrams s) k") (force dest: seq_get_in)+
  moreover have "map_of (ss_sent_datagrams s) k = None" using calculation(1) by (simp add: map_of_eq_None_iff)
  ultimately show ?thesis by simp
qed

lemma bt_remove_absent: "bt_get cmp m k = None \<Longrightarrow> bt_remove cmp k m = m"
  by (induction cmp m k rule: bt_get.induct) (auto split: Ordering.splits)

lemma bt_remove_mset:
  "bt_get seq_cmp m k = Some v \<Longrightarrow> mset m = add_mset (k, v) (mset (bt_remove seq_cmp k m))"
  by (induction m) (auto split: Ordering.splits)

lemma bt_insert_new_mset: "bt_get cmp m k = None \<Longrightarrow> mset (bt_insert cmp k v m) = add_mset (k, v) (mset m)"
  by (induction cmp m k rule: bt_get.induct) (auto split: Ordering.splits)

lemma bt_insert_found_mset:
  "bt_get seq_cmp m k = Some v0 \<Longrightarrow> add_mset (k, v0) (mset (bt_insert seq_cmp k v m)) = add_mset (k, v) (mset m)"
  by (induction m) (auto split: Ordering.splits)

lemma remove_any:
  assumes "seq_keys.wf base m"
  shows "seq_keys.wf base (bt_remove seq_cmp k m)" and "set (bt_remove seq_cmp k m) = {e \<in> set m. fst e \<noteq> k}"
proof -
  have "seq_keys.wf base (bt_remove seq_cmp k m) \<and> set (bt_remove seq_cmp k m) = {e \<in> set m. fst e \<noteq> k}"
  proof (cases "k \<in> half_window base")
    case True
    then show ?thesis using seq_keys.wf_remove [OF assms] seq_keys.set_remove_wf [OF assms] by simp
  next
    case False
    then have k: "k \<notin> bt_keys m" using assms by (auto simp: seq_keys.wf_def)
    then have "bt_get seq_cmp m k = None" by (cases "bt_get seq_cmp m k") (force dest: seq_get_in)+
    then show ?thesis using assms k by (force simp: bt_remove_absent)
  qed
  then show "seq_keys.wf base (bt_remove seq_cmp k m)" "set (bt_remove seq_cmp k m) = {e \<in> set m. fst e \<noteq> k}"
    by blast+
qed

lemma remove_all:
  assumes "seq_keys.wf base m"
  shows "seq_keys.wf base (fold (bt_remove seq_cmp) ks m)"
    and "set (fold (bt_remove seq_cmp) ks m) = {e \<in> set m. fst e \<notin> set ks}"
proof -
  have "seq_keys.wf base (fold (bt_remove seq_cmp) ks m)
      \<and> set (fold (bt_remove seq_cmp) ks m) = {e \<in> set m. fst e \<notin> set ks}"
    using assms
  proof (induction ks arbitrary: m)
    case (Cons k ks)
    show ?case using Cons.IH [OF remove_any(1) [OF Cons.prems, of k]] remove_any(2) [OF Cons.prems, of k] by auto
  qed simp
  then show "seq_keys.wf base (fold (bt_remove seq_cmp) ks m)"
    "set (fold (bt_remove seq_cmp) ks m) = {e \<in> set m. fst e \<notin> set ks}" by blast+
qed

lemma insert_map_of:
  assumes wf: "seq_keys.wf base m" and k: "k \<in> half_window base"
  shows "seq_keys.wf base (bt_insert seq_cmp k v m)" and "map_of (bt_insert seq_cmp k v m) = (map_of m)(k \<mapsto> v)"
proof -
  show wf': "seq_keys.wf base (bt_insert seq_cmp k v m)" by (rule seq_keys.wf_insert [OF wf k])
  note d = seq_keys.wf_distinct [OF wf] seq_keys.wf_distinct [OF wf']
  have "map_of (bt_insert seq_cmp k v m) k' = Some x \<longleftrightarrow> ((map_of m)(k \<mapsto> v)) k' = Some x" for k' x
    using d seq_keys.set_insert_wf [OF wf k, of v] by auto
  then show "map_of (bt_insert seq_cmp k v m) = (map_of m)(k \<mapsto> v)"
    by (intro ext) (metis option.exhaust)
qed

lemma map_of_in_window: "seq_keys.wf base m \<Longrightarrow> map_of m k = Some t \<Longrightarrow> k \<in> half_window base"
  by (force simp: seq_keys.wf_def dest: map_of_SomeD)

section \<open>ACKs\<close>

lemma control_sent [simp]:
  "ss_sent_datagrams (on_reliable_ack rnd s) = ss_sent_datagrams s"
  "ss_sent_datagrams (observe_rtt_sample rnd s d) = ss_sent_datagrams s"
  "ss_sent_datagrams (on_nack_loss rnd s now) = ss_sent_datagrams s"
  "ss_sent_datagrams (on_timeout rnd s now) = ss_sent_datagrams s"
  by (simp_all add: on_reliable_ack_def observe_rtt_sample_def recompute_rto_from_rtt_def on_nack_loss_def
      on_timeout_def apply_loss_backoff_def Let_def split: option.split)

lemma control_receipts [simp]:
  "ss_receipt_tracking (on_reliable_ack rnd s) = ss_receipt_tracking s"
  "ss_receipt_tracking (observe_rtt_sample rnd s d) = ss_receipt_tracking s"
  by (simp_all add: on_reliable_ack_def observe_rtt_sample_def recompute_rto_from_rtt_def Let_def split: option.split)

lemma settle_receipts_fields:
  "ss_sent_datagrams (fst (fold settle_receipt ids sp)) = ss_sent_datagrams (fst sp)
   \<and> rp_acked (snd (fold settle_receipt ids sp)) = rp_acked (snd sp)
   \<and> rp_nacked (snd (fold settle_receipt ids sp)) = rp_nacked (snd sp)
   \<and> ss_incoming_acks (fst (fold settle_receipt ids sp)) = ss_incoming_acks (fst sp)
   \<and> ss_incoming_nacks (fst (fold settle_receipt ids sp)) = ss_incoming_nacks (fst sp)"
proof (induction ids arbitrary: sp)
  case (Cons r ids)
  obtain s p where sp: "sp = (s, p)" by (cases sp)
  show ?case using Cons [of "settle_receipt r sp"]
    by (auto simp: sp settle_receipt_def split: option.splits)
qed simp

lemma control_incoming [simp]:
  "ss_incoming_nacks (on_reliable_ack rnd s) = ss_incoming_nacks s"
  "ss_incoming_nacks (observe_rtt_sample rnd s d) = ss_incoming_nacks s"
  "ss_incoming_acks (on_reliable_ack rnd s) = ss_incoming_acks s"
  "ss_incoming_acks (observe_rtt_sample rnd s d) = ss_incoming_acks s"
  "ss_incoming_acks (on_nack_loss rnd s now) = ss_incoming_acks s"
  "ss_incoming_nacks (on_nack_loss rnd s now) = ss_incoming_nacks s"
  by (simp_all add: on_reliable_ack_def observe_rtt_sample_def recompute_rto_from_rtt_def on_nack_loss_def
      apply_loss_backoff_def Let_def split: option.split)

lemma ack_sequence_fields:
  assumes "ack_sequence rnd now k (s, p) = (s', p')"
  shows "ss_sent_datagrams s' = bt_remove seq_cmp k (ss_sent_datagrams s)"
    and "rp_acked p' + length (ss_sent_datagrams s') = rp_acked p + length (ss_sent_datagrams s)"
    and "rp_nacked p' = rp_nacked p" and "ss_incoming_nacks s' = ss_incoming_nacks s"
    and "ss_incoming_acks s' = ss_incoming_acks s"
proof -
  have "ss_sent_datagrams s' = bt_remove seq_cmp k (ss_sent_datagrams s)
     \<and> rp_acked p' + length (ss_sent_datagrams s') = rp_acked p + length (ss_sent_datagrams s)
     \<and> rp_nacked p' = rp_nacked p \<and> ss_incoming_nacks s' = ss_incoming_nacks s \<and> ss_incoming_acks s' = ss_incoming_acks s"
  proof (cases "bt_get seq_cmp (ss_sent_datagrams s) k")
    case None
    then show ?thesis using assms by (simp add: ack_sequence_def bt_remove_absent)
  next
    case (Some t)
    define s1 where "s1 = on_reliable_ack rnd (s\<lparr>ss_sent_datagrams := bt_remove seq_cmp k (ss_sent_datagrams s)\<rparr>)"
    define s2 where "s2 = (if td_retries t = 0 then observe_rtt_sample rnd s1 (now - td_send_time t) else s1)"
    have run: "fold settle_receipt (td_receipt_ids t) (s2, p\<lparr>rp_acked := rp_acked p + 1\<rparr>) = (s', p')"
      using assms Some by (cases "td_retries t = 0") (simp_all add: ack_sequence_def s1_def s2_def Let_def)
    have "ss_sent_datagrams s2 = bt_remove seq_cmp k (ss_sent_datagrams s)" "ss_incoming_nacks s2 = ss_incoming_nacks s"
      "ss_incoming_acks s2 = ss_incoming_acks s"
      by (simp_all add: s2_def s1_def)
    then show ?thesis
      using settle_receipts_fields [of "td_receipt_ids t" "(s2, p\<lparr>rp_acked := rp_acked p + 1\<rparr>)", unfolded run]
        bt_get_Some_remove_length [OF Some]
      by simp
  qed
  then show "ss_sent_datagrams s' = bt_remove seq_cmp k (ss_sent_datagrams s)"
    "rp_acked p' + length (ss_sent_datagrams s') = rp_acked p + length (ss_sent_datagrams s)"
    "rp_nacked p' = rp_nacked p" "ss_incoming_nacks s' = ss_incoming_nacks s" "ss_incoming_acks s' = ss_incoming_acks s" by blast+
qed

lemma ack_sequences_fields:
  "fold (ack_sequence rnd now) ks (s, p) = (s', p') \<Longrightarrow>
     ss_sent_datagrams s' = fold (bt_remove seq_cmp) ks (ss_sent_datagrams s)
     \<and> rp_acked p' + length (ss_sent_datagrams s') = rp_acked p + length (ss_sent_datagrams s)
     \<and> rp_nacked p' = rp_nacked p \<and> ss_incoming_nacks s' = ss_incoming_nacks s \<and> ss_incoming_acks s' = ss_incoming_acks s"
proof (induction ks arbitrary: s p)
  case (Cons k ks)
  obtain s1 p1 where 1: "ack_sequence rnd now k (s, p) = (s1, p1)" by fastforce
  note f = ack_sequence_fields [OF 1]
  have IH: "ss_sent_datagrams s' = fold (bt_remove seq_cmp) ks (ss_sent_datagrams s1)"
    "rp_acked p' + length (ss_sent_datagrams s') = rp_acked p1 + length (ss_sent_datagrams s1)"
    "rp_nacked p' = rp_nacked p1" "ss_incoming_nacks s' = ss_incoming_nacks s1" "ss_incoming_acks s' = ss_incoming_acks s1"
    using Cons.IH [of s1 p1] Cons.prems unfolding fold_simps 1 by blast+
  have "rp_acked p' + length (ss_sent_datagrams s') = rp_acked p + length (ss_sent_datagrams s)"
    using IH(2) f(2) by linarith
  with IH f show ?case by simp
qed simp

section \<open>NACKs\<close>

definition hastened :: "Instant \<Rightarrow> TrackedDatagram \<Rightarrow> bool" where
  "hastened now t \<longleftrightarrow> td_resendable t \<and> td_next_send t > now"

definition hasten :: "Instant \<Rightarrow> TrackedDatagram \<Rightarrow> TrackedDatagram" where
  "hasten now t = t\<lparr>td_next_send := now, td_nack_resend_pending := True\<rparr>"

lemma not_hastened_twice [simp]: "\<not> hastened now (hasten now t)"
  by (simp add: hastened_def hasten_def)

lemma nack_sequence_eq:
  "nack_sequence now k (s, p) =
     (case bt_get seq_cmp (ss_sent_datagrams s) k of
        None \<Rightarrow> (s, p)
      | Some t \<Rightarrow> if hastened now t
                  then (s\<lparr>ss_sent_datagrams := bt_insert seq_cmp k (hasten now t) (ss_sent_datagrams s)\<rparr>,
                        p\<lparr>rp_nacked := rp_nacked p + 1\<rparr>)
                  else (s, p))"
  by (simp add: nack_sequence_def hastened_def hasten_def split: option.split)

lemma nack_sequence_spec:
  assumes "nack_sequence now k (s, p) = (s', p')" and wf: "sent_wf base s"
  shows "sent_wf base s'"
    and "map_of (ss_sent_datagrams s') = (\<lambda>k'. case map_of (ss_sent_datagrams s) k' of None \<Rightarrow> None
           | Some t \<Rightarrow> Some (if k' = k \<and> hastened now t then hasten now t else t))"
    and "rp_nacked p' = rp_nacked p + (case map_of (ss_sent_datagrams s) k of
           Some t \<Rightarrow> if hastened now t then 1 else 0 | None \<Rightarrow> 0)"
    and "rp_acked p' = rp_acked p"
proof -
  note get = sent_get [OF wf, of k]
  have "sent_wf base s' \<and> map_of (ss_sent_datagrams s') = (\<lambda>k'. case map_of (ss_sent_datagrams s) k' of None \<Rightarrow> None
           | Some t \<Rightarrow> Some (if k' = k \<and> hastened now t then hasten now t else t))
     \<and> rp_nacked p' = rp_nacked p + (case map_of (ss_sent_datagrams s) k of
           Some t \<Rightarrow> if hastened now t then 1 else 0 | None \<Rightarrow> 0) \<and> rp_acked p' = rp_acked p"
  proof (cases "\<exists>t. map_of (ss_sent_datagrams s) k = Some t \<and> hastened now t")
    case True
    then obtain t where t: "map_of (ss_sent_datagrams s) k = Some t" "hastened now t" by blast
    then have s': "s' = s\<lparr>ss_sent_datagrams := bt_insert seq_cmp k (hasten now t) (ss_sent_datagrams s)\<rparr>"
      "p' = p\<lparr>rp_nacked := rp_nacked p + 1\<rparr>"
      using assms(1) get by (simp_all add: nack_sequence_eq)
    note ins = insert_map_of [OF wf map_of_in_window [OF wf t(1)], of "hasten now t"]
    show ?thesis using ins t by (auto simp: fun_eq_iff s' split: option.split)
  next
    case False
    then have "s' = s" "p' = p" using assms(1) get by (auto simp: nack_sequence_eq split: option.splits if_splits)
    then show ?thesis using wf False by (auto simp: fun_eq_iff split: option.split)
  qed
  then show "sent_wf base s'" "map_of (ss_sent_datagrams s') = (\<lambda>k'. case map_of (ss_sent_datagrams s) k' of None \<Rightarrow> None
           | Some t \<Rightarrow> Some (if k' = k \<and> hastened now t then hasten now t else t))"
    "rp_nacked p' = rp_nacked p + (case map_of (ss_sent_datagrams s) k of
           Some t \<Rightarrow> if hastened now t then 1 else 0 | None \<Rightarrow> 0)" "rp_acked p' = rp_acked p" by blast+
qed

definition named :: "Instant \<Rightarrow> Session \<Rightarrow> Sequence24 set \<Rightarrow> Sequence24 set" where
  "named now s K = {k \<in> K. \<exists>t. map_of (ss_sent_datagrams s) k = Some t \<and> hastened now t}"

lemma nack_sequences_spec:
  assumes "fold (nack_sequence now) ks (s, p) = (s', p')" and "sent_wf base s"
  shows "sent_wf base s'
     \<and> (\<forall>k. map_of (ss_sent_datagrams s') k =
          map_option (\<lambda>t. if k \<in> set ks \<and> hastened now t then hasten now t else t) (map_of (ss_sent_datagrams s) k))
     \<and> rp_nacked p' = rp_nacked p + card (named now s (set ks)) \<and> rp_acked p' = rp_acked p"
  using assms
proof (induction ks arbitrary: s p)
  case Nil
  then show ?case by (simp add: named_def option.map_ident)
next
  case (Cons k ks)
  obtain s1 p1 where 1: "nack_sequence now k (s, p) = (s1, p1)" by fastforce
  note st = nack_sequence_spec [OF 1 Cons.prems(2)]
  have "fold (nack_sequence now) ks (s1, p1) = (s', p')" using Cons.prems(1) 1 by simp
  note IH = Cons.IH [OF this st(1)]
  let ?H = "\<lambda>k'. \<exists>t. map_of (ss_sent_datagrams s) k' = Some t \<and> hastened now t"
  have "named now s1 (set ks) = named now s (set ks) - {k}"
    using st(2) by (auto simp: named_def split: option.splits if_splits)
  moreover have "named now s (set (k # ks)) = (if ?H k then insert k (named now s (set ks) - {k}) else named now s (set ks) - {k})"
    by (auto simp: named_def)
  moreover have "finite (named now s (set ks))" by (simp add: named_def)
  ultimately have "card (named now s (set (k # ks))) = card (named now s1 (set ks)) + (if ?H k then 1 else 0)"
    using card_insert_disjoint [of "named now s (set ks) - {k}" k] by (cases "?H k") (simp_all only: if_True if_False, simp_all)
  moreover have "rp_nacked p1 = rp_nacked p + (if ?H k then 1 else 0)" using st(3) by (auto split: option.split)
  ultimately have "rp_nacked p' = rp_nacked p + card (named now s (set (k # ks)))" using IH by linarith
  moreover have "map_of (ss_sent_datagrams s') k' = map_option
      (\<lambda>t. if k' \<in> set (k # ks) \<and> hastened now t then hasten now t else t) (map_of (ss_sent_datagrams s) k')" for k'
    using IH st(2) by (cases "map_of (ss_sent_datagrams s) k'") auto
  ultimately show ?case using IH st(4) by simp
qed

lemma nack_sequences_incoming:
  "fold (nack_sequence now) ks (s, p) = (s', p') \<Longrightarrow>
     ss_incoming_acks s' = ss_incoming_acks s \<and> ss_incoming_nacks s' = ss_incoming_nacks s"
proof (induction ks arbitrary: s p)
  case (Cons k ks)
  obtain s1 p1 where 1: "nack_sequence now k (s, p) = (s1, p1)" by fastforce
  moreover from this have "ss_incoming_acks s1 = ss_incoming_acks s" "ss_incoming_nacks s1 = ss_incoming_nacks s"
    by (auto simp: nack_sequence_eq split: option.splits if_splits)
  ultimately show ?case using Cons.IH [of s1 p1] Cons.prems by simp
qed simp

text \<open>A map with some keys removed.\<close>

lemma map_of_removed:
  assumes "seq_keys.wf base m" "seq_keys.wf base m'" and "set m' = {e \<in> set m. fst e \<notin> A}"
  shows "map_of m' k = (if k \<in> A then None else map_of m k)"
    and "length m = length m' + card (fst ` set m \<inter> A)"
proof -
  note d = seq_keys.wf_distinct [OF assms(1)] seq_keys.wf_distinct [OF assms(2)]
  have "map_of m' k = Some x \<longleftrightarrow> (if k \<in> A then None else map_of m k) = Some x" for x
    using d assms(3) by auto
  then show "map_of m' k = (if k \<in> A then None else map_of m k)" by (metis option.exhaust)
  have "fst ` set m' = fst ` set m - A" using assms(3) by auto
  moreover have "length m = card (fst ` set m)" "length m' = card (fst ` set m')"
    using d distinct_card [of "map fst m"] distinct_card [of "map fst m'"] by simp_all
  ultimately show "length m = length m' + card (fst ` set m \<inter> A)"
    by (simp add: card_Diff_subset_Int) (metis card_mono finite_imageI finite_set inf_le1 le_add_diff_inverse2)
qed

definition sent_keys :: "Session \<Rightarrow> Sequence24 set" where
  "sent_keys s = fst ` set (ss_sent_datagrams s)"

lemma process_incoming_receipts_spec:
  assumes run: "process_incoming_receipts rnd s now = (p, s')" and wf: "sent_wf base s"
  shows "sent_wf base s'"
    and "map_of (ss_sent_datagrams s') k = (if k \<in> covered (ss_incoming_acks s) then None
           else map_option (\<lambda>t. if k \<in> covered (ss_incoming_nacks s) \<and> hastened now t then hasten now t else t)
                  (map_of (ss_sent_datagrams s) k))"
    and "rp_acked p = card (sent_keys s \<inter> covered (ss_incoming_acks s))"
    and "rp_nacked p = card (named now s (covered (ss_incoming_nacks s) - covered (ss_incoming_acks s)))"
    and "ss_incoming_acks s' = []" and "ss_incoming_nacks s' = []"
proof -
  let ?A = "concat (map seqs_of (ss_incoming_acks s))" and ?N = "concat (map seqs_of (ss_incoming_nacks s))"
  obtain s1 p1 where 1: "fold (ack_sequence rnd now) ?A (s\<lparr>ss_incoming_acks := []\<rparr>, receipt_progress_default) = (s1, p1)"
    by fastforce
  define s2 where "s2 = s1\<lparr>ss_metrics := m_acked_datagrams_update (\<lambda>n. sat_add n (rp_acked p1)) (ss_metrics s1)\<rparr>"
  note a = ack_sequences_fields [OF 1]
  have sent1: "ss_sent_datagrams s1 = fold (bt_remove seq_cmp) ?A (ss_sent_datagrams s)" using a by simp
  note rem = remove_all [OF wf, of ?A, folded sent1, unfolded set_concat_seqs]
  have nacks: "ss_incoming_nacks s1 = ss_incoming_nacks s" using a by simp
  obtain s3 p2 where 3: "fold (nack_sequence now) ?N (s2\<lparr>ss_incoming_nacks := []\<rparr>, p1) = (s3, p2)" by fastforce
  have wf2: "sent_wf base (s2\<lparr>ss_incoming_nacks := []\<rparr>)" using rem(1) by (simp add: s2_def)
  note n = nack_sequences_spec [OF 3 wf2, unfolded set_concat_seqs]
  have res: "p = p2" "ss_sent_datagrams s' = ss_sent_datagrams s3" "ss_incoming_acks s' = ss_incoming_acks s3"
    "ss_incoming_nacks s' = ss_incoming_nacks s3"
    using run 3
    by (auto simp: process_incoming_receipts_def for_each_range_fold 1 nacks s2_def [symmetric] Let_def)
  note gone = map_of_removed [OF wf rem]
  show "sent_wf base s'" using n by (simp add: res)
  show "map_of (ss_sent_datagrams s') k = (if k \<in> covered (ss_incoming_acks s) then None
      else map_option (\<lambda>t. if k \<in> covered (ss_incoming_nacks s) \<and> hastened now t then hasten now t else t)
             (map_of (ss_sent_datagrams s) k))"
    using n gone(1) by (simp add: res s2_def)
  have "rp_acked p = rp_acked p1" using n by (simp add: res)
  moreover have "rp_acked p1 + length (ss_sent_datagrams s1) = length (ss_sent_datagrams s)"
    using conjunct1 [OF conjunct2 [OF a]] by (simp add: receipt_progress_default_def)
  ultimately show "rp_acked p = card (sent_keys s \<inter> covered (ss_incoming_acks s))"
    using gone(2) unfolding sent_keys_def by linarith
  have "named now (s2\<lparr>ss_incoming_nacks := []\<rparr>) (covered (ss_incoming_nacks s))
      = named now s (covered (ss_incoming_nacks s) - covered (ss_incoming_acks s))"
    using gone(1) by (auto simp: named_def s2_def split: if_splits)
  then show "rp_nacked p = card (named now s (covered (ss_incoming_nacks s) - covered (ss_incoming_acks s)))"
    using n a by (simp add: res receipt_progress_default_def)
  show "ss_incoming_acks s' = []" "ss_incoming_nacks s' = []"
    using nack_sequences_incoming [OF 3] a by (simp_all add: res s2_def)
qed

section \<open>Receipts\<close>

text \<open>How many datagrams in flight carry a receipt; the counters are these numbers.\<close>

definition carrying :: "Session \<Rightarrow> u64 \<Rightarrow> nat" where
  "carrying s r = length (filter (\<lambda>(k, t). r \<in> set (td_receipt_ids t)) (ss_sent_datagrams s))"

definition receipts_ok :: "Session \<Rightarrow> bool" where
  "receipts_ok s \<longleftrightarrow>
     (\<forall>r. map_of (ss_receipt_tracking s) r = (if carrying s r = 0 then None else Some (carrying s r)))
     \<and> (\<forall>(k, t) \<in> set (ss_sent_datagrams s). distinct (td_receipt_ids t))"

lemma carrying_mset:
  "carrying s r = size (filter_mset (\<lambda>(k, t). r \<in> set (td_receipt_ids t)) (mset (ss_sent_datagrams s)))"
  by (simp add: carrying_def flip: mset_filter)

lemma settle_receipts_spec:
  assumes "fold settle_receipt ids (s, p) = (s', p')" and "distinct ids"
  shows "map_of (ss_receipt_tracking s') r = (if r \<in> set ids then (case map_of (ss_receipt_tracking s) r of
             Some c \<Rightarrow> if c > 1 then Some (c - 1) else None | None \<Rightarrow> None) else map_of (ss_receipt_tracking s) r)"
    and "rp_acked_receipt_ids p' = rp_acked_receipt_ids p
           @ filter (\<lambda>r. \<exists>c. map_of (ss_receipt_tracking s) r = Some c \<and> c \<le> 1) ids"
proof -
  have "(\<forall>r. map_of (ss_receipt_tracking s') r = (if r \<in> set ids then (case map_of (ss_receipt_tracking s) r of
             Some c \<Rightarrow> if c > 1 then Some (c - 1) else None | None \<Rightarrow> None) else map_of (ss_receipt_tracking s) r))
      \<and> rp_acked_receipt_ids p' = rp_acked_receipt_ids p
           @ filter (\<lambda>r. \<exists>c. map_of (ss_receipt_tracking s) r = Some c \<and> c \<le> 1) ids"
    using assms
  proof (induction ids arbitrary: s p)
    case (Cons x ids)
    obtain s1 p1 where 1: "settle_receipt x (s, p) = (s1, p1)" by fastforce
    have m: "map_of (ss_receipt_tracking s1) r = (if r = x then (case map_of (ss_receipt_tracking s) x of
             Some c \<Rightarrow> if c > 1 then Some (c - 1) else None | None \<Rightarrow> None) else map_of (ss_receipt_tracking s) r)" for r
      using 1 by (auto simp: settle_receipt_def AList.update_conv' AList.delete_conv' split: option.splits if_splits)
    have p1: "rp_acked_receipt_ids p1 = rp_acked_receipt_ids p
        @ (if \<exists>c. map_of (ss_receipt_tracking s) x = Some c \<and> c \<le> 1 then [x] else [])"
      using 1 by (auto simp: settle_receipt_def split: option.splits if_splits)
    have "filter (\<lambda>r. \<exists>c. map_of (ss_receipt_tracking s1) r = Some c \<and> c \<le> 1) ids
        = filter (\<lambda>r. \<exists>c. map_of (ss_receipt_tracking s) r = Some c \<and> c \<le> 1) ids"
      using Cons.prems(2) by (intro filter_cong) (auto simp: m)
    then show ?case using Cons.IH [of s1 p1] Cons.prems p1 by (auto simp: 1 m)
  qed simp
  then show "map_of (ss_receipt_tracking s') r = (if r \<in> set ids then (case map_of (ss_receipt_tracking s) r of
             Some c \<Rightarrow> if c > 1 then Some (c - 1) else None | None \<Rightarrow> None) else map_of (ss_receipt_tracking s) r)"
    and "rp_acked_receipt_ids p' = rp_acked_receipt_ids p
           @ filter (\<lambda>r. \<exists>c. map_of (ss_receipt_tracking s) r = Some c \<and> c \<le> 1) ids" by blast+
qed

lemma ack_sequence_receipts:
  assumes run: "ack_sequence rnd now k (s, p) = (s', p')" and ok: "receipts_ok s"
  shows "receipts_ok s'" and "carrying s' r \<le> carrying s r"
    and "\<exists>new. rp_acked_receipt_ids p' = rp_acked_receipt_ids p @ new \<and> distinct new
           \<and> set new = {r. carrying s r \<noteq> 0 \<and> carrying s' r = 0}"
proof -
  have "receipts_ok s' \<and> (\<forall>r. carrying s' r \<le> carrying s r)
    \<and> (\<exists>new. rp_acked_receipt_ids p' = rp_acked_receipt_ids p @ new \<and> distinct new
           \<and> set new = {r. carrying s r \<noteq> 0 \<and> carrying s' r = 0})"
  proof (cases "bt_get seq_cmp (ss_sent_datagrams s) k")
    case None
    then have "s' = s" "p' = p" using run by (simp_all add: ack_sequence_def)
    then show ?thesis using ok by auto
  next
    case (Some t)
    define s1 where "s1 = on_reliable_ack rnd (s\<lparr>ss_sent_datagrams := bt_remove seq_cmp k (ss_sent_datagrams s)\<rparr>)"
    define s2 where "s2 = (if td_retries t = 0 then observe_rtt_sample rnd s1 (now - td_send_time t) else s1)"
    have st: "fold settle_receipt (td_receipt_ids t) (s2, p\<lparr>rp_acked := rp_acked p + 1\<rparr>) = (s', p')"
      using run Some by (cases "td_retries t = 0") (simp_all add: ack_sequence_def s1_def s2_def Let_def)
    have sent: "ss_sent_datagrams s' = bt_remove seq_cmp k (ss_sent_datagrams s)" using ack_sequence_fields(1) [OF run] .
    have tr: "ss_receipt_tracking s2 = ss_receipt_tracking s" by (simp add: s2_def s1_def)
    have d: "distinct (td_receipt_ids t)" using ok seq_get_in [OF Some] by (auto simp: receipts_ok_def)
    note sp = settle_receipts_spec [OF st d, unfolded tr]
    have c: "carrying s r = carrying s' r + (if r \<in> set (td_receipt_ids t) then 1 else 0)" for r
      using bt_remove_mset [OF Some] by (simp add: carrying_mset sent)
    have tracked: "map_of (ss_receipt_tracking s) r = (if carrying s r = 0 then None else Some (carrying s r))" for r
      using ok by (simp add: receipts_ok_def)
    have "map_of (ss_receipt_tracking s') r = (if carrying s' r = 0 then None else Some (carrying s' r))" for r
      using c [of r] tracked [of r] sp(1) [of r] by (cases "r \<in> set (td_receipt_ids t)") simp_all
    moreover have "\<forall>(k, t) \<in> set (ss_sent_datagrams s'). distinct (td_receipt_ids t)"
      using ok bt_remove_subset [of seq_cmp k "ss_sent_datagrams s"] unfolding receipts_ok_def sent by blast
    ultimately have "receipts_ok s'" unfolding receipts_ok_def by blast
    moreover have "filter (\<lambda>r. \<exists>c. map_of (ss_receipt_tracking s) r = Some c \<and> c \<le> 1) (td_receipt_ids t)
        = filter (\<lambda>r. carrying s' r = 0) (td_receipt_ids t)"
      using c tracked by (intro filter_cong) auto
    ultimately show ?thesis using sp(2) d c
      by (intro conjI exI [of _ "filter (\<lambda>r. carrying s' r = 0) (td_receipt_ids t)"]) auto
  qed
  then show "receipts_ok s'" and "carrying s' r \<le> carrying s r"
    and "\<exists>new. rp_acked_receipt_ids p' = rp_acked_receipt_ids p @ new \<and> distinct new
           \<and> set new = {r. carrying s r \<noteq> 0 \<and> carrying s' r = 0}" by blast+
qed

lemma ack_sequences_receipts:
  assumes "fold (ack_sequence rnd now) ks (s, p) = (s', p')" and "receipts_ok s"
  shows "receipts_ok s' \<and> (\<forall>r. carrying s' r \<le> carrying s r)
    \<and> (\<exists>new. rp_acked_receipt_ids p' = rp_acked_receipt_ids p @ new \<and> distinct new
           \<and> set new = {r. carrying s r \<noteq> 0 \<and> carrying s' r = 0})"
  using assms
proof (induction ks arbitrary: s p)
  case (Cons k ks)
  obtain s1 p1 where 1: "ack_sequence rnd now k (s, p) = (s1, p1)" by fastforce
  note a = ack_sequence_receipts [OF 1 Cons.prems(2)]
  have rest: "fold (ack_sequence rnd now) ks (s1, p1) = (s', p')" using Cons.prems(1) 1 by simp
  from Cons.IH [OF this a(1)] obtain new2 where IH: "receipts_ok s'" "\<forall>r. carrying s' r \<le> carrying s1 r"
    "rp_acked_receipt_ids p' = rp_acked_receipt_ids p1 @ new2" "distinct new2"
    "set new2 = {r. carrying s1 r \<noteq> 0 \<and> carrying s' r = 0}" by blast
  from a(3) obtain new1 where n1: "rp_acked_receipt_ids p1 = rp_acked_receipt_ids p @ new1" "distinct new1"
    "set new1 = {r. carrying s r \<noteq> 0 \<and> carrying s1 r = 0}" by blast
  have le: "carrying s' r \<le> carrying s1 r" "carrying s1 r \<le> carrying s r" for r using IH(2) a(2) by blast+
  have "r \<in> set (new1 @ new2) \<longleftrightarrow> carrying s r \<noteq> 0 \<and> carrying s' r = 0" for r
    using le [of r] by (auto simp: n1(3) IH(5))
  then have "set (new1 @ new2) = {r. carrying s r \<noteq> 0 \<and> carrying s' r = 0}" by blast
  moreover have "distinct (new1 @ new2)" using n1 IH by auto
  ultimately show ?case using IH n1 le by (intro conjI exI [of _ "new1 @ new2"]) (simp_all, meson order_trans)
qed auto

lemma nack_sequence_receipts:
  assumes run: "nack_sequence now k (s, p) = (s', p')" and ok: "receipts_ok s"
  shows "receipts_ok s' \<and> carrying s' = carrying s \<and> rp_acked_receipt_ids p' = rp_acked_receipt_ids p"
proof (cases "\<exists>t. bt_get seq_cmp (ss_sent_datagrams s) k = Some t \<and> hastened now t")
  case False
  then have "s' = s" "p' = p" using run by (auto simp: nack_sequence_eq split: option.splits if_splits)
  then show ?thesis using ok by simp
next
  case True
  then obtain t where t: "bt_get seq_cmp (ss_sent_datagrams s) k = Some t" and h: "hastened now t" by blast
  have s': "s' = s\<lparr>ss_sent_datagrams := bt_insert seq_cmp k (hasten now t) (ss_sent_datagrams s)\<rparr>"
      "p' = p\<lparr>rp_nacked := rp_nacked p + 1\<rparr>"
    using run by (simp_all add: nack_sequence_eq t h)
  have sent: "ss_sent_datagrams s' = bt_insert seq_cmp k (hasten now t) (ss_sent_datagrams s)"
    "ss_receipt_tracking s' = ss_receipt_tracking s" "rp_acked_receipt_ids p' = rp_acked_receipt_ids p"
    by (simp_all add: s')
  note m = bt_insert_found_mset [OF t, of "hasten now t", folded sent(1)]
  have ids: "td_receipt_ids (hasten now t) = td_receipt_ids t" by (simp add: hasten_def)
  have c: "carrying s' r = carrying s r" for r
    using arg_cong [OF m, of "\<lambda>M. size (filter_mset (\<lambda>(k, t). r \<in> set (td_receipt_ids t)) M)"]
    by (cases "r \<in> set (td_receipt_ids t)") (simp_all add: carrying_mset ids)
  have sub: "set (ss_sent_datagrams s') \<subseteq> insert (k, hasten now t) (set (ss_sent_datagrams s))"
    using arg_cong [OF m, of set_mset] by auto
  have d: "distinct (td_receipt_ids t)" using ok seq_get_in [OF t] by (auto simp: receipts_ok_def)
  have "\<forall>(k, t) \<in> set (ss_sent_datagrams s'). distinct (td_receipt_ids t)"
  proof (rule ballI)
    fix e assume "e \<in> set (ss_sent_datagrams s')"
    with sub consider "e = (k, hasten now t)" | "e \<in> set (ss_sent_datagrams s)" by blast
    then show "case e of (k, t) \<Rightarrow> distinct (td_receipt_ids t)"
      using d ids ok unfolding receipts_ok_def by cases auto
  qed
  moreover have "map_of (ss_receipt_tracking s') r = (if carrying s' r = 0 then None else Some (carrying s' r))" for r
    using ok unfolding receipts_ok_def sent(2) c by blast
  ultimately show ?thesis using c sent(3) unfolding receipts_ok_def by blast
qed

lemma nack_sequences_receipts:
  "fold (nack_sequence now) ks (s, p) = (s', p') \<Longrightarrow> receipts_ok s \<Longrightarrow>
     receipts_ok s' \<and> carrying s' = carrying s \<and> rp_acked_receipt_ids p' = rp_acked_receipt_ids p"
proof (induction ks arbitrary: s p)
  case (Cons k ks)
  obtain s1 p1 where 1: "nack_sequence now k (s, p) = (s1, p1)" by fastforce
  show ?case using Cons.IH [of s1 p1] Cons.prems nack_sequence_receipts [OF 1 Cons.prems(2)] by (simp add: 1)
qed simp

lemma receipts_ok_cong:
  "ss_receipt_tracking s' = ss_receipt_tracking s \<Longrightarrow> ss_sent_datagrams s' = ss_sent_datagrams s \<Longrightarrow>
     receipts_ok s' = receipts_ok s \<and> carrying s' = carrying s"
  by (simp add: receipts_ok_def carrying_def fun_eq_iff)

lemma on_nack_loss_receipts [simp]: "ss_receipt_tracking (on_nack_loss rnd s now) = ss_receipt_tracking s"
  by (simp add: on_nack_loss_def apply_loss_backoff_def Let_def)

lemma process_incoming_receipts_reports:
  assumes run: "process_incoming_receipts rnd s now = (p, s')" and ok: "receipts_ok s"
  shows "receipts_ok s'" and "distinct (rp_acked_receipt_ids p)"
    and "set (rp_acked_receipt_ids p) = {r. carrying s r \<noteq> 0 \<and> carrying s' r = 0}"
proof -
  let ?A = "concat (map seqs_of (ss_incoming_acks s))" and ?N = "concat (map seqs_of (ss_incoming_nacks s))"
  let ?s0 = "s\<lparr>ss_incoming_acks := []\<rparr>"
  obtain s1 p1 where 1: "fold (ack_sequence rnd now) ?A (?s0, receipt_progress_default) = (s1, p1)" by fastforce
  define s2 where "s2 = s1\<lparr>ss_metrics := m_acked_datagrams_update (\<lambda>n. sat_add n (rp_acked p1)) (ss_metrics s1)\<rparr>"
  have nacks: "ss_incoming_nacks s1 = ss_incoming_nacks s" using ack_sequences_fields [OF 1] by simp
  have c0: "receipts_ok ?s0" "carrying ?s0 = carrying s" using ok receipts_ok_cong [of ?s0 s] by simp_all
  obtain new where a: "receipts_ok s1" "\<forall>r. carrying s1 r \<le> carrying s r" "rp_acked_receipt_ids p1 = new" "distinct new"
    "set new = {r. carrying s r \<noteq> 0 \<and> carrying s1 r = 0}"
    using ack_sequences_receipts [OF 1 c0(1)] unfolding c0(2) by (auto simp: receipt_progress_default_def)
  obtain s3 p2 where 3: "fold (nack_sequence now) ?N (s2\<lparr>ss_incoming_nacks := []\<rparr>, p1) = (s3, p2)" by fastforce
  have c2: "receipts_ok (s2\<lparr>ss_incoming_nacks := []\<rparr>)" "carrying (s2\<lparr>ss_incoming_nacks := []\<rparr>) = carrying s1"
    using a(1) receipts_ok_cong [of "s2\<lparr>ss_incoming_nacks := []\<rparr>" s1] by (simp_all add: s2_def)
  note n = nack_sequences_receipts [OF 3 c2(1), unfolded c2(2)]
  have res: "p = p2" "ss_sent_datagrams s' = ss_sent_datagrams s3" "ss_receipt_tracking s' = ss_receipt_tracking s3"
    using run 3
    by (auto simp: process_incoming_receipts_def for_each_range_fold 1 nacks s2_def [symmetric] Let_def)
  have c3: "receipts_ok s' = receipts_ok s3" "carrying s' = carrying s3" using receipts_ok_cong [OF res(3,2)] by simp_all
  then show "receipts_ok s'" "distinct (rp_acked_receipt_ids p)"
    "set (rp_acked_receipt_ids p) = {r. carrying s r \<noteq> 0 \<and> carrying s' r = 0}"
    using n a by (simp_all add: res(1))
qed

lemma count_receipts_spec:
  "distinct ids \<Longrightarrow> map_of (ss_receipt_tracking (fold count_receipt ids s)) r =
     (if r \<in> set ids then Some (sat_add (case map_of (ss_receipt_tracking s) r of Some c \<Rightarrow> c | None \<Rightarrow> 0) 1)
      else map_of (ss_receipt_tracking s) r)"
proof (induction ids arbitrary: s)
  case (Cons x ids)
  have m: "map_of (ss_receipt_tracking (count_receipt x s)) r =
      (if r = x then Some (sat_add (case map_of (ss_receipt_tracking s) x of Some c \<Rightarrow> c | None \<Rightarrow> 0) 1)
       else map_of (ss_receipt_tracking s) r)" for r
    by (simp add: count_receipt_def AList.update_conv')
  show ?case using Cons.IH [of "count_receipt x s"] Cons.prems by (auto simp: m)
qed simp

lemma sat_add_Suc: "a < U64_MAX \<Longrightarrow> sat_add a (Suc 0) = Suc a"
  by (simp add: sat_add_exact)

lemma sat_add_zero_one: "sat_add 0 (Suc 0) = Suc 0"
  by (simp add: sat_add_def U64_MAX_def)

lemma track_receipts_ok:
  assumes ok: "receipts_ok s" and new: "bt_get seq_cmp (ss_sent_datagrams s) (dh_sequence (dg_header d)) = None"
    and ids: "distinct ids" and small: "\<forall>r \<in> set ids. carrying s r < U64_MAX"
  shows "receipts_ok (track_sent_reliable_datagram s d now ids)"
proof (cases "\<not> has_frame_with is_reliable (dg_payload d) \<and> \<not> has_frame_with is_with_ack_receipt (dg_payload d) \<and> ids = []")
  case True
  then show ?thesis using ok by (simp add: track_sent_reliable_datagram_def)
next
  case False
  let ?s' = "track_sent_reliable_datagram s d now ids"
  define s1 where "s1 = (if has_frame_with is_reliable (dg_payload d) then bump m_reliable_sent_datagrams_update s else s)"
  have s1: "ss_receipt_tracking s1 = ss_receipt_tracking s" "ss_sent_datagrams s1 = ss_sent_datagrams s" by (simp_all add: s1_def)
  obtain t where s': "?s' = (fold count_receipt ids s1)\<lparr>ss_sent_datagrams := bt_insert seq_cmp (dh_sequence (dg_header d)) t (ss_sent_datagrams s)\<rparr>"
    and t: "td_receipt_ids t = ids"
    by (rule that [of "\<lparr>td_datagram = d, td_send_time = now, td_next_send = now + ss_resend_rto (fold count_receipt ids s1),
                       td_retries = 0, td_nack_resend_pending = False, td_resendable = has_frame_with is_reliable (dg_payload d),
                       td_receipt_ids = ids\<rparr>"])
      (subst track_sent_reliable_datagram_def, simp only: Let_def False if_False s1_def [symmetric] count_receipts_fields s1, simp)
  have sent: "mset (ss_sent_datagrams ?s') = add_mset (dh_sequence (dg_header d), t) (mset (ss_sent_datagrams s))"
    using bt_insert_new_mset [OF new] by (simp add: s')
  have track: "map_of (ss_receipt_tracking ?s') r =
     (if r \<in> set ids then Some (sat_add (case map_of (ss_receipt_tracking s) r of Some c \<Rightarrow> c | None \<Rightarrow> 0) 1)
      else map_of (ss_receipt_tracking s) r)" for r
    using count_receipts_spec [OF ids, of s1 r] s1 by (simp add: s')
  have c: "carrying ?s' r = carrying s r + (if r \<in> set ids then 1 else 0)" for r
    by (simp add: carrying_mset sent t)
  have old: "map_of (ss_receipt_tracking s) r = (if carrying s r = 0 then None else Some (carrying s r))" for r
    using ok by (simp add: receipts_ok_def)
  have "map_of (ss_receipt_tracking ?s') r = (if carrying ?s' r = 0 then None else Some (carrying ?s' r))" for r
    using small by (cases "carrying s r = 0") (simp_all add: track c old sat_add_Suc sat_add_zero_one)
  moreover have "\<forall>(k, t) \<in> set (ss_sent_datagrams ?s'). distinct (td_receipt_ids t)"
  proof (rule ballI)
    fix e assume "e \<in> set (ss_sent_datagrams ?s')"
    then have "e = (dh_sequence (dg_header d), t) \<or> e \<in> set (ss_sent_datagrams s)"
      using arg_cong [OF sent, of set_mset] by auto
    then show "case e of (k, t) \<Rightarrow> distinct (td_receipt_ids t)" using ok t ids unfolding receipts_ok_def by auto
  qed
  ultimately show ?thesis unfolding receipts_ok_def by blast
qed

section \<open>What the peer's ACKs and NACKs do\<close>

text \<open>C5: processing what the peer sent removes exactly the acknowledged datagrams from those in flight,
  makes exactly the reported and not acknowledged ones due at once, counts both, and empties the two
  queues.\<close>

theorem acks_and_nacks_exact:
  assumes run: "process_incoming_receipts rnd s now = (p, s')" and wf: "sent_wf base s"
  shows "(\<forall>k. map_of (ss_sent_datagrams s') k = (if k \<in> covered (ss_incoming_acks s) then None
           else map_option (\<lambda>t. if k \<in> covered (ss_incoming_nacks s) \<and> hastened now t then hasten now t else t)
                  (map_of (ss_sent_datagrams s) k)))
    \<and> rp_acked p = card (sent_keys s \<inter> covered (ss_incoming_acks s))
    \<and> rp_nacked p = card (named now s (covered (ss_incoming_nacks s) - covered (ss_incoming_acks s)))
    \<and> ss_incoming_acks s' = [] \<and> ss_incoming_nacks s' = [] \<and> sent_wf base s'"
  using process_incoming_receipts_spec [OF assms] by blast

definition tracked :: "bool \<Rightarrow> u64 list \<Rightarrow> Sequence24 \<Rightarrow> TrackedDatagram" where
  "tracked resendable ids q =
     \<lparr>td_datagram = \<lparr>dg_header = \<lparr>dh_flags = FLAG_VALID, dh_sequence = q\<rparr>, dg_payload = Frames [reliable_frame 0]\<rparr>,
      td_send_time = 0, td_next_send = 100, td_retries = 0, td_nack_resend_pending = False,
      td_resendable = resendable, td_receipt_ids = ids\<rparr>"

definition waiting_session :: Session where
  "waiting_session = busy_session\<lparr>ss_sent_datagrams := [(3, tracked True [5] 3), (4, tracked True [] 4)],
     ss_receipt_tracking := [(5, 1)], ss_incoming_acks := [mk_range 3 3], ss_incoming_nacks := [mk_range 4 9]\<rparr>"

lemma waiting_wf: "sent_wf 0 waiting_session"
  by (simp add: waiting_session_def seq_keys.wf_Cons) (simp add: half_window_def seq_cmp_eq unat_minus_one_seq)

theorem acks_and_nacks_exact_witness:
  "\<exists>p s'. process_incoming_receipts id waiting_session 5 = (p, s') \<and> rp_acked p = 1 \<and> map_of (ss_sent_datagrams s') 3 = None
     \<and> map_of (ss_sent_datagrams s') 4 = Some (hasten 5 (tracked True [] 4))"
proof -
  obtain p s' where r: "process_incoming_receipts id waiting_session 5 = (p, s')" by (cases "process_incoming_receipts id waiting_session 5")
  have "sent_keys waiting_session \<inter> covered (ss_incoming_acks waiting_session) = {3}"
    by (auto simp: sent_keys_def waiting_session_def)
  with acks_and_nacks_exact [OF r waiting_wf] r show ?thesis
    by (auto simp: waiting_session_def tracked_def hastened_def range_set_iff unat_seq_sub)
qed


lemma waiting_receipts: "receipts_ok waiting_session" "carrying waiting_session 5 = 1"
  by (auto simp: receipts_ok_def waiting_session_def carrying_def tracked_def)


lemma control_heap [simp]:
  "ss_outgoing_heap (on_reliable_ack rnd s) = ss_outgoing_heap s"
  "ss_outgoing_heap (observe_rtt_sample rnd s d) = ss_outgoing_heap s"
  "ss_outgoing_heap (on_nack_loss rnd s now) = ss_outgoing_heap s"
  by (simp_all add: on_reliable_ack_def observe_rtt_sample_def recompute_rto_from_rtt_def on_nack_loss_def
      apply_loss_backoff_def Let_def split: option.splits)

lemma receipt_steps_heap [simp]:
  "ss_outgoing_heap (fst (fold settle_receipt ids sp)) = ss_outgoing_heap (fst sp)"
  "ss_outgoing_heap (fst (fold (ack_sequence rnd now) ks sp)) = ss_outgoing_heap (fst sp)"
  "ss_outgoing_heap (fst (fold (nack_sequence now) ks sp)) = ss_outgoing_heap (fst sp)"
proof -
  show settle: "ss_outgoing_heap (fst (fold settle_receipt ids sp)) = ss_outgoing_heap (fst sp)" for ids sp
    by (induction ids arbitrary: sp) (auto simp: settle_receipt_def split: option.splits)
  show "ss_outgoing_heap (fst (fold (ack_sequence rnd now) ks sp)) = ss_outgoing_heap (fst sp)"
    by (induction ks arbitrary: sp) (auto simp: ack_sequence_def settle Let_def split: option.splits)
  show "ss_outgoing_heap (fst (fold (nack_sequence now) ks sp)) = ss_outgoing_heap (fst sp)"
    by (induction ks arbitrary: sp) (auto simp: nack_sequence_def split: option.splits)
qed

lemma process_incoming_receipts_heap:
  assumes "process_incoming_receipts rnd s now = (p, s')"
  shows "ss_outgoing_heap s' = ss_outgoing_heap s"
proof -
  have "ss_outgoing_heap (snd (process_incoming_receipts rnd s now)) = ss_outgoing_heap s"
    by (simp add: process_incoming_receipts_def for_each_range_fold Let_def split_beta)
  then show ?thesis by (simp add: assms)
qed

lemma carrying_zero: "carrying s r = 0 \<longleftrightarrow> (\<forall>(k, t) \<in> set (ss_sent_datagrams s). r \<notin> set (td_receipt_ids t))"
  by (auto simp: carrying_def filter_empty_conv)

text \<open>A receipt is reported as soon as every datagram in flight that carries it is acknowledged, even
  while frames of the same payload are still queued and have not been sent at all.\<close>

theorem receipt_reported_early:
  assumes run: "process_incoming_receipts rnd s now = (p, s')" and ok: "receipts_ok s" and wf: "sent_wf base s"
    and flight: "carrying s r \<noteq> 0" "\<forall>(k, t) \<in> set (ss_sent_datagrams s). r \<in> set (td_receipt_ids t) \<longrightarrow> k \<in> covered (ss_incoming_acks s)"
    and waiting: "q \<in> set (ss_outgoing_heap s)" "qf_receipt_id q = Some r"
  shows "r \<in> set (rp_acked_receipt_ids p) \<and> q \<in> set (ss_outgoing_heap s')"
proof -
  note spec = process_incoming_receipts_spec [OF run wf]
  have "r \<notin> set (td_receipt_ids t')" if "(k, t') \<in> set (ss_sent_datagrams s')" for k t'
  proof
    assume r: "r \<in> set (td_receipt_ids t')"
    have "map_of (ss_sent_datagrams s') k = Some t'"
      using that seq_keys.wf_distinct [OF spec(1)] by (simp add: map_of_is_SomeI)
    then obtain t where "k \<notin> covered (ss_incoming_acks s)" "map_of (ss_sent_datagrams s) k = Some t"
      "td_receipt_ids t = td_receipt_ids t'"
      using spec(2) [of k] by (auto simp: hasten_def split: if_splits)
    then show False using flight(2) r by (fastforce dest: map_of_SomeD)
  qed
  then have "carrying s' r = 0" by (auto simp: carrying_zero)
  then show ?thesis
    using process_incoming_receipts_reports(3) [OF run ok] flight(1) waiting(1) process_incoming_receipts_heap [OF run] by simp
qed

theorem receipt_reported_early_witness:
  "\<exists>p s'. process_incoming_receipts id waiting_session 5 = (p, s') \<and> 5 \<in> set (rp_acked_receipt_ids p)
     \<and> queued_frame \<in> set (ss_outgoing_heap s')"
proof -
  obtain p s' where r: "process_incoming_receipts id waiting_session 5 = (p, s')" by (cases "process_incoming_receipts id waiting_session 5")
  have "5 \<in> set (rp_acked_receipt_ids p) \<and> queued_frame \<in> set (ss_outgoing_heap s')"
    by (rule receipt_reported_early [OF r waiting_receipts(1) waiting_wf])
      (use waiting_receipts(2) in \<open>auto simp: waiting_session_def busy_session_def tracked_def queued_frame_def\<close>)
  with r show ?thesis by blast
qed

end
