(* ===== verification/SessionTick.thy ===== *)
theory SessionTick
  imports SessionInFlight "HOL-Library.Sublist"
begin

text \<open>
  Retransmission and the tick: what \<^verbatim>\<open>collect_resendable\<close> selects and leaves behind, and the bounds
  on everything one \<^verbatim>\<open>on_tick\<close> sends.
\<close>

section \<open>Retransmission\<close>

definition due :: "Instant \<Rightarrow> TrackedDatagram \<Rightarrow> bool" where
  "due now t \<longleftrightarrow> td_resendable t \<and> td_next_send t \<le> now"

lemma select_resendable_spec:
  assumes "select_resendable now max_count max_bytes es total_bytes sel timeout = (sel', timeout')"
    and "length sel \<le> max_count" and "total_bytes \<le> max_bytes"
  shows "\<exists>chosen. subseq chosen es \<and> sel' = sel @ map fst chosen \<and> length sel' \<le> max_count
     \<and> list_all (\<lambda>(k, t). due now t) chosen
     \<and> total_bytes + sum_list (map (\<lambda>(k, t). datagram_encoded_size (td_datagram t)) chosen) \<le> max_bytes
     \<and> (timeout' \<longleftrightarrow> timeout \<or> list_ex (\<lambda>(k, t). \<not> td_nack_resend_pending t) chosen)"
  using assms
proof (induction es arbitrary: total_bytes sel timeout)
  case (Cons e es)
  obtain k t where e: "e = (k, t)" by (cases e)
  let ?n = "datagram_encoded_size (td_datagram t)"
  consider (stop) "sel' = sel \<and> timeout' = timeout"
    | (skip) "select_resendable now max_count max_bytes es total_bytes sel timeout = (sel', timeout')"
    | (take) "select_resendable now max_count max_bytes es (total_bytes + ?n) (sel @ [k])
        (timeout \<or> \<not> td_nack_resend_pending t) = (sel', timeout')" "due now t" "total_bytes + ?n \<le> max_bytes" "length sel < max_count"
  proof (cases "length sel < max_count \<and> due now t")
    case False
    then show ?thesis using Cons.prems(1) that(1,2)
      by (cases "length sel < max_count") (simp_all add: e due_def not_le)
  next
    case True
    then have st: "(if total_bytes + ?n > max_bytes then (sel, timeout)
        else select_resendable now max_count max_bytes es (total_bytes + ?n) (sel @ [k])
          (timeout \<or> \<not> td_nack_resend_pending t)) = (sel', timeout')"
      using Cons.prems(1) by (simp add: e due_def Let_def)
    show ?thesis
    proof (cases "total_bytes + ?n > max_bytes")
      case True
      then show ?thesis using st that(1) by simp
    next
      case False
      then show ?thesis using st that(3) \<open>length sel < max_count \<and> due now t\<close> by simp
    qed
  qed
  then show ?case
  proof cases
    case stop
    then show ?thesis using Cons.prems(2,3) by (intro exI [of _ "[]"]) simp
  next
    case skip
    then obtain chosen where c: "subseq chosen es" and "sel' = sel @ map fst chosen \<and> length sel' \<le> max_count
     \<and> list_all (\<lambda>(k, t). due now t) chosen
     \<and> total_bytes + sum_list (map (\<lambda>(k, t). datagram_encoded_size (td_datagram t)) chosen) \<le> max_bytes
     \<and> (timeout' \<longleftrightarrow> timeout \<or> list_ex (\<lambda>(k, t). \<not> td_nack_resend_pending t) chosen)"
      using Cons.IH [OF skip Cons.prems(2,3)] by blast
    moreover from c have "subseq chosen (e # es)" by (rule list_emb_Cons)
    ultimately show ?thesis by blast
  next
    case take
    have "length (sel @ [k]) \<le> max_count" using take(4) by simp
    from Cons.IH [OF take(1) this take(3)]
    obtain chosen where c: "subseq chosen es" "sel' = (sel @ [k]) @ map fst chosen" "length sel' \<le> max_count"
     "list_all (\<lambda>(k, t). due now t) chosen"
     "total_bytes + ?n + sum_list (map (\<lambda>(k, t). datagram_encoded_size (td_datagram t)) chosen) \<le> max_bytes"
     "timeout' \<longleftrightarrow> (timeout \<or> \<not> td_nack_resend_pending t) \<or> list_ex (\<lambda>(k, t). \<not> td_nack_resend_pending t) chosen"
      by blast
    then show ?thesis using take(2) by (intro exI [of _ "e # chosen"]) (simp add: e)
  qed
qed simp

definition resent :: "Instant \<Rightarrow> Instant \<Rightarrow> TrackedDatagram \<Rightarrow> TrackedDatagram" where
  "resent now nx t = t\<lparr>td_send_time := now, td_next_send := nx, td_retries := u32_sat_add (td_retries t) 1,
     td_nack_resend_pending := False\<rparr>"

text \<open>What retransmission leaves alone.\<close>

definition sent_only :: "Session \<Rightarrow> Session \<Rightarrow> bool" where
  "sent_only s s' \<longleftrightarrow>
     (queue_ok s \<longrightarrow> queue_ok s') \<and> ss_mtu s' = ss_mtu s \<and> ss_outgoing_heap s' = ss_outgoing_heap s
     \<and> ss_datagram_write_index s' = ss_datagram_write_index s \<and> ss_pacing_enabled s' = ss_pacing_enabled s
     \<and> ss_pacing_budget_bytes s' = ss_pacing_budget_bytes s"

lemma sent_only_trans: "sent_only s s1 \<Longrightarrow> sent_only s1 s2 \<Longrightarrow> sent_only s s2"
  by (simp add: sent_only_def)

lemma sent_only_refl [simp]: "sent_only s s"
  by (simp add: sent_only_def)

lemma on_timeout_sent_only: "sent_only s (on_timeout rnd s now)"
  by (simp add: sent_only_def on_timeout_def apply_loss_backoff_def Let_def queue_ok_def)

lemma resend_one_spec:
  assumes run: "resend_one now nx k (out, s) = (out', s')" and wf: "sent_wf base s" and t: "map_of (ss_sent_datagrams s) k = Some t"
  shows "sent_wf base s'" and "map_of (ss_sent_datagrams s') = (map_of (ss_sent_datagrams s))(k \<mapsto> resent now nx t)"
    and "out' = out @ [td_datagram t]" and "ss_resend_rto s' = ss_resend_rto s" and "sent_only s s'"
proof -
  have get: "bt_get seq_cmp (ss_sent_datagrams s) k = Some t" using sent_get [OF wf] t by simp
  note ins = insert_map_of [OF wf map_of_in_window [OF wf t], of "resent now nx t"]
  have sent: "ss_sent_datagrams s' = bt_insert seq_cmp k (resent now nx t) (ss_sent_datagrams s)" "out' = out @ [td_datagram t]"
    "ss_resend_rto s' = ss_resend_rto s" "sent_only s s'"
    using run by (auto simp: resend_one_def get resent_def sent_only_def queue_ok_def)
  then show "sent_wf base s'" "map_of (ss_sent_datagrams s') = (map_of (ss_sent_datagrams s))(k \<mapsto> resent now nx t)"
    "out' = out @ [td_datagram t]" "ss_resend_rto s' = ss_resend_rto s" "sent_only s s'"
    using ins by simp_all
qed

lemma resend_all_spec:
  assumes "fold (resend_one now nx) ks (out, s) = (out', s')" and "sent_wf base s" and "distinct ks"
    and "\<forall>k \<in> set ks. map_of (ss_sent_datagrams s) k = Some (f k)"
  shows "sent_wf base s' \<and> out' = out @ map (td_datagram \<circ> f) ks \<and> ss_resend_rto s' = ss_resend_rto s \<and> sent_only s s'
     \<and> (\<forall>k. map_of (ss_sent_datagrams s') k =
          (if k \<in> set ks then Some (resent now nx (f k)) else map_of (ss_sent_datagrams s) k))"
  using assms
proof (induction ks arbitrary: out s)
  case (Cons k ks)
  obtain o1 s1 where 1: "resend_one now nx k (out, s) = (o1, s1)" by fastforce
  have "map_of (ss_sent_datagrams s) k = Some (f k)" using Cons.prems(4) by simp
  note st = resend_one_spec [OF 1 Cons.prems(2) this]
  have run: "fold (resend_one now nx) ks (o1, s1) = (out', s')" using Cons.prems(1) 1 by simp
  have "\<forall>k' \<in> set ks. map_of (ss_sent_datagrams s1) k' = Some (f k')"
    using Cons.prems(3,4) st(2) by auto
  note IH = Cons.IH [OF run st(1) _ this]
  show ?case using IH st Cons.prems(3) sent_only_trans [OF st(5)] by auto
qed simp

lemma subseq_keeps:
  assumes "subseq xs ys"
  shows "distinct ys \<Longrightarrow> distinct xs" and "set xs \<subseteq> set ys"
  using assms by (auto simp: subseq_conv_nths intro: distinct_nthsI dest: subsetD [OF set_nths_subset])

lemma collect_resendable_spec:
  assumes run: "collect_resendable rnd s now max_count max_bytes = (ds, s')" and wf: "sent_wf base s"
  obtains chosen where "subseq chosen (ss_sent_datagrams s)" and "list_all (\<lambda>(k, t). due now t) chosen"
    and "ds = map (td_datagram \<circ> snd) chosen" and "length ds \<le> max_count"
    and "sum_list (map datagram_encoded_size ds) \<le> max_bytes"
    and "sent_wf base s'" and "sent_only s s'"
    and "\<And>k. map_of (ss_sent_datagrams s') k = (if k \<in> fst ` set chosen
           then map_option (resent now (now + ss_resend_rto s')) (map_of (ss_sent_datagrams s) k)
           else map_of (ss_sent_datagrams s) k)"
proof -
  obtain sel timeout where sel: "select_resendable now max_count max_bytes (ss_sent_datagrams s) 0 [] False = (sel, timeout)"
    by fastforce
  from select_resendable_spec [OF sel] obtain chosen where c: "subseq chosen (ss_sent_datagrams s)" "sel = map fst chosen"
    "length sel \<le> max_count" "list_all (\<lambda>(k, t). due now t) chosen"
    "sum_list (map (\<lambda>(k, t). datagram_encoded_size (td_datagram t)) chosen) \<le> max_bytes" by auto
  have sizes: "sum_list (map datagram_encoded_size (map (td_datagram \<circ> snd) chosen)) \<le> max_bytes"
    using c(5) by (simp add: comp_def case_prod_unfold)
  show thesis
  proof (cases "sel = []")
    case True
    then have "ds = []" "s' = s" "chosen = []" using run sel c(2) by (auto simp: collect_resendable_def)
    then show thesis using that [of "[]"] wf by simp
  next
    case False
    define s1 where "s1 = (if timeout then on_timeout rnd s now else s)"
    have s1: "ss_sent_datagrams s1 = ss_sent_datagrams s" "sent_only s s1"
      by (simp_all add: s1_def on_timeout_sent_only)
    have f: "fold (resend_one now (now + ss_resend_rto s1)) sel ([], s1) = (ds, s')"
      using run sel False by (simp add: collect_resendable_def Let_def s1_def)
    note d = seq_keys.wf_distinct [OF wf]
    have dc: "distinct sel" unfolding c(2) by (rule subseq_keeps(1) [OF subseq_map [OF c(1)] d])
    have mem: "e \<in> set chosen \<Longrightarrow> map_of (ss_sent_datagrams s) (fst e) = Some (snd e)" for e
      using subseq_keeps(2) [OF c(1)] d by (cases e) auto
    let ?g = "\<lambda>k. the (map_of (ss_sent_datagrams s) k)"
    have found: "\<forall>k \<in> set sel. map_of (ss_sent_datagrams s1) k = Some (?g k)"
      using mem unfolding c(2) s1(1) by auto
    from resend_all_spec [OF f _ dc found, of base] wf
    have r: "sent_wf base s'" "ds = map (td_datagram \<circ> ?g) sel" "ss_resend_rto s' = ss_resend_rto s1" "sent_only s1 s'"
      "\<And>k. map_of (ss_sent_datagrams s') k = (if k \<in> set sel then Some (resent now (now + ss_resend_rto s1) (?g k))
         else map_of (ss_sent_datagrams s) k)" by (simp_all add: s1)
    have ds: "ds = map (td_datagram \<circ> snd) chosen" using r(2) mem unfolding c(2) by simp
    show thesis
    proof (rule that [OF c(1,4) ds _ _ r(1) sent_only_trans [OF s1(2) r(4)]])
      show "length ds \<le> max_count" using c(2,3) ds by simp
      show "sum_list (map datagram_encoded_size ds) \<le> max_bytes" using sizes ds by simp
      fix k show "map_of (ss_sent_datagrams s') k = (if k \<in> fst ` set chosen
           then map_option (resent now (now + ss_resend_rto s')) (map_of (ss_sent_datagrams s) k)
           else map_of (ss_sent_datagrams s) k)"
        using r(3) r(5) [of k] mem by (auto simp: c(2))
    qed
  qed
qed

section \<open>The tick\<close>

text \<open>No datagram in flight is larger than the MTU, so a retransmission fits it too.\<close>

definition in_flight_fits :: "Session \<Rightarrow> bool" where
  "in_flight_fits s \<longleftrightarrow> (\<forall>(k, t) \<in> set (ss_sent_datagrams s). datagram_encoded_size (td_datagram t) \<le> ss_mtu s)"

lemma sent_subset_insert: "set (bt_insert cmp k v m) \<subseteq> insert (k, v) (set m) \<union> {(k', v) | k'. k' \<in> fst ` set m}"
  by (induction cmp k v m rule: bt_insert.induct) (auto split: Ordering.splits)

lemma track_sent:
  assumes "has_frame_with is_reliable (dg_payload d) \<or> has_frame_with is_with_ack_receipt (dg_payload d) \<or> ids \<noteq> []"
  shows "ss_sent_datagrams (track_sent_reliable_datagram s d now ids) =
    bt_insert seq_cmp (dh_sequence (dg_header d))
      \<lparr>td_datagram = d, td_send_time = now, td_next_send = now + ss_resend_rto s, td_retries = 0,
       td_nack_resend_pending = False, td_resendable = has_frame_with is_reliable (dg_payload d), td_receipt_ids = ids\<rparr>
      (ss_sent_datagrams s)"
  using assms by (auto simp: track_sent_reliable_datagram_def Let_def)

lemma in_flight_fits_insert:
  assumes "in_flight_fits s" and "datagram_encoded_size (td_datagram t) \<le> ss_mtu s"
    and "ss_sent_datagrams s' = bt_insert cmp k t (ss_sent_datagrams s)" and "ss_mtu s' = ss_mtu s"
  shows "in_flight_fits s'"
  unfolding in_flight_fits_def
proof (rule ballI)
  fix e assume "e \<in> set (ss_sent_datagrams s')"
  then consider "snd e = t" | "e \<in> set (ss_sent_datagrams s)"
    using sent_subset_insert [of cmp k t "ss_sent_datagrams s"] assms(3) by auto
  then show "case e of (k, t) \<Rightarrow> datagram_encoded_size (td_datagram t) \<le> ss_mtu s'"
    using assms by cases (auto simp: in_flight_fits_def)
qed

lemma track_in_flight_fits:
  assumes "in_flight_fits s" and "datagram_encoded_size d \<le> ss_mtu s"
  shows "in_flight_fits (track_sent_reliable_datagram s d now ids)"
proof (cases "has_frame_with is_reliable (dg_payload d) \<or> has_frame_with is_with_ack_receipt (dg_payload d) \<or> ids \<noteq> []")
  case True
  show ?thesis by (rule in_flight_fits_insert [OF assms(1) _ track_sent [OF True]]) (use assms(2) in simp_all)
next
  case False
  then show ?thesis using assms(1) by (simp add: track_sent_reliable_datagram_def)
qed

lemma build_in_flight_fits:
  assumes run: "build_data_datagram rnd s now budget = (o1, budget', s')"
    and s: "queue_ok s" "ss_mtu s < U64_MAX" "in_flight_fits s"
  shows "in_flight_fits s'"
proof (cases o1)
  case None
  note b = build_data_datagram_None [OF run [unfolded None] s(1,2)]
  then show ?thesis using s(3) queue_only_fields(2) [OF b(5)] by (simp add: in_flight_fits_def)
next
  case (Some d)
  note b = build_data_datagram_sent [OF run [unfolded Some] s(1,2)]
  obtain qs bd s1 where p: "packed rnd s budget start_building qs bd budget' s1"
    and s': "s' = (let s2 = s1\<lparr>ss_datagram_write_index := ss_datagram_write_index s + 1\<rparr>
               in if bd_has_reliable bd \<or> bd_receipt_ids bd \<noteq> []
                  then track_sent_reliable_datagram s2 d now (bd_receipt_ids bd) else s2)"
    using build_data_datagram_Some [OF run [unfolded Some] s(1,2)] by metis
  define s2 where "s2 = s1\<lparr>ss_datagram_write_index := ss_datagram_write_index s + 1\<rparr>"
  have only: "queue_only s s1" using p by (simp add: packed_def)
  have "ss_mtu s2 = ss_mtu s" "ss_sent_datagrams s2 = ss_sent_datagrams s"
    using queue_only_fields(1,2) [OF only] by (simp_all add: s2_def)
  then have "in_flight_fits s2" "datagram_encoded_size d \<le> ss_mtu s2" using s(3) b(3) by (simp_all add: in_flight_fits_def)
  then show ?thesis using track_in_flight_fits by (simp add: s' Let_def flip: s2_def)
qed

lemma emit_in_flight_fits:
  "emit_datagrams rnd now left s remaining used = (ds, used', s') \<Longrightarrow> queue_ok s \<Longrightarrow> ss_mtu s < U64_MAX \<Longrightarrow>
     in_flight_fits s \<Longrightarrow> in_flight_fits s'"
proof (induction left arbitrary: s remaining used ds used')
  case (Suc left)
  obtain o1 r1 s1 where b: "build_data_datagram rnd s now remaining = (o1, r1, s1)" by (metis prod_cases3)
  note step = Suc.prems(1) [unfolded emit_datagrams.simps b]
  note fits = build_in_flight_fits [OF b Suc.prems(2-4)]
  show ?case
  proof (cases o1)
    case None
    then show ?thesis using step fits by auto
  next
    case (Some d)
    note one = build_data_datagram_sent [OF b [unfolded Some] Suc.prems(2,3)]
    show ?thesis
    proof (cases "r1 = 0")
      case True
      then show ?thesis using step Some fits by (auto simp: Let_def)
    next
      case False
      then obtain ds' where "emit_datagrams rnd now left s1 r1 (sat_add used (datagram_encoded_size d)) = (ds', used', s')"
        using step Some by (auto simp: Let_def split: prod.splits)
      with Suc.IH one(1,2) Suc.prems(3) fits show ?thesis by simp
    qed
  qed
qed simp

lemma new_bytes_budget_le: "new_bytes_budget s max_new_bytes \<le> max_new_bytes"
  by (auto simp: new_bytes_budget_def Let_def)

lemma pacing_fields [simp]:
  "ss_mtu (refresh_pacing_budget rnd s now) = ss_mtu s" "ss_mtu (consume_pacing_budget rnd s n) = ss_mtu s"
  "ss_sent_datagrams (refresh_pacing_budget rnd s now) = ss_sent_datagrams s"
  "ss_sent_datagrams (consume_pacing_budget rnd s n) = ss_sent_datagrams s"
  "ss_outgoing_heap (refresh_pacing_budget rnd s now) = ss_outgoing_heap s"
  "ss_outgoing_heap (consume_pacing_budget rnd s n) = ss_outgoing_heap s"
  "ss_datagram_write_index (refresh_pacing_budget rnd s now) = ss_datagram_write_index s"
  "ss_datagram_write_index (consume_pacing_budget rnd s n) = ss_datagram_write_index s"
  "queue_ok (refresh_pacing_budget rnd s now) = queue_ok s" "queue_ok (consume_pacing_budget rnd s n) = queue_ok s"
  by (simp_all add: refresh_pacing_budget_def consume_pacing_budget_def Let_def queue_ok_def split: f64.split)

lemma prune_fields:
  "prune_split_state s now = (n, s') \<Longrightarrow> ss_mtu s' = ss_mtu s \<and> ss_sent_datagrams s' = ss_sent_datagrams s
     \<and> ss_outgoing_heap s' = ss_outgoing_heap s \<and> ss_datagram_write_index s' = ss_datagram_write_index s
     \<and> queue_ok s' = queue_ok s"
  by (auto simp: prune_split_state_def queue_ok_def split: prod.splits)

lemma collect_in_flight_fits:
  assumes run: "collect_resendable rnd s now max_count max_bytes = (ds, s')" and wf: "sent_wf base s"
    and fits: "in_flight_fits s"
  shows "in_flight_fits s'" and "\<forall>d \<in> set ds. datagram_encoded_size d \<le> ss_mtu s"
proof -
  obtain chosen where c: "subseq chosen (ss_sent_datagrams s)" "ds = map (td_datagram \<circ> snd) chosen"
    "sent_wf base s'" "sent_only s s'"
    "\<And>k. map_of (ss_sent_datagrams s') k = (if k \<in> fst ` set chosen
       then map_option (resent now (now + ss_resend_rto s')) (map_of (ss_sent_datagrams s) k)
       else map_of (ss_sent_datagrams s) k)"
    using collect_resendable_spec [OF run wf] by metis
  have sz: "datagram_encoded_size (td_datagram (snd e)) \<le> ss_mtu s" if "e \<in> set (ss_sent_datagrams s)" for e
    using fits that by (auto simp: in_flight_fits_def)
  show "\<forall>d \<in> set ds. datagram_encoded_size d \<le> ss_mtu s"
    using sz subseq_keeps(2) [OF c(1)] by (auto simp: c(2))
  have "datagram_encoded_size (td_datagram t) \<le> ss_mtu s'" if e: "(k, t) \<in> set (ss_sent_datagrams s')" for k t
  proof -
    have "map_of (ss_sent_datagrams s') k = Some t" using e seq_keys.wf_distinct [OF c(3)] by simp
    then obtain t0 where "map_of (ss_sent_datagrams s) k = Some t0" "td_datagram t = td_datagram t0"
      using c(5) [of k] by (auto simp: resent_def split: if_splits)
    with sz [of "(k, t0)"] show ?thesis using c(4) by (auto simp: sent_only_def dest: map_of_SomeD)
  qed
  then show "in_flight_fits s'" unfolding in_flight_fits_def by blast
qed

lemma on_tick_spec:
  assumes run: "on_tick rnd s now max_new max_new_bytes max_resend max_resend_bytes = (out, s')"
    and s: "queue_ok s" "sent_wf base s" "in_flight_fits s" "17 \<le> ss_mtu s" "ss_mtu s < U64_MAX"
  obtains control resends news where "out = control @ resends @ news"
    and "\<forall>d \<in> set out. datagram_encoded_size d \<le> ss_mtu s"
    and "\<forall>d \<in> set control. frames_of d = []"
    and "\<forall>d \<in> set resends. \<exists>(k, t) \<in> set (ss_sent_datagrams s). due now t \<and> d = td_datagram t"
    and "length resends \<le> max_resend" and "sum_list (map datagram_encoded_size resends) \<le> max_resend_bytes"
    and "length news \<le> max_new"
    and "sum_list (map datagram_encoded_size news) \<le> max_new_bytes + RAKNET_DATAGRAM_HEADER_SIZE * length news"
    and "queued_frames s = mset (concat (map frames_of news)) + queued_frames s'"
    and "map (dh_sequence \<circ> dg_header) news = map (\<lambda>i. ss_datagram_write_index s + of_nat i) [0..<length news]"
    and "queue_ok s'" and "in_flight_fits s'" and "ss_mtu s' = ss_mtu s"
proof -
  define s1 where "s1 = refresh_pacing_budget rnd s now"
  obtain control s2 where 2: "flush_control s1 now = (control, s2)" by fastforce
  obtain resends s3 where 3: "collect_resendable rnd s2 now max_resend (min max_resend_bytes (pacing_allowance s2)) = (resends, s3)"
    by fastforce
  define s4 where "s4 = consume_pacing_budget rnd s3 (sum_list (map datagram_encoded_size resends))"
  obtain news used s5 where 5: "emit_datagrams rnd now max_new s4 (new_bytes_budget s4 max_new_bytes) 0 = (news, used, s5)"
    by (metis prod_cases3)
  obtain n where 7: "prune_split_state (consume_pacing_budget rnd s5 used) now = (n, s')" and out: "out = control @ resends @ news"
    using run by (auto simp: on_tick_def 2 3 5 Let_def simp flip: s1_def s4_def split: prod.splits)
  have m1: "17 \<le> ss_mtu s1" using s(4) by (simp add: s1_def)
  note c = flush_control_spec [OF 2 m1]
  have f1: "ss_mtu s1 = ss_mtu s" "queue_ok s1" "ss_outgoing_heap s1 = ss_outgoing_heap s"
    "ss_sent_datagrams s1 = ss_sent_datagrams s" "ss_datagram_write_index s1 = ss_datagram_write_index s"
    using s(1) by (simp_all add: s1_def)
  have f2: "ss_mtu s2 = ss_mtu s" "queue_ok s2" "ss_outgoing_heap s2 = ss_outgoing_heap s"
    "ss_sent_datagrams s2 = ss_sent_datagrams s" "ss_datagram_write_index s2 = ss_datagram_write_index s"
    using c(1) f1 by (simp_all add: control_only_def)
  have wf2: "sent_wf base s2" and fits2: "in_flight_fits s2" using s(2,3) f2 by (simp_all add: in_flight_fits_def)
  obtain chosen where r: "subseq chosen (ss_sent_datagrams s2)" "list_all (\<lambda>(k, t). due now t) chosen"
    "resends = map (td_datagram \<circ> snd) chosen" "length resends \<le> max_resend"
    "sum_list (map datagram_encoded_size resends) \<le> min max_resend_bytes (pacing_allowance s2)" "sent_only s2 s3"
    using collect_resendable_spec [OF 3 wf2] by metis
  note rf = collect_in_flight_fits [OF 3 wf2 fits2]
  have f4: "ss_mtu s4 = ss_mtu s" "queue_ok s4" "ss_outgoing_heap s4 = ss_outgoing_heap s"
    "ss_datagram_write_index s4 = ss_datagram_write_index s" "in_flight_fits s4"
    using r(6) f2 rf(1) by (simp_all add: s4_def sent_only_def in_flight_fits_def)
  have lim: "ss_mtu s4 < U64_MAX" using f4(1) s(5) by simp
  note e = emit_datagrams_spec [OF 5 f4(2) lim] and ef = emit_in_flight_fits [OF 5 f4(2) lim f4(5)]
  note p = prune_fields [OF 7]
  show thesis
  proof (rule that [OF out])
    show "\<forall>d \<in> set out. datagram_encoded_size d \<le> ss_mtu s"
      using c(2) rf(2) e f1 f2 f4 by (auto simp: out list_all_iff)
    show "\<forall>d \<in> set control. frames_of d = []" using c(2) by (simp add: list_all_iff)
    show "\<forall>d \<in> set resends. \<exists>(k, t) \<in> set (ss_sent_datagrams s). due now t \<and> d = td_datagram t"
      using r(2) subseq_keeps(2) [OF r(1)] unfolding r(3) f2(4) by (force simp: list_all_iff)
    show "sum_list (map datagram_encoded_size news) \<le> max_new_bytes + RAKNET_DATAGRAM_HEADER_SIZE * length news"
      using e new_bytes_budget_le [of s4 max_new_bytes] by linarith
    show "in_flight_fits s'" using ef p by (simp add: in_flight_fits_def)
  qed (use e f4 p r in simp_all)
qed

section \<open>What a tick promises\<close>



text \<open>C9: retransmission picks due datagrams in order of their numbers within the two limits, sends each
  unchanged, restarts its timer and counts the retry, and leaves all others alone.\<close>

theorem resends_exact:
  assumes run: "collect_resendable rnd s now max_count max_bytes = (ds, s')" and wf: "sent_wf base s"
  shows "\<exists>chosen. subseq chosen (ss_sent_datagrams s) \<and> list_all (\<lambda>(k, t). due now t) chosen
    \<and> ds = map (td_datagram \<circ> snd) chosen \<and> length ds \<le> max_count \<and> sum_list (map datagram_encoded_size ds) \<le> max_bytes
    \<and> (\<forall>k. map_of (ss_sent_datagrams s') k = (if k \<in> fst ` set chosen
           then map_option (resent now (now + ss_resend_rto s')) (map_of (ss_sent_datagrams s) k)
           else map_of (ss_sent_datagrams s) k))"
  by (rule collect_resendable_spec [OF assms]) blast

theorem resends_exact_witness:
  "\<exists>ds s' chosen. collect_resendable id waiting_session 200 1 2000 = (ds, s')
     \<and> subseq chosen (ss_sent_datagrams waiting_session) \<and> ds = map (td_datagram \<circ> snd) chosen \<and> length ds \<le> 1"
proof -
  obtain ds s' where r: "collect_resendable id waiting_session 200 1 2000 = (ds, s')" by (cases "collect_resendable id waiting_session 200 1 2000")
  from resends_exact [OF r waiting_wf] r show ?thesis by blast
qed

text \<open>C36: a datagram tracked only for its receipt is neither sent again nor given up: without an ACK it
  stays in flight for ever, reported missing or not, and counts against the congestion window.\<close>

theorem lost_receipt_datagram_stays:
  assumes wf: "sent_wf base s" and t: "map_of (ss_sent_datagrams s) k = Some t" "\<not> td_resendable t"
    and lost: "k \<notin> covered (ss_incoming_acks s)"
    and recv: "process_incoming_receipts rnd s now = (p, s1)" and resend: "collect_resendable rnd s1 now' n b = (ds, s2)"
  shows "map_of (ss_sent_datagrams s2) k = Some t"
proof -
  note spec = process_incoming_receipts_spec [OF recv wf]
  have s1: "map_of (ss_sent_datagrams s1) k = Some t"
    using spec(2) [of k] t lost by (simp add: hastened_def)
  obtain chosen where c: "subseq chosen (ss_sent_datagrams s1)" "list_all (\<lambda>(k, t). due now' t) chosen"
    and m: "\<And>k. map_of (ss_sent_datagrams s2) k = (if k \<in> fst ` set chosen
           then map_option (resent now' (now' + ss_resend_rto s2)) (map_of (ss_sent_datagrams s1) k)
           else map_of (ss_sent_datagrams s1) k)"
    using collect_resendable_spec [OF resend spec(1)] by blast
  have "k \<notin> fst ` set chosen"
  proof
    assume "k \<in> fst ` set chosen"
    then obtain t' where t': "(k, t') \<in> set chosen" by auto
    then have "map_of (ss_sent_datagrams s1) k = Some t'"
      using subseq_keeps(2) [OF c(1)] seq_keys.wf_distinct [OF spec(1)] by (auto intro: map_of_is_SomeI)
    then show False using s1 t(2) c(2) t' by (auto simp: list_all_iff due_def)
  qed
  then show ?thesis using m s1 by simp
qed

definition leaking_session :: Session where
  "leaking_session = busy_session\<lparr>ss_sent_datagrams := [(3, tracked False [5] 3)], ss_receipt_tracking := [(5, 1)],
     ss_incoming_nacks := [mk_range 3 3]\<rparr>"

theorem lost_receipt_datagram_stays_witness:
  "\<exists>p s1 ds s2. process_incoming_receipts id leaking_session 500 = (p, s1) \<and> collect_resendable id s1 900 8 4000 = (ds, s2)
     \<and> map_of (ss_sent_datagrams s2) 3 = Some (tracked False [5] 3)"
proof -
  obtain p s1 where r: "process_incoming_receipts id leaking_session 500 = (p, s1)" by (cases "process_incoming_receipts id leaking_session 500")
  obtain ds s2 where c: "collect_resendable id s1 900 8 4000 = (ds, s2)" by (cases "collect_resendable id s1 900 8 4000")
  have wf: "sent_wf 0 leaking_session"
    by (simp add: leaking_session_def seq_keys.wf_Cons) (simp add: half_window_def)
  have "map_of (ss_sent_datagrams s2) 3 = Some (tracked False [5] 3)"
    by (rule lost_receipt_datagram_stays [OF wf _ _ _ r c])
      (simp_all add: leaking_session_def busy_session_def tracked_def default_session_def session_init_def Let_def)
  with r c show ?thesis by blast
qed

end
