(* ===== verification/TransportServer.thy ===== *)
theory TransportServer
  imports RateLimiter SessionPipeline Connected SessionTick
begin

text \<open>
  \<^verbatim>\<open>src/transport/server.rs\<close>, first part: the state of the transport server, sending, cookies, the
  scores of misbehaving addresses, closing sessions and the pruning that every call starts with.

  Everything the server reads from outside during one call is in the record \<open>ServerEnv\<close>: the first
  reading of the monotonic clock (\<^verbatim>\<open>now\<close> in the code), the later readings, the time since the
  UNIX epoch, the address of the socket, whether the socket accepts a datagram, and the bytes of
  \<^verbatim>\<open>getrandom\<close>.  \<open>hmac\<close> stands for HMAC-SHA256 of the crates \<^verbatim>\<open>hmac\<close> and \<^verbatim>\<open>sha2\<close>, from key and message to
  tag.  \<open>sv_sent\<close> is what the socket was given to send.  The counters of the struct are gathered in
  one record.  An \<^verbatim>\<open>Err\<close> of \<^verbatim>\<open>io::Result\<close> and a panic are the values of \<open>Fault\<close>.
\<close>

section \<open>Data\<close>

definition RECV_PATH_MAX_NEW_DATAGRAMS :: usize where "RECV_PATH_MAX_NEW_DATAGRAMS = 6"
definition RECV_PATH_MAX_RESEND_DATAGRAMS :: usize where "RECV_PATH_MAX_RESEND_DATAGRAMS = 6"
definition COOKIE_KEY_LEN :: usize where "COOKIE_KEY_LEN = 32"

record ServerEnv =
  e_now :: Instant
  e_clock :: Instant
  e_since_epoch :: "Duration option"
  e_local_addr :: "SocketAddr option"
  e_sends :: "bytes \<Rightarrow> SocketAddr \<Rightarrow> bool"
  e_getrandom :: "bytes option"

datatype Fault = InvalidData EncodeError | SendFailed | Panicked

record ConnectedFrameDelivery =
  cd_payload :: bytes
  cd_reliability :: Reliability
  cd_reliable_index :: "Sequence24 option"
  cd_sequence_index :: "Sequence24 option"
  cd_ordering_index :: "Sequence24 option"
  cd_ordering_channel :: "u8 option"

definition delivery_from_frame :: "Frame \<Rightarrow> ConnectedFrameDelivery" where
  "delivery_from_frame f =
     \<lparr>cd_payload = fr_payload f, cd_reliability = fh_reliability (fr_header f),
      cd_reliable_index = fr_reliable_index f, cd_sequence_index = fr_sequence_index f,
      cd_ordering_index = fr_ordering_index f, cd_ordering_channel = fr_ordering_channel f\<rparr>"

datatype RemoteDisconnectReason = ByNotification "u8 option" | ByDetectLostConnection

datatype TransportEvent =
    EvRateLimited SocketAddr
  | EvProxyDropped SocketAddr
  | EvSessionLimitReached SocketAddr
  | EvOfflinePacket SocketAddr OfflinePacket
  | EvConnectedFrames SocketAddr "u64 option" "ConnectedFrameDelivery list" usize ReceiptProgress
  | EvConnectedDatagramDroppedNoSession SocketAddr
  | EvPeerDisconnected SocketAddr RemoteDisconnectReason
  | EvDecodeError SocketAddr DecodeError

datatype QueueDispatchResult = QdMissingSession | QdEnqueued usize | QdDropped | QdDeferred | QdDisconnected

datatype PendingHandshakeStage = AwaitingRequest2 | AwaitingConnectionRequest

record PendingHandshake =
  ph_mtu :: u16
  ph_cookie :: "u32 option"
  ph_client_guid :: "u64 option"
  ph_stage :: PendingHandshakeStage
  ph_expires_at :: Instant

text \<open>\<^verbatim>\<open>HandshakeHeuristicState\<close> and \<^verbatim>\<open>CookieMismatchGuardState\<close> have the same fields: the start of the window
  and the points collected in it.\<close>

record ScoreState =
  hs_window_started_at :: Instant
  hs_score :: nat

datatype HandshakeViolation =
  Req1Req2Timeout | Reply2ConnectTimeout | MissingPendingReq1 | CookieMismatch | ParseAnomalyDrop

fun violation_score :: "HandshakeViolation \<Rightarrow> TransportConfig \<Rightarrow> nat" where
  "violation_score Req1Req2Timeout c = hh_req1_req2_timeout_score (tc_handshake_heuristics c)"
| "violation_score Reply2ConnectTimeout c = hh_reply2_connect_timeout_score (tc_handshake_heuristics c)"
| "violation_score MissingPendingReq1 c = hh_missing_req1_score (tc_handshake_heuristics c)"
| "violation_score CookieMismatch c = hh_cookie_mismatch_score (tc_handshake_heuristics c)"
| "violation_score ParseAnomalyDrop c = hh_parse_anomaly_score (tc_handshake_heuristics c)"

datatype ControlAction = CaNone | CaCloseSession "RemoteDisconnectReason option" bool

record ServerCounters =
  ct_sessions_started_total :: nat
  ct_sessions_closed_total :: nat
  ct_packets_forwarded_total :: nat
  ct_bytes_forwarded_total :: nat
  ct_illegal_state_transitions :: nat
  ct_timed_out_sessions :: nat
  ct_local_requested_disconnects :: nat
  ct_remote_disconnect_notifications :: nat
  ct_remote_detect_lost_disconnects :: nat
  ct_keepalive_pings_sent :: nat
  ct_cookie_rotations :: nat
  ct_cookie_mismatch_drops :: nat
  ct_cookie_mismatch_blocks :: nat
  ct_handshake_stage_cancel_drops :: nat
  ct_handshake_req1_req2_timeouts :: nat
  ct_handshake_reply2_connect_timeouts :: nat
  ct_handshake_missing_req1_drops :: nat
  ct_handshake_auto_blocks :: nat
  ct_handshake_already_connected_rejects :: nat
  ct_handshake_ip_recently_connected_rejects :: nat
  ct_request2_server_addr_mismatch_drops :: nat
  ct_request2_legacy_parse_hits :: nat
  ct_request2_legacy_drops :: nat
  ct_request2_ambiguous_parse_hits :: nat
  ct_request2_ambiguous_drops :: nat
  ct_proxy_inbound_reroutes :: nat
  ct_proxy_inbound_drops :: nat
  ct_proxy_outbound_reroutes :: nat
  ct_proxy_outbound_drops :: nat

definition counters_zero :: ServerCounters where
  "counters_zero =
     \<lparr>ct_sessions_started_total = 0, ct_sessions_closed_total = 0, ct_packets_forwarded_total = 0,
      ct_bytes_forwarded_total = 0, ct_illegal_state_transitions = 0, ct_timed_out_sessions = 0,
      ct_local_requested_disconnects = 0, ct_remote_disconnect_notifications = 0,
      ct_remote_detect_lost_disconnects = 0, ct_keepalive_pings_sent = 0, ct_cookie_rotations = 0,
      ct_cookie_mismatch_drops = 0, ct_cookie_mismatch_blocks = 0, ct_handshake_stage_cancel_drops = 0,
      ct_handshake_req1_req2_timeouts = 0, ct_handshake_reply2_connect_timeouts = 0,
      ct_handshake_missing_req1_drops = 0, ct_handshake_auto_blocks = 0,
      ct_handshake_already_connected_rejects = 0, ct_handshake_ip_recently_connected_rejects = 0,
      ct_request2_server_addr_mismatch_drops = 0, ct_request2_legacy_parse_hits = 0,
      ct_request2_legacy_drops = 0, ct_request2_ambiguous_parse_hits = 0, ct_request2_ambiguous_drops = 0,
      ct_proxy_inbound_reroutes = 0, ct_proxy_inbound_drops = 0, ct_proxy_outbound_reroutes = 0,
      ct_proxy_outbound_drops = 0\<rparr>"

record TransportServer =
  sv_config :: TransportConfig
  sv_advertisement_bytes :: bytes
  sv_rate_limiter :: RateLimiter
  sv_proxy_router :: "ProxyRouter option"
  sv_cookie_key_current :: bytes
  sv_cookie_key_previous :: "bytes option"
  sv_next_cookie_rotation :: Instant
  sv_sessions :: "(SocketAddr \<times> Session) list"
  sv_session_pipelines :: "(SocketAddr \<times> SessionPipeline) list"
  sv_pending_handshakes :: "(SocketAddr \<times> PendingHandshake) list"
  sv_handshake_heuristics :: "(IpAddr \<times> ScoreState) list"
  sv_cookie_mismatch_guard_states :: "(IpAddr \<times> ScoreState) list"
  sv_ip_recently_connected_until :: "(IpAddr \<times> Instant) list"
  sv_counters :: ServerCounters
  sv_sent :: "(SocketAddr \<times> bytes) list"

definition tally :: "((nat \<Rightarrow> nat) \<Rightarrow> ServerCounters \<Rightarrow> ServerCounters) \<Rightarrow> TransportServer \<Rightarrow> TransportServer" where
  "tally f sv = sv\<lparr>sv_counters := f (\<lambda>n. sat_add n 1) (sv_counters sv)\<rparr>"

section \<open>Readings of the outside\<close>

definition server_addr :: "ServerEnv \<Rightarrow> TransportServer \<Rightarrow> SocketAddr" where
  "server_addr e sv = (case e_local_addr e of Some a \<Rightarrow> a | None \<Rightarrow> tc_bind_addr (sv_config sv))"

definition unix_timestamp_millis :: "ServerEnv \<Rightarrow> i64" where
  "unix_timestamp_millis e =
     (case e_since_epoch e of Some d \<Rightarrow> of_nat (min (d div 1000000) (2 ^ 63 - 1)) | None \<Rightarrow> 0)"

text \<open>Little-endian bytes of a word.\<close>

definition le_bytes :: "nat \<Rightarrow> 'a::len word \<Rightarrow> bytes" where
  "le_bytes n w = rev (be_bytes n w)"

definition random_cookie_key :: "ServerEnv \<Rightarrow> bytes" where
  "random_cookie_key e =
     (case e_getrandom e of
        Some key \<Rightarrow> key
      | None \<Rightarrow>
          let fallback = unix_timestamp_millis e
          in concat (map (\<lambda>idx. le_bytes 8 (word_rotl (idx * 11) (fallback * of_nat (idx + 1)))) [0..<4]))"

section \<open>Construction\<close>

definition with_socket :: "ServerEnv \<Rightarrow> TransportConfig \<Rightarrow> TransportServer" where
  "with_socket e config =
     (let rl = limiter_new (tc_per_ip_packet_limit config) (tc_global_packet_limit config)
                 (tc_rate_window config) (tc_block_duration config) (e_now e);
          rl = set_processing_budget_config rl (tc_processing_budget config) (e_now e);
          rl = foldl add_exception rl (tc_rate_limit_exceptions config)
      in \<lparr>sv_config = config, sv_advertisement_bytes = tc_advertisement config, sv_rate_limiter = rl,
          sv_proxy_router = None, sv_cookie_key_current = random_cookie_key e, sv_cookie_key_previous = None,
          sv_next_cookie_rotation = e_clock e + tc_cookie_rotation_interval config,
          sv_sessions = [], sv_session_pipelines = [], sv_pending_handshakes = [],
          sv_handshake_heuristics = [], sv_cookie_mismatch_guard_states = [],
          sv_ip_recently_connected_until = [], sv_counters = counters_zero, sv_sent = []\<rparr>)"

definition bind_targets :: "TransportConfig \<Rightarrow> SocketAddr list" where
  "bind_targets c =
     (if \<not> tc_split_ipv4_ipv6_bind c then [tc_bind_addr c]
      else let port = addr_port (tc_bind_addr c);
               v4 = V4 0 0 0 0 port;
               v6 = V6 (replicate 16 0) port 0 0
           in case tc_bind_addr c of V4 _ _ _ _ _ \<Rightarrow> [v4, v6] | V6 _ _ _ _ \<Rightarrow> [v6, v4])"

definition build_shard_bind_plan :: "TransportConfig \<Rightarrow> usize \<Rightarrow> SocketAddr list" where
  "build_shard_bind_plan c shard_count =
     (let targets = bind_targets c;
          effective_count = (if tc_split_ipv4_ipv6_bind c then max shard_count (length targets) else shard_count)
      in map (\<lambda>idx. targets ! (idx mod length targets)) [0..<effective_count])"

definition has_duplicate_bind_targets :: "SocketAddr list \<Rightarrow> bool" where
  "has_duplicate_bind_targets plan \<longleftrightarrow> \<not> distinct plan"

section \<open>Sending\<close>

definition route_outbound_target :: "ServerEnv \<Rightarrow> TransportServer \<Rightarrow> SocketAddr \<Rightarrow> SocketAddr option \<times> TransportServer" where
  "route_outbound_target e sv addr =
     (case sv_proxy_router sv of
        None \<Rightarrow> (Some addr, sv)
      | Some router \<Rightarrow>
          (case route_outbound router addr (server_addr e sv) of
             Send target_addr \<Rightarrow>
               (Some target_addr, if target_addr \<noteq> addr then tally ct_proxy_outbound_reroutes_update sv else sv)
           | OutboundDrop \<Rightarrow> (None, tally ct_proxy_outbound_drops_update sv)))"

definition send_encoded :: "ServerEnv \<Rightarrow> TransportServer \<Rightarrow> SocketAddr \<Rightarrow> encoded \<Rightarrow> (Fault + unit) \<times> TransportServer" where
  "send_encoded e sv addr encoding =
     (case route_outbound_target e sv addr of
        (None, sv1) \<Rightarrow> (Inr (), sv1)
      | (Some target, sv1) \<Rightarrow>
          (case encoding of
             Inl err \<Rightarrow> (Inl (InvalidData err), sv1)
           | Inr out \<Rightarrow>
               if e_sends e out target then (Inr (), sv1\<lparr>sv_sent := sv_sent sv1 @ [(target, out)]\<rparr>)
               else (Inl SendFailed, sv1)))"

definition send_datagram :: "ServerEnv \<Rightarrow> TransportServer \<Rightarrow> SocketAddr \<Rightarrow> Datagram \<Rightarrow> (Fault + unit) \<times> TransportServer" where
  "send_datagram e sv addr datagram = send_encoded e sv addr (datagram_encode datagram)"

definition send_offline_packet :: "ServerEnv \<Rightarrow> TransportServer \<Rightarrow> SocketAddr \<Rightarrow> OfflinePacket
    \<Rightarrow> (Fault + unit) \<times> TransportServer" where
  "send_offline_packet e sv addr packet = send_encoded e sv addr (offline_encode packet)"

definition reject_packet :: "TransportServer \<Rightarrow> RejectPacket" where
  "reject_packet sv = \<lparr>rj_server_guid = tc_server_guid (sv_config sv), rj_magic = tc_unconnected_magic (sv_config sv)\<rparr>"

definition send_no_free_incoming_connections :: "ServerEnv \<Rightarrow> TransportServer \<Rightarrow> SocketAddr \<Rightarrow> (Fault + unit) \<times> TransportServer" where
  "send_no_free_incoming_connections e sv addr = send_offline_packet e sv addr (PNoFreeIncomingConnections (reject_packet sv))"

definition send_connection_banned :: "ServerEnv \<Rightarrow> TransportServer \<Rightarrow> SocketAddr \<Rightarrow> (Fault + unit) \<times> TransportServer" where
  "send_connection_banned e sv addr = send_offline_packet e sv addr (PConnectionBanned (reject_packet sv))"

definition send_already_connected :: "ServerEnv \<Rightarrow> TransportServer \<Rightarrow> SocketAddr \<Rightarrow> (Fault + unit) \<times> TransportServer" where
  "send_already_connected e sv addr = send_offline_packet e sv addr (PAlreadyConnected (reject_packet sv))"

definition send_ip_recently_connected :: "ServerEnv \<Rightarrow> TransportServer \<Rightarrow> SocketAddr \<Rightarrow> (Fault + unit) \<times> TransportServer" where
  "send_ip_recently_connected e sv addr = send_offline_packet e sv addr (PIpRecentlyConnected (reject_packet sv))"

text \<open>\<^verbatim>\<open>self.send_datagram(..)?\<close> for every datagram of a list.\<close>

fun send_datagrams :: "ServerEnv \<Rightarrow> TransportServer \<Rightarrow> (SocketAddr \<times> Datagram) list \<Rightarrow> (Fault + unit) \<times> TransportServer" where
  "send_datagrams e sv [] = (Inr (), sv)"
| "send_datagrams e sv ((addr, d) # ds) =
     (case send_datagram e sv addr d of (Inl err, sv1) \<Rightarrow> (Inl err, sv1) | (Inr _, sv1) \<Rightarrow> send_datagrams e sv1 ds)"

text \<open>\<^verbatim>\<open>send(..).await?; return Ok(r)\<close>.\<close>

definition and_return :: "(Fault + unit) \<times> TransportServer \<Rightarrow> 'a \<Rightarrow> (Fault + 'a) \<times> TransportServer" where
  "and_return res r = (case res of (Inl err, sv) \<Rightarrow> (Inl err, sv) | (Inr _, sv) \<Rightarrow> (Inr r, sv))"

section \<open>Cookies\<close>

fun mac_socket_addr :: "SocketAddr \<Rightarrow> bytes" where
  "mac_socket_addr (V4 a b c d port) = [4, a, b, c, d] @ le_bytes 2 port"
| "mac_socket_addr (V6 ip port flowinfo scope_id) = [6] @ ip @ le_bytes 2 port @ le_bytes 4 flowinfo @ le_bytes 4 scope_id"

definition compute_cookie_for_key :: "(bytes \<Rightarrow> bytes \<Rightarrow> bytes) \<Rightarrow> TransportServer \<Rightarrow> SocketAddr \<Rightarrow> bytes \<Rightarrow> u32" where
  "compute_cookie_for_key hmac sv addr key =
     (let tag = hmac key (mac_socket_addr addr @ mac_socket_addr (tc_bind_addr (sv_config sv))
                  @ le_bytes 8 (tc_server_guid (sv_config sv)))
      in of_be [tag ! 3, tag ! 2, tag ! 1, tag ! 0])"

definition generate_cookie :: "(bytes \<Rightarrow> bytes \<Rightarrow> bytes) \<Rightarrow> TransportServer \<Rightarrow> SocketAddr \<Rightarrow> u32" where
  "generate_cookie hmac sv addr = compute_cookie_for_key hmac sv addr (sv_cookie_key_current sv)"

definition verify_cookie :: "(bytes \<Rightarrow> bytes \<Rightarrow> bytes) \<Rightarrow> TransportServer \<Rightarrow> SocketAddr \<Rightarrow> u32 option \<Rightarrow> bool" where
  "verify_cookie hmac sv addr cookie =
     (case cookie of
        None \<Rightarrow> False
      | Some cookie \<Rightarrow>
          if compute_cookie_for_key hmac sv addr (sv_cookie_key_current sv) = cookie then True
          else case sv_cookie_key_previous sv of
                 None \<Rightarrow> False
               | Some previous_key \<Rightarrow> compute_cookie_for_key hmac sv addr previous_key = cookie)"

definition rotate_cookie_keys_if_needed :: "ServerEnv \<Rightarrow> TransportServer \<Rightarrow> TransportServer" where
  "rotate_cookie_keys_if_needed e sv =
     (if \<not> tc_send_cookie (sv_config sv) \<or> tc_cookie_rotation_interval (sv_config sv) = 0 then sv
      else if e_now e < sv_next_cookie_rotation sv then sv
      else tally ct_cookie_rotations_update
             (sv\<lparr>sv_cookie_key_current := random_cookie_key e,
                 sv_cookie_key_previous := Some (sv_cookie_key_current sv),
                 sv_next_cookie_rotation := e_now e + tc_cookie_rotation_interval (sv_config sv)\<rparr>))"

section \<open>Scores of misbehaving addresses\<close>

text \<open>The entry of an address gets points: a window that is over starts again, and when the points reach
  the threshold the entry is reset and the address is to be blocked.\<close>

definition add_points :: "Instant \<Rightarrow> Duration \<Rightarrow> nat \<Rightarrow> nat \<Rightarrow> ScoreState option \<Rightarrow> bool \<times> ScoreState" where
  "add_points now event_window threshold points entry =
     (let st = (case entry of Some st \<Rightarrow> st | None \<Rightarrow> \<lparr>hs_window_started_at = now, hs_score = 0\<rparr>);
          st = (if now - hs_window_started_at st > event_window then \<lparr>hs_window_started_at = now, hs_score = 0\<rparr> else st);
          st = st\<lparr>hs_score := u32_sat_add (hs_score st) points\<rparr>
      in if hs_score st < threshold then (False, st) else (True, \<lparr>hs_window_started_at = now, hs_score = 0\<rparr>))"

definition record_cookie_mismatch :: "TransportServer \<Rightarrow> IpAddr \<Rightarrow> Instant \<Rightarrow> bool \<times> TransportServer" where
  "record_cookie_mismatch sv ip now =
     (let guard = tc_cookie_mismatch_guard (sv_config sv)
      in if \<not> cm_enabled guard \<or> cm_event_window guard = 0 \<or> cm_block_duration guard = 0 \<or> cm_mismatch_threshold guard = 0
         then (False, sv)
         else let (reached, st) = add_points now (cm_event_window guard) (cm_mismatch_threshold guard) 1
                                    (map_of (sv_cookie_mismatch_guard_states sv) ip);
                  sv1 = sv\<lparr>sv_cookie_mismatch_guard_states := AList.update ip st (sv_cookie_mismatch_guard_states sv)\<rparr>
              in if \<not> reached then (False, sv1)
                 else let (newly_blocked, rl) = block_address_for_with_reason (sv_rate_limiter sv1) ip now
                                                  (cm_block_duration guard) CookieMismatchGuard;
                          sv2 = sv1\<lparr>sv_rate_limiter := rl\<rparr>
                      in (newly_blocked, if newly_blocked then tally ct_cookie_mismatch_blocks_update sv2 else sv2))"

definition record_handshake_violation :: "TransportServer \<Rightarrow> SocketAddr \<Rightarrow> HandshakeViolation \<Rightarrow> Instant
    \<Rightarrow> bool \<times> TransportServer" where
  "record_handshake_violation sv addr violation now =
     (let h = tc_handshake_heuristics (sv_config sv)
      in if \<not> hh_enabled h \<or> hh_score_threshold h = 0 \<or> hh_event_window h = 0 \<or> hh_block_duration h = 0
         then (False, sv)
         else let points = violation_score violation (sv_config sv)
              in if points = 0 then (False, sv)
                 else let (should_block, st) = add_points now (hh_event_window h) (hh_score_threshold h) points
                                                 (map_of (sv_handshake_heuristics sv) (addr_ip addr));
                          sv1 = sv\<lparr>sv_handshake_heuristics := AList.update (addr_ip addr) st (sv_handshake_heuristics sv)\<rparr>
                      in if \<not> should_block then (False, sv1)
                         else let (newly_blocked, rl) = block_address_for_with_reason (sv_rate_limiter sv1) (addr_ip addr)
                                                          now (hh_block_duration h) HandshakeHeuristic;
                                  sv2 = sv1\<lparr>sv_rate_limiter := rl\<rparr>
                              in (newly_blocked, if newly_blocked then tally ct_handshake_auto_blocks_update sv2 else sv2))"

definition clear_cookie_mismatch_state :: "TransportServer \<Rightarrow> IpAddr \<Rightarrow> TransportServer" where
  "clear_cookie_mismatch_state sv ip =
     sv\<lparr>sv_cookie_mismatch_guard_states := AList.delete ip (sv_cookie_mismatch_guard_states sv)\<rparr>"

definition prune_cookie_mismatch_guard_states :: "TransportServer \<Rightarrow> Instant \<Rightarrow> TransportServer" where
  "prune_cookie_mismatch_guard_states sv now =
     (let guard = tc_cookie_mismatch_guard (sv_config sv)
      in if \<not> cm_enabled guard \<or> cm_event_window guard = 0 then sv\<lparr>sv_cookie_mismatch_guard_states := []\<rparr>
         else sv\<lparr>sv_cookie_mismatch_guard_states :=
                retain (\<lambda>st. now - hs_window_started_at st \<le> cm_event_window guard) (sv_cookie_mismatch_guard_states sv)\<rparr>)"

definition prune_handshake_heuristic_states :: "TransportServer \<Rightarrow> Instant \<Rightarrow> TransportServer" where
  "prune_handshake_heuristic_states sv now =
     (let h = tc_handshake_heuristics (sv_config sv)
      in if \<not> hh_enabled h \<or> hh_event_window h = 0 then sv\<lparr>sv_handshake_heuristics := []\<rparr>
         else sv\<lparr>sv_handshake_heuristics :=
                retain (\<lambda>st. now - hs_window_started_at st \<le> hh_event_window h) (sv_handshake_heuristics sv)\<rparr>)"

section \<open>Closing sessions\<close>

definition is_post_reply2_handshake_state :: "SessionState \<Rightarrow> bool" where
  "is_post_reply2_handshake_state state \<longleftrightarrow> state \<in> {Reply2Sent, ConnReqRecv, ConnReqAcceptedSent, NewIncomingRecv}"

definition should_mark_ip_recently_connected :: "SessionState \<Rightarrow> bool" where
  "should_mark_ip_recently_connected state \<longleftrightarrow>
     state = Connected \<or> state = Closing \<or> state = Closed \<or> is_post_reply2_handshake_state state"

definition should_count_closed_session :: "SessionState \<Rightarrow> bool" where
  "should_count_closed_session state \<longleftrightarrow> state \<in> {Connected, Closing, Closed}"

definition mark_ip_recently_connected :: "TransportServer \<Rightarrow> SocketAddr \<Rightarrow> Instant \<Rightarrow> TransportServer" where
  "mark_ip_recently_connected sv addr now =
     (let window = tc_ip_recently_connected_window (sv_config sv)
      in if window = 0 then sv
         else sv\<lparr>sv_ip_recently_connected_until :=
                AList.update (addr_ip addr) (now + window) (sv_ip_recently_connected_until sv)\<rparr>)"

definition prune_ip_recently_connected :: "TransportServer \<Rightarrow> Instant \<Rightarrow> TransportServer" where
  "prune_ip_recently_connected sv now =
     (if tc_ip_recently_connected_window (sv_config sv) = 0 then sv\<lparr>sv_ip_recently_connected_until := []\<rparr>
      else sv\<lparr>sv_ip_recently_connected_until := retain (\<lambda>until. until > now) (sv_ip_recently_connected_until sv)\<rparr>)"

definition is_ip_recently_connected :: "TransportServer \<Rightarrow> SocketAddr \<Rightarrow> Instant \<Rightarrow> bool \<times> TransportServer" where
  "is_ip_recently_connected sv addr now =
     (let sv = prune_ip_recently_connected sv now
      in (some_and (map_of (sv_ip_recently_connected_until sv) (addr_ip addr)) (\<lambda>until. until > now), sv))"

definition close_session :: "ServerEnv \<Rightarrow> TransportServer \<Rightarrow> SocketAddr \<Rightarrow> TransportServer" where
  "close_session e sv addr =
     (let sv1 = sv\<lparr>sv_pending_handshakes := AList.delete addr (sv_pending_handshakes sv)\<rparr>;
          sv2 = (case map_of (sv_sessions sv1) addr of
                   None \<Rightarrow> sv1
                 | Some session \<Rightarrow>
                     let state = ss_state session;
                         sv2 = sv1\<lparr>sv_sessions := AList.delete addr (sv_sessions sv1)\<rparr>;
                         sv3 = (if should_count_closed_session state then tally ct_sessions_closed_total_update sv2 else sv2)
                     in if should_mark_ip_recently_connected state then mark_ip_recently_connected sv3 addr (e_clock e) else sv3)
      in sv2\<lparr>sv_session_pipelines := AList.delete addr (sv_session_pipelines sv2)\<rparr>)"

definition record_illegal_state_transition :: "ServerEnv \<Rightarrow> TransportServer \<Rightarrow> SocketAddr \<Rightarrow> TransportServer" where
  "record_illegal_state_transition e sv addr = close_session e (tally ct_illegal_state_transitions_update sv) addr"

fun record_remote_disconnect :: "TransportServer \<Rightarrow> RemoteDisconnectReason \<Rightarrow> TransportServer" where
  "record_remote_disconnect sv (ByNotification _) = tally ct_remote_disconnect_notifications_update sv"
| "record_remote_disconnect sv ByDetectLostConnection = tally ct_remote_detect_lost_disconnects_update sv"

definition disconnect_peer :: "ServerEnv \<Rightarrow> TransportServer \<Rightarrow> SocketAddr \<Rightarrow> bool \<times> TransportServer" where
  "disconnect_peer e sv addr =
     (if map_of (sv_sessions sv) addr \<noteq> None \<or> map_of (sv_pending_handshakes sv) addr \<noteq> None
      then (True, close_session e (tally ct_local_requested_disconnects_update sv) addr) else (False, sv))"

section \<open>Pruning\<close>

fun timeout_violation :: "PendingHandshakeStage \<Rightarrow> HandshakeViolation" where
  "timeout_violation AwaitingRequest2 = Req1Req2Timeout"
| "timeout_violation AwaitingConnectionRequest = Reply2ConnectTimeout"

fun count_timeout :: "PendingHandshakeStage \<Rightarrow> TransportServer \<Rightarrow> TransportServer" where
  "count_timeout AwaitingRequest2 sv = tally ct_handshake_req1_req2_timeouts_update sv"
| "count_timeout AwaitingConnectionRequest sv = tally ct_handshake_reply2_connect_timeouts_update sv"

definition expire_handshake :: "ServerEnv \<Rightarrow> TransportServer \<Rightarrow> SocketAddr \<times> PendingHandshake \<Rightarrow> TransportServer" where
  "expire_handshake e sv = (\<lambda>(addr, pending).
     let sv1 = tally ct_handshake_stage_cancel_drops_update (count_timeout (ph_stage pending) sv);
         (_, sv2) = record_handshake_violation sv1 addr (timeout_violation (ph_stage pending)) (e_now e)
     in close_session e sv2 addr)"

definition prune_pending_handshakes :: "ServerEnv \<Rightarrow> TransportServer \<Rightarrow> TransportServer" where
  "prune_pending_handshakes e sv =
     (let expired = filter (\<lambda>(_, pending). ph_expires_at pending \<le> e_now e) (sv_pending_handshakes sv);
          sv1 = foldl (expire_handshake e) sv expired
      in prune_handshake_heuristic_states sv1 (e_now e))"

definition prune_idle_sessions :: "ServerEnv \<Rightarrow> TransportServer \<Rightarrow> SocketAddr option \<Rightarrow> TransportServer" where
  "prune_idle_sessions e sv protected_addr =
     (let timeout = tc_session_idle_timeout (sv_config sv)
      in if timeout = 0 then sv
         else let stale = map fst (filter (\<lambda>(addr, session). Some addr \<noteq> protected_addr \<and> ss_state session = Connected
                                            \<and> idle_for session (e_now e) \<ge> timeout) (sv_sessions sv))
              in foldl (\<lambda>sv addr. close_session e (tally ct_timed_out_sessions_update sv) addr) sv stale)"

text \<open>The housekeeping a call starts with.\<close>

definition housekeeping :: "ServerEnv \<Rightarrow> TransportServer \<Rightarrow> SocketAddr option \<Rightarrow> TransportServer" where
  "housekeeping e sv protected_addr =
     (let sv = prune_pending_handshakes e sv;
          sv = prune_cookie_mismatch_guard_states sv (e_now e);
          sv = prune_ip_recently_connected sv (e_now e)
      in prune_idle_sessions e sv protected_addr)"

definition tick_limiter :: "ServerEnv \<Rightarrow> TransportServer \<Rightarrow> TransportServer" where
  "tick_limiter e sv =
     rotate_cookie_keys_if_needed e (sv\<lparr>sv_rate_limiter := limiter_tick (sv_rate_limiter sv) (e_now e)\<rparr>)"

section \<open>Settings\<close>

definition set_rate_limit_config :: "ServerEnv \<Rightarrow> TransportServer \<Rightarrow> usize \<Rightarrow> usize \<Rightarrow> Duration \<Rightarrow> Duration \<Rightarrow> TransportServer" where
  "set_rate_limit_config e sv per_ip global window block_duration =
     (let rl = update_limits (sv_rate_limiter sv) per_ip global window block_duration (e_clock e)
      in sv\<lparr>sv_rate_limiter := rl,
            sv_config := (sv_config sv)\<lparr>tc_per_ip_packet_limit := rl_per_ip_limit rl, tc_global_packet_limit := rl_global_limit rl,
              tc_rate_window := rl_window rl, tc_block_duration := rl_block_duration rl\<rparr>\<rparr>)"

definition server_set_processing_budget_config :: "ServerEnv \<Rightarrow> TransportServer \<Rightarrow> ProcessingBudgetConfig \<Rightarrow> TransportServer" where
  "server_set_processing_budget_config e sv config =
     (let rl = set_processing_budget_config (sv_rate_limiter sv) config (e_clock e)
      in sv\<lparr>sv_rate_limiter := rl,
            sv_config := (sv_config sv)\<lparr>tc_processing_budget := pb_config (rl_processing_budget rl)\<rparr>\<rparr>)"

definition set_proxy_router :: "TransportServer \<Rightarrow> ProxyRouter \<Rightarrow> TransportServer" where
  "set_proxy_router sv router = sv\<lparr>sv_proxy_router := Some router\<rparr>"

definition clear_proxy_router :: "TransportServer \<Rightarrow> TransportServer" where
  "clear_proxy_router sv = sv\<lparr>sv_proxy_router := None\<rparr>"

definition add_rate_limit_exception :: "TransportServer \<Rightarrow> IpAddr \<Rightarrow> TransportServer" where
  "add_rate_limit_exception sv ip = sv\<lparr>sv_rate_limiter := add_exception (sv_rate_limiter sv) ip\<rparr>"

definition remove_rate_limit_exception :: "TransportServer \<Rightarrow> IpAddr \<Rightarrow> TransportServer" where
  "remove_rate_limit_exception sv ip = sv\<lparr>sv_rate_limiter := remove_exception (sv_rate_limiter sv) ip\<rparr>"

definition set_per_ip_packet_limit :: "ServerEnv \<Rightarrow> TransportServer \<Rightarrow> usize \<Rightarrow> TransportServer" where
  "set_per_ip_packet_limit e sv limit =
     (let rl = set_per_ip_limit (sv_rate_limiter sv) limit (e_clock e)
      in sv\<lparr>sv_rate_limiter := rl, sv_config := (sv_config sv)\<lparr>tc_per_ip_packet_limit := rl_per_ip_limit rl\<rparr>\<rparr>)"

definition set_global_packet_limit :: "ServerEnv \<Rightarrow> TransportServer \<Rightarrow> usize \<Rightarrow> TransportServer" where
  "set_global_packet_limit e sv limit =
     (let rl = set_global_limit (sv_rate_limiter sv) limit (e_clock e)
      in sv\<lparr>sv_rate_limiter := rl, sv_config := (sv_config sv)\<lparr>tc_global_packet_limit := rl_global_limit rl\<rparr>\<rparr>)"

definition set_rate_window :: "ServerEnv \<Rightarrow> TransportServer \<Rightarrow> Duration \<Rightarrow> TransportServer" where
  "set_rate_window e sv window =
     (let rl = set_window (sv_rate_limiter sv) window (e_clock e)
      in sv\<lparr>sv_rate_limiter := rl, sv_config := (sv_config sv)\<lparr>tc_rate_window := rl_window rl\<rparr>\<rparr>)"

definition server_set_block_duration :: "TransportServer \<Rightarrow> Duration \<Rightarrow> TransportServer" where
  "server_set_block_duration sv block_duration =
     (let rl = set_block_duration (sv_rate_limiter sv) block_duration
      in sv\<lparr>sv_rate_limiter := rl, sv_config := (sv_config sv)\<lparr>tc_block_duration := rl_block_duration rl\<rparr>\<rparr>)"

definition server_block_address :: "TransportServer \<Rightarrow> IpAddr \<Rightarrow> bool \<times> TransportServer" where
  "server_block_address sv ip =
     (let (newly_blocked, rl) = block_address (sv_rate_limiter sv) ip in (newly_blocked, sv\<lparr>sv_rate_limiter := rl\<rparr>))"

definition server_block_address_for :: "ServerEnv \<Rightarrow> TransportServer \<Rightarrow> IpAddr \<Rightarrow> Duration \<Rightarrow> bool \<times> TransportServer" where
  "server_block_address_for e sv ip duration =
     (let (newly_blocked, rl) = block_address_for (sv_rate_limiter sv) ip (e_clock e) duration
      in (newly_blocked, sv\<lparr>sv_rate_limiter := rl\<rparr>))"

definition server_unblock_address :: "TransportServer \<Rightarrow> IpAddr \<Rightarrow> bool \<times> TransportServer" where
  "server_unblock_address sv ip =
     (let (unblocked, rl) = unblock_address (sv_rate_limiter sv) ip in (unblocked, sv\<lparr>sv_rate_limiter := rl\<rparr>))"

end
