(* ===== verification/ServerHandshake.thy ===== *)
theory ServerHandshake
  imports TransportServer
begin

text \<open>
  \<^verbatim>\<open>src/transport/server.rs\<close>, second part: \<^verbatim>\<open>handle_offline_packet\<close>, one definition per packet that the server
  answers.  A reply that cannot be sent ends the handler with the error, as \<^verbatim>\<open>?\<close> does.
\<close>

section \<open>Decisions\<close>

definition supports_protocol :: "u8 list \<Rightarrow> u8 \<Rightarrow> bool" where
  "supports_protocol supported incoming = (if supported = [] then incoming = RAKNET_PROTOCOL_VERSION else incoming \<in> set supported)"

definition primary_protocol_version :: "u8 list \<Rightarrow> u8" where
  "primary_protocol_version supported = (if supported = [] then RAKNET_PROTOCOL_VERSION else Max (set supported))"

definition has_active_session_for_offline_reject :: "TransportServer \<Rightarrow> SocketAddr \<Rightarrow> bool" where
  "has_active_session_for_offline_reject sv addr =
     (case map_of (sv_sessions sv) addr of
        None \<Rightarrow> False
      | Some session \<Rightarrow>
          if map_of (sv_pending_handshakes sv) addr \<noteq> None then False
          else ss_state session \<in> {Req2Recv, Reply2Sent, ConnReqRecv, ConnReqAcceptedSent, NewIncomingRecv, Connected, Closing, Closed})"

definition is_request2_server_addr_allowed :: "TransportServer \<Rightarrow> SocketAddr \<Rightarrow> SocketAddr \<Rightarrow> bool" where
  "is_request2_server_addr_allowed sv request_server_addr local_server_addr =
     (case tc_request2_server_addr_policy (sv_config sv) of
        PolicyDisabled \<Rightarrow> True
      | PortOnly \<Rightarrow> addr_port request_server_addr = addr_port local_server_addr
      | Exact \<Rightarrow>
          if is_unspecified (addr_ip local_server_addr) then addr_port request_server_addr = addr_port local_server_addr
          else request_server_addr = local_server_addr)"

definition would_exceed_session_limit :: "TransportServer \<Rightarrow> SocketAddr \<Rightarrow> bool" where
  "would_exceed_session_limit sv addr \<longleftrightarrow>
     map_of (sv_sessions sv) addr = None \<and> length (sv_sessions sv) \<ge> tc_max_sessions (sv_config sv)"

definition negotiate_mtu :: "TransportServer \<Rightarrow> u16 \<Rightarrow> u16" where
  "negotiate_mtu sv requested =
     (let server_cap = of_nat (max (unat MINIMUM_MTU_SIZE) (min (tc_mtu (sv_config sv)) (unat MAXIMUM_MTU_SIZE))) :: u16
      in if requested < MINIMUM_MTU_SIZE then MINIMUM_MTU_SIZE else if requested > server_cap then server_cap else requested)"

fun apply_session_transitions :: "Session \<Rightarrow> SessionState list \<Rightarrow> bool \<times> Session" where
  "apply_session_transitions s [] = (True, s)"
| "apply_session_transitions s (nxt # rest) =
     (case transition_to s nxt of (False, s1) \<Rightarrow> (False, s1) | (True, s1) \<Rightarrow> apply_session_transitions s1 rest)"

section \<open>The packets\<close>

definition handle_ping :: "ServerEnv \<Rightarrow> TransportServer \<Rightarrow> SocketAddr \<Rightarrow> UnconnectedPing
    \<Rightarrow> (Fault + TransportEvent option) \<times> TransportServer" where
  "handle_ping e sv addr ping =
     and_return (send_offline_packet e sv addr (PUnconnectedPong
       \<lparr>upo_ping_time = up_ping_time ping, upo_server_guid = tc_server_guid (sv_config sv),
        upo_magic = tc_unconnected_magic (sv_config sv), upo_motd = sv_advertisement_bytes sv\<rparr>)) None"

definition start_handshake :: "ServerEnv \<Rightarrow> (bytes \<Rightarrow> bytes \<Rightarrow> bytes) \<Rightarrow> rounding \<Rightarrow> TransportServer \<Rightarrow> SocketAddr \<Rightarrow> u16
    \<Rightarrow> (Fault + TransportEvent option) \<times> TransportServer" where
  "start_handshake e hmac rnd sv addr requested =
     (let config = sv_config sv;
          mtu = negotiate_mtu sv requested;
          previous_cookie = (case map_of (sv_pending_handshakes sv) addr of
                               None \<Rightarrow> None
                             | Some pending \<Rightarrow> if ph_stage pending = AwaitingRequest2 then ph_cookie pending else None);
          cookie = (if tc_send_cookie config
                    then (case previous_cookie of Some c \<Rightarrow> Some c | None \<Rightarrow> Some (generate_cookie hmac sv addr))
                    else None);
          sv1 = sv\<lparr>sv_pending_handshakes := AList.update addr
                     \<lparr>ph_mtu = mtu, ph_cookie = cookie, ph_client_guid = None, ph_stage = AwaitingRequest2,
                      ph_expires_at = e_now e + handshake_req1_req2_timeout config\<rparr> (sv_pending_handshakes sv),
                   sv_sessions := AList.delete addr (sv_sessions sv),
                   sv_session_pipelines := AList.delete addr (sv_session_pipelines sv)\<rparr>
      in case with_tunables rnd (e_clock e) (unat mtu) (tc_session_tunables config) of
           None \<Rightarrow> (Inl Panicked, sv1)
         | Some session \<Rightarrow>
             (case apply_session_transitions session [Req1Recv, Reply1Sent] of
                (False, s1) \<Rightarrow>
                  (Inr None, record_illegal_state_transition e (sv1\<lparr>sv_sessions := AList.update addr s1 (sv_sessions sv1)\<rparr>) addr)
              | (True, s1) \<Rightarrow>
                  and_return (send_offline_packet e (sv1\<lparr>sv_sessions := AList.update addr s1 (sv_sessions sv1)\<rparr>) addr
                    (POpenConnectionReply1 \<lparr>rp1_server_guid = tc_server_guid config, rp1_mtu = mtu, rp1_cookie = cookie,
                       rp1_magic = tc_unconnected_magic config\<rparr>)) None))"

definition handle_request_1 :: "ServerEnv \<Rightarrow> (bytes \<Rightarrow> bytes \<Rightarrow> bytes) \<Rightarrow> rounding \<Rightarrow> TransportServer \<Rightarrow> SocketAddr
    \<Rightarrow> OpenConnectionRequest1 \<Rightarrow> (Fault + TransportEvent option) \<times> TransportServer" where
  "handle_request_1 e hmac rnd sv addr req1 =
     (let config = sv_config sv
      in if \<not> supports_protocol (tc_supported_protocols config) (rq1_protocol_version req1)
         then and_return (send_offline_packet e sv addr (PIncompatibleProtocolVersion
                \<lparr>ipv_protocol_version = primary_protocol_version (tc_supported_protocols config),
                 ipv_server_guid = tc_server_guid config, ipv_magic = tc_unconnected_magic config\<rparr>)) None
         else let (recent, sv1) = is_ip_recently_connected sv addr (e_now e)
              in if recent
                 then and_return (send_ip_recently_connected e (tally ct_handshake_ip_recently_connected_rejects_update sv1) addr) None
                 else if has_active_session_for_offline_reject sv1 addr
                 then and_return (send_already_connected e (tally ct_handshake_already_connected_rejects_update sv1) addr) None
                 else if some_and (map_of (sv_pending_handshakes sv1) addr) (\<lambda>pending. ph_stage pending = AwaitingConnectionRequest)
                 then and_return (send_already_connected e (tally ct_handshake_already_connected_rejects_update sv1) addr) None
                 else if would_exceed_session_limit sv1 addr
                 then and_return (send_no_free_incoming_connections e sv1 addr) (Some (EvSessionLimitReached addr))
                 else start_handshake e hmac rnd sv1 addr (rq1_mtu req1))"

text \<open>Reporting a violation and telling an address that was blocked for it.\<close>

definition punish :: "ServerEnv \<Rightarrow> TransportServer \<Rightarrow> SocketAddr \<Rightarrow> HandshakeViolation
    \<Rightarrow> (Fault + TransportEvent option) \<times> TransportServer" where
  "punish e sv addr violation =
     (let (newly_blocked, sv1) = record_handshake_violation sv addr violation (e_now e)
      in if newly_blocked then and_return (send_connection_banned e sv1 addr) None else (Inr None, sv1))"

definition request_2_expired :: "ServerEnv \<Rightarrow> TransportServer \<Rightarrow> SocketAddr \<Rightarrow> PendingHandshake
    \<Rightarrow> (Fault + TransportEvent option) \<times> TransportServer" where
  "request_2_expired e sv addr pending =
     (let sv1 = tally ct_handshake_stage_cancel_drops_update (count_timeout (ph_stage pending) sv);
          (newly_blocked, sv2) = record_handshake_violation sv1 addr (timeout_violation (ph_stage pending)) (e_now e);
          sv3 = close_session e sv2 addr
      in if newly_blocked then and_return (send_connection_banned e sv3 addr) None else (Inr None, sv3))"

definition request_2_cookie_mismatch :: "ServerEnv \<Rightarrow> TransportServer \<Rightarrow> SocketAddr
    \<Rightarrow> (Fault + TransportEvent option) \<times> TransportServer" where
  "request_2_cookie_mismatch e sv addr =
     (let sv1 = tally ct_handshake_stage_cancel_drops_update (tally ct_cookie_mismatch_drops_update sv);
          (blocked_by_guard, sv2) = record_cookie_mismatch sv1 (addr_ip addr) (e_now e);
          (blocked_by_heuristics, sv3) = record_handshake_violation sv2 addr CookieMismatch (e_now e)
      in if blocked_by_guard \<or> blocked_by_heuristics then and_return (send_connection_banned e sv3 addr) None else (Inr None, sv3))"

definition send_reply_2 :: "ServerEnv \<Rightarrow> TransportServer \<Rightarrow> SocketAddr \<Rightarrow> u16 \<Rightarrow> (Fault + TransportEvent option) \<times> TransportServer" where
  "send_reply_2 e sv addr mtu =
     and_return (send_offline_packet e sv addr (POpenConnectionReply2
       \<lparr>rp2_server_guid = tc_server_guid (sv_config sv), rp2_server_addr = server_addr e sv, rp2_mtu = mtu,
        rp2_use_encryption = False, rp2_magic = tc_unconnected_magic (sv_config sv)\<rparr>)) None"

definition retry_reply_2 :: "ServerEnv \<Rightarrow> TransportServer \<Rightarrow> SocketAddr \<Rightarrow> PendingHandshake \<Rightarrow> OpenConnectionRequest2
    \<Rightarrow> (Fault + TransportEvent option) \<times> TransportServer" where
  "retry_reply_2 e sv addr pending req2 =
     (let retry_mtu = negotiate_mtu sv (min (rq2_mtu req2) (ph_mtu pending))
      in case map_of (sv_sessions sv) addr of
           None \<Rightarrow> (Inr None, record_illegal_state_transition e sv addr)
         | Some session \<Rightarrow>
             if \<not> is_post_reply2_handshake_state (ss_state session) then (Inr None, record_illegal_state_transition e sv addr)
             else send_reply_2 e (sv\<lparr>sv_sessions := AList.update addr
                    (touch_activity (set_mtu session (unat retry_mtu)) (e_now e)) (sv_sessions sv)\<rparr>) addr retry_mtu)"

definition accept_request_2 :: "ServerEnv \<Rightarrow> TransportServer \<Rightarrow> SocketAddr \<Rightarrow> PendingHandshake \<Rightarrow> OpenConnectionRequest2
    \<Rightarrow> (Fault + TransportEvent option) \<times> TransportServer" where
  "accept_request_2 e sv addr pending req2 =
     (let mtu = negotiate_mtu sv (min (rq2_mtu req2) (ph_mtu pending))
      in case map_of (sv_sessions sv) addr of
           None \<Rightarrow> (Inr None, record_illegal_state_transition e sv addr)
         | Some session \<Rightarrow>
             (case apply_session_transitions (touch_activity (set_mtu session (unat mtu)) (e_now e)) [Req2Recv, Reply2Sent] of
                (False, s1) \<Rightarrow>
                  (Inr None, record_illegal_state_transition e (sv\<lparr>sv_sessions := AList.update addr s1 (sv_sessions sv)\<rparr>) addr)
              | (True, s1) \<Rightarrow>
                  send_reply_2 e (sv\<lparr>sv_sessions := AList.update addr s1 (sv_sessions sv),
                    sv_pending_handshakes := AList.update addr
                      \<lparr>ph_mtu = mtu, ph_cookie = ph_cookie pending, ph_client_guid = Some (rq2_client_guid req2),
                       ph_stage = AwaitingConnectionRequest,
                       ph_expires_at = e_now e + handshake_reply2_connect_timeout (sv_config sv)\<rparr> (sv_pending_handshakes sv)\<rparr>)
                    addr mtu))"

text \<open>The second request once its parse path and its server address were accepted.\<close>

definition verified_request_2 :: "ServerEnv \<Rightarrow> (bytes \<Rightarrow> bytes \<Rightarrow> bytes) \<Rightarrow> TransportServer \<Rightarrow> SocketAddr \<Rightarrow> OpenConnectionRequest2
    \<Rightarrow> (Fault + TransportEvent option) \<times> TransportServer" where
  "verified_request_2 e hmac sv addr req2 =
     (case map_of (sv_pending_handshakes sv) addr of
        None \<Rightarrow> punish e (tally ct_handshake_stage_cancel_drops_update (tally ct_handshake_missing_req1_drops_update sv))
                 addr MissingPendingReq1
      | Some pending \<Rightarrow>
          if ph_expires_at pending \<le> e_now e then request_2_expired e sv addr pending
          else if tc_send_cookie (sv_config sv) \<and> (ph_cookie pending = None \<or> \<not> verify_cookie hmac sv addr (rq2_cookie req2))
          then request_2_cookie_mismatch e sv addr
          else let sv1 = clear_cookie_mismatch_state sv (addr_ip addr)
               in if ph_stage pending = AwaitingConnectionRequest then retry_reply_2 e sv1 addr pending req2
                  else if would_exceed_session_limit sv1 addr
                  then and_return (send_no_free_incoming_connections e sv1 addr) (Some (EvSessionLimitReached addr))
                  else accept_request_2 e sv1 addr pending req2)"

definition handle_request_2 :: "ServerEnv \<Rightarrow> (bytes \<Rightarrow> bytes \<Rightarrow> bytes) \<Rightarrow> TransportServer \<Rightarrow> SocketAddr \<Rightarrow> OpenConnectionRequest2
    \<Rightarrow> (Fault + TransportEvent option) \<times> TransportServer" where
  "handle_request_2 e hmac sv addr req2 =
     (let (recent, sv1) = is_ip_recently_connected sv addr (e_now e)
      in if recent
         then and_return (send_ip_recently_connected e (tally ct_handshake_ip_recently_connected_rejects_update sv1) addr) None
         else if has_active_session_for_offline_reject sv1 addr
         then and_return (send_already_connected e (tally ct_handshake_already_connected_rejects_update sv1) addr) None
         else let sv2 = (case rq2_parse_path req2 of
                           LegacyHeuristic \<Rightarrow> tally ct_request2_legacy_parse_hits_update sv1
                         | AmbiguousPreferredNoCookie \<Rightarrow> tally ct_request2_ambiguous_parse_hits_update sv1
                         | AmbiguousPreferredWithCookie \<Rightarrow> tally ct_request2_ambiguous_parse_hits_update sv1
                         | _ \<Rightarrow> sv1)
              in if rq2_parse_path req2 = LegacyHeuristic \<and> \<not> tc_allow_legacy_request2_fallback (sv_config sv2)
                 then punish e (tally ct_handshake_stage_cancel_drops_update (tally ct_request2_legacy_drops_update sv2))
                        addr ParseAnomalyDrop
                 else if rq2_parse_path req2 \<in> {AmbiguousPreferredNoCookie, AmbiguousPreferredWithCookie}
                           \<and> tc_reject_ambiguous_request2 (sv_config sv2)
                 then punish e (tally ct_handshake_stage_cancel_drops_update (tally ct_request2_ambiguous_drops_update sv2))
                        addr ParseAnomalyDrop
                 else if \<not> is_request2_server_addr_allowed sv2 (rq2_server_addr req2) (server_addr e sv2)
                 then (Inr None, tally ct_handshake_stage_cancel_drops_update (tally ct_request2_server_addr_mismatch_drops_update sv2))
                 else verified_request_2 e hmac sv2 addr req2)"

fun handle_offline_packet :: "ServerEnv \<Rightarrow> (bytes \<Rightarrow> bytes \<Rightarrow> bytes) \<Rightarrow> rounding \<Rightarrow> TransportServer \<Rightarrow> SocketAddr \<Rightarrow> OfflinePacket
    \<Rightarrow> (Fault + TransportEvent option) \<times> TransportServer" where
  "handle_offline_packet e hmac rnd sv addr (PUnconnectedPing ping) = handle_ping e sv addr ping"
| "handle_offline_packet e hmac rnd sv addr (PUnconnectedPingOpenConnections ping) = handle_ping e sv addr ping"
| "handle_offline_packet e hmac rnd sv addr (POpenConnectionRequest1 req1) = handle_request_1 e hmac rnd sv addr req1"
| "handle_offline_packet e hmac rnd sv addr (POpenConnectionRequest2 req2) = handle_request_2 e hmac sv addr req2"
| "handle_offline_packet e hmac rnd sv addr _ = (Inr None, sv)"

end
