(* ===== verification/ServerReceive.thy ===== *)
theory ServerReceive
  imports ServerHandshake
begin

text \<open>
  \<^verbatim>\<open>src/transport/server.rs\<close>, third part: a received datagram (\<^verbatim>\<open>recv_and_process\<close>), the control packets of a
  connection, the outgoing side (\<^verbatim>\<open>tick_outbound\<close>, \<^verbatim>\<open>queue_payload\<close>) and keepalives.
\<close>

section \<open>Control packets\<close>

definition build_internal_addrs :: "SocketAddr \<Rightarrow> SocketAddr list" where
  "build_internal_addrs local_addr =
     (let fallback = (case local_addr of V4 _ _ _ _ _ \<Rightarrow> V4 0 0 0 0 0 | V6 _ _ _ scope_id \<Rightarrow> V6 (replicate 16 0) 0 0 scope_id)
      in local_addr # replicate (SYSTEM_ADDRESS_COUNT - 1) fallback)"

definition queue_connected_control_packet :: "rounding \<Rightarrow> Session \<Rightarrow> ConnectedControlPacket \<Rightarrow> Reliability \<Rightarrow> u8 \<Rightarrow> RakPriority
    \<Rightarrow> (DecodeError + QueuePayloadResult) \<times> Session" where
  "queue_connected_control_packet rnd s packet reliability channel priority =
     (case control_encode packet of
        Inl _ \<Rightarrow> (Inl UnexpectedEof, s)
      | Inr payload \<Rightarrow> (let (r, s1) = queue_payload rnd s payload reliability channel priority in (Inr r, s1)))"

definition control_ping :: "rounding \<Rightarrow> Session \<Rightarrow> i64 \<Rightarrow> i64 \<Rightarrow> (DecodeError + ControlAction) \<times> Session" where
  "control_ping rnd s now_millis ping_time =
     (if ss_state s \<noteq> Connected then (Inr (CaCloseSession None True), s)
      else case queue_connected_control_packet rnd s (ConnectedPong ping_time now_millis) Unreliable 0 Immediate of
             (Inl err, s1) \<Rightarrow> (Inl err, s1)
           | (Inr outcome, s1) \<Rightarrow>
               if outcome = DisconnectRequested then (Inr (CaCloseSession None False), s1)
               else let (asked, s2) = take_backpressure_disconnect s1
                    in if asked then (Inr (CaCloseSession None False), s2) else (Inr CaNone, s2))"

definition control_request :: "rounding \<Rightarrow> Session \<Rightarrow> SocketAddr \<Rightarrow> SocketAddr \<Rightarrow> i64 \<Rightarrow> i64
    \<Rightarrow> (DecodeError + ControlAction) \<times> Session" where
  "control_request rnd s addr local_addr now_millis request_time =
     (case apply_session_transitions s [ConnReqRecv] of
        (False, s1) \<Rightarrow> (Inr (CaCloseSession None True), s1)
      | (True, s1) \<Rightarrow>
          (case queue_connected_control_packet rnd s1
                  (ConnectionRequestAccepted addr 0 (build_internal_addrs local_addr) request_time now_millis)
                  ReliableOrdered 0 High of
             (Inl err, s2) \<Rightarrow> (Inl err, s2)
           | (Inr (Enqueued _), s2) \<Rightarrow>
               (let (asked, s3) = take_backpressure_disconnect s2
                in if asked then (Inr (CaCloseSession None False), s3)
                   else case apply_session_transitions s3 [ConnReqAcceptedSent] of
                          (False, s4) \<Rightarrow> (Inr (CaCloseSession None True), s4)
                        | (True, s4) \<Rightarrow> (Inr CaNone, s4))
           | (Inr _, s2) \<Rightarrow> (Inr (CaCloseSession None False), s2)))"

definition control_close :: "Session \<Rightarrow> RemoteDisconnectReason \<Rightarrow> (DecodeError + ControlAction) \<times> Session" where
  "control_close s reason =
     (case apply_session_transitions s [Closing, Closed] of
        (False, s1) \<Rightarrow> (Inr (CaCloseSession None True), s1)
      | (True, s1) \<Rightarrow> (Inr (CaCloseSession (Some reason) False), s1))"

fun apply_connected_control :: "rounding \<Rightarrow> Session \<Rightarrow> SocketAddr \<Rightarrow> SocketAddr \<Rightarrow> i64 \<Rightarrow> ConnectedControlPacket
    \<Rightarrow> (DecodeError + ControlAction) \<times> Session" where
  "apply_connected_control rnd s addr local_addr now_millis (ConnectedPing ping_time) = control_ping rnd s now_millis ping_time"
| "apply_connected_control rnd s addr local_addr now_millis (ConnectionRequest _ request_time _) =
     control_request rnd s addr local_addr now_millis request_time"
| "apply_connected_control rnd s addr local_addr now_millis (NewIncomingConnection _ _ _ _) =
     (case apply_session_transitions s [NewIncomingRecv, Connected] of
        (False, s1) \<Rightarrow> (Inr (CaCloseSession None True), s1)
      | (True, s1) \<Rightarrow> (Inr CaNone, s1))"
| "apply_connected_control rnd s addr local_addr now_millis (DisconnectionNotification reason) =
     control_close s (ByNotification reason)"
| "apply_connected_control rnd s addr local_addr now_millis DetectLostConnection = control_close s ByDetectLostConnection"
| "apply_connected_control rnd s addr local_addr now_millis (ConnectedPong _ _) = (Inr CaNone, s)"
| "apply_connected_control rnd s addr local_addr now_millis (ConnectionRequestAccepted _ _ _ _ _) = (Inr CaNone, s)"

section \<open>The frames of a datagram\<close>

definition is_offline_packet_id :: "u8 \<Rightarrow> bool" where
  "is_offline_packet_id i \<longleftrightarrow>
     i \<in> {0x01, 0x02, 0x05, 0x06, 0x07, 0x08, 0x11, 0x12, 0x14, 0x17, 0x19, 0x1A, 0x1C}"

definition is_connected_control_id :: "u8 \<Rightarrow> bool" where
  "is_connected_control_id i \<longleftrightarrow> i \<in> {0x00, 0x03, 0x04, 0x09, 0x10, 0x13, 0x15}"

fun frame_cost :: "Frame \<Rightarrow> usize \<Rightarrow> usize" where
  "frame_cost frame cost =
     (let payload_len = length (fr_payload frame);
          rel = fr_rel frame;
          cost = sat_add cost payload_len;
          cost = (if is_reliable rel then sat_add cost 32 else cost);
          cost = (if is_ordered rel \<or> is_sequenced rel then sat_add cost 24 else cost)
      in if fh_is_split (fr_header frame)
         then let split_parts = (case fr_split frame of Some s \<Rightarrow> unat (si_part_count s) | None \<Rightarrow> 1);
                  cost = sat_add cost 512;
                  cost = sat_add cost (sat_mul payload_len 2)
              in sat_add cost (min split_parts 2048)
         else cost)"

definition estimate_connected_datagram_processing_cost :: "usize \<Rightarrow> Datagram \<Rightarrow> usize" where
  "estimate_connected_datagram_processing_cost raw_len datagram =
     (case dg_payload datagram of
        Ack p \<Rightarrow> max (sat_mul (length (ann_ranges p)) 8) 1
      | Nack p \<Rightarrow> max (sat_mul (length (ann_ranges p)) 8) 1
      | Frames frames \<Rightarrow> max (fold frame_cost frames (sat_add (max raw_len 1) (sat_mul (length frames) 48))) 1)"

text \<open>What the loop over the frames of a datagram changes.\<close>

record FrameLoop =
  lp_session :: Session
  lp_pipeline :: SessionPipeline
  lp_app_frames :: "Frame list"
  lp_decode_error :: "DecodeError option"
  lp_close_session :: bool
  lp_illegal_transition :: bool
  lp_remote_reason :: "RemoteDisconnectReason option"

fun process_frames :: "rounding \<Rightarrow> SocketAddr \<Rightarrow> SocketAddr \<Rightarrow> i64 \<Rightarrow> Frame list \<Rightarrow> FrameLoop \<Rightarrow> FrameLoop" where
  "process_frames rnd addr local_addr now_millis [] lp = lp"
| "process_frames rnd addr local_addr now_millis (frame # frames) lp =
     (case fr_payload frame of
        [] \<Rightarrow> process_frames rnd addr local_addr now_millis frames lp
      | i # _ \<Rightarrow>
          if \<not> is_connected_control_id i
          then (case route_inbound_app_frame (lp_pipeline lp) (ss_state (lp_session lp)) frame of
                  (Overflow, out, p) \<Rightarrow> lp\<lparr>lp_pipeline := p, lp_app_frames := lp_app_frames lp @ out, lp_close_session := True\<rparr>
                | (_, out, p) \<Rightarrow>
                    process_frames rnd addr local_addr now_millis frames
                      (lp\<lparr>lp_pipeline := p, lp_app_frames := lp_app_frames lp @ out\<rparr>))
          else case control_decode (fr_payload frame) of
                 Inl err \<Rightarrow> lp\<lparr>lp_decode_error := Some err\<rparr>
               | Inr (packet, _) \<Rightarrow>
                   (case apply_connected_control rnd (lp_session lp) addr local_addr now_millis packet of
                      (Inr CaNone, s) \<Rightarrow> process_frames rnd addr local_addr now_millis frames (lp\<lparr>lp_session := s\<rparr>)
                    | (Inr (CaCloseSession remote_reason illegal), s) \<Rightarrow>
                        lp\<lparr>lp_session := s, lp_close_session := True, lp_illegal_transition := illegal,
                           lp_remote_reason := (if lp_remote_reason lp = None then remote_reason else lp_remote_reason lp)\<rparr>
                    | (Inl err, s) \<Rightarrow> lp\<lparr>lp_session := s, lp_decode_error := Some err\<rparr>))"

section \<open>A received datagram\<close>

text \<open>What the block over the session and its pipeline yields: an error of \<^verbatim>\<open>ingest_datagram\<close>, or the loop's
  result with the receipts, the datagrams to send and whether the session has become connected.\<close>

record Ingested =
  ig_session :: Session
  ig_pipeline :: SessionPipeline
  ig_loop :: FrameLoop
  ig_frames :: "Frame list"
  ig_close_session :: bool
  ig_receipts :: ReceiptProgress
  ig_datagrams :: "Datagram list"
  ig_became_connected :: bool

definition ingest_connected :: "rounding \<Rightarrow> usize \<Rightarrow> Instant \<Rightarrow> SocketAddr \<Rightarrow> SocketAddr \<Rightarrow> i64 \<Rightarrow> Session \<Rightarrow> SessionPipeline \<Rightarrow> Datagram
    \<Rightarrow> (DecodeError \<times> Session) + Ingested" where
  "ingest_connected rnd mtu now addr local_addr now_millis session pipeline datagram =
     (case ingest_datagram (touch_activity session now) datagram now of
        (Inl err, s1) \<Rightarrow> Inl (err, s1)
      | (Inr frames, s1) \<Rightarrow>
          let (receipts, s2) = process_incoming_receipts rnd s1 now;
              was_connected = (ss_state s2 = Connected);
              lp = process_frames rnd addr local_addr now_millis frames
                     \<lparr>lp_session = s2, lp_pipeline = pipeline, lp_app_frames = [], lp_decode_error = None,
                      lp_close_session = False, lp_illegal_transition = False, lp_remote_reason = None\<rparr>;
              s3 = lp_session lp;
              (flushed, p3) = (if \<not> lp_close_session lp \<and> lp_decode_error lp = None
                               then (let (_, out, p) = flush_if_connected (lp_pipeline lp) (ss_state s3) in (out, p))
                               else ([], lp_pipeline lp));
              (immediate, s4) = (if lp_close_session lp then ([], s3)
                                 else on_tick rnd s3 now RECV_PATH_MAX_NEW_DATAGRAMS (sat_mul mtu RECV_PATH_MAX_NEW_DATAGRAMS)
                                        RECV_PATH_MAX_RESEND_DATAGRAMS (sat_mul mtu RECV_PATH_MAX_RESEND_DATAGRAMS));
              (asked, s5) = take_backpressure_disconnect s4
          in Inr \<lparr>ig_session = s5, ig_pipeline = p3, ig_loop = lp, ig_frames = lp_app_frames lp @ flushed,
                  ig_close_session = (lp_close_session lp \<or> asked), ig_receipts = receipts, ig_datagrams = immediate,
                  ig_became_connected = (\<not> was_connected \<and> ss_state s5 = Connected)\<rparr>)"

text \<open>What follows once the datagrams to send were sent.\<close>

definition finish_connected :: "ServerEnv \<Rightarrow> TransportServer \<Rightarrow> SocketAddr \<Rightarrow> Ingested \<Rightarrow> (Fault + TransportEvent) \<times> TransportServer" where
  "finish_connected e sv addr ig =
     (let reason = lp_remote_reason (ig_loop ig);
          sv1 = (if ig_close_session ig
                 then close_session e (case reason of Some r \<Rightarrow> record_remote_disconnect sv r | None \<Rightarrow> sv) addr else sv);
          frames = (if ig_close_session ig then [] else map delivery_from_frame (ig_frames ig))
      in case (ig_close_session ig, reason) of
           (True, Some r) \<Rightarrow> (Inr (EvPeerDisconnected addr r), sv1)
         | _ \<Rightarrow>
             let sv2 = (if ig_became_connected ig then tally ct_sessions_started_total_update sv1 else sv1);
                 client_guid = (if ig_became_connected ig
                                then Option.bind (map_of (sv_pending_handshakes sv2) addr) ph_client_guid else None);
                 sv3 = (if some_and (map_of (sv_sessions sv2) addr) (\<lambda>session. ss_state session = Connected)
                        then sv2\<lparr>sv_pending_handshakes := AList.delete addr (sv_pending_handshakes sv2)\<rparr> else sv2);
                 forwarded_bytes = sum_list (map (\<lambda>f. length (cd_payload f)) frames);
                 sv4 = sv3\<lparr>sv_counters := ct_bytes_forwarded_total_update (\<lambda>n. sat_add n forwarded_bytes)
                             (ct_packets_forwarded_total_update (\<lambda>n. sat_add n (length frames)) (sv_counters sv3))\<rparr>
             in (Inr (EvConnectedFrames addr client_guid frames (length frames) (ig_receipts ig)), sv4))"

text \<open>What follows the block over the session and its pipeline.\<close>

definition settle_ingested :: "ServerEnv \<Rightarrow> TransportServer \<Rightarrow> SocketAddr \<Rightarrow> Ingested \<Rightarrow> (Fault + TransportEvent) \<times> TransportServer" where
  "settle_ingested e sv addr ig =
     (let sv1 = sv\<lparr>sv_sessions := AList.update addr (ig_session ig) (sv_sessions sv),
                   sv_session_pipelines := AList.update addr (ig_pipeline ig) (sv_session_pipelines sv)\<rparr>
      in case lp_decode_error (ig_loop ig) of
           Some err \<Rightarrow> (Inr (EvDecodeError addr err), sv1)
         | None \<Rightarrow>
             (case (if lp_illegal_transition (ig_loop ig) then (Inr (), tally ct_illegal_state_transitions_update sv1)
                    else send_datagrams e sv1 (map (Pair addr) (ig_datagrams ig))) of
                (Inl fault, sv2) \<Rightarrow> (Inl fault, sv2)
              | (Inr _, sv2) \<Rightarrow> finish_connected e sv2 addr ig))"

definition handle_connected :: "ServerEnv \<Rightarrow> rounding \<Rightarrow> TransportServer \<Rightarrow> SocketAddr \<Rightarrow> Datagram
    \<Rightarrow> (Fault + TransportEvent) \<times> TransportServer" where
  "handle_connected e rnd sv addr datagram =
     (let config = sv_config sv;
          pipeline = (case map_of (sv_session_pipelines sv) addr of
                        Some p \<Rightarrow> p
                      | None \<Rightarrow> pipeline_new (tc_unhandled_queue_max_frames config) (tc_unhandled_queue_max_bytes config))
      in case (case map_of (sv_sessions sv) addr of
                 Some s \<Rightarrow> Some s
               | None \<Rightarrow> with_tunables rnd (e_clock e) (tc_mtu config) (tc_session_tunables config)) of
           None \<Rightarrow> (Inl Panicked, sv)
         | Some session \<Rightarrow>
             (case ingest_connected rnd (tc_mtu config) (e_now e) addr (server_addr e sv) (unix_timestamp_millis e)
                     session pipeline datagram of
                Inl (err, s1) \<Rightarrow>
                  (Inr (EvDecodeError addr err),
                   sv\<lparr>sv_sessions := AList.update addr s1 (sv_sessions sv),
                      sv_session_pipelines := AList.update addr pipeline (sv_session_pipelines sv)\<rparr>)
              | Inr ig \<Rightarrow> settle_ingested e sv addr ig))"

definition recv_connected :: "ServerEnv \<Rightarrow> rounding \<Rightarrow> TransportServer \<Rightarrow> SocketAddr \<Rightarrow> bytes \<Rightarrow> (Fault + TransportEvent) \<times> TransportServer" where
  "recv_connected e rnd sv addr raw =
     (case datagram_decode raw of
        Inl err \<Rightarrow> (Inr (EvDecodeError addr err), sv)
      | Inr (datagram, _) \<Rightarrow>
          if map_of (sv_sessions sv) addr = None \<and> map_of (sv_pending_handshakes sv) addr = None
          then (Inr (EvConnectedDatagramDroppedNoSession addr), sv)
          else if map_of (sv_sessions sv) addr = None \<and> length (sv_sessions sv) \<ge> tc_max_sessions (sv_config sv)
          then (Inr (EvSessionLimitReached addr), sv)
          else if (case dg_payload datagram of Frames _ \<Rightarrow> True | _ \<Rightarrow> False) \<and> \<not> is_exception (sv_rate_limiter sv) (addr_ip addr)
          then (let (decision, rl) = consume_processing_budget rnd (sv_rate_limiter sv) (addr_ip addr)
                      (estimate_connected_datagram_processing_cost (length raw) datagram) (e_now e);
                    sv1 = sv\<lparr>sv_rate_limiter := rl\<rparr>
                in if decision = PbAllow then handle_connected e rnd sv1 addr datagram else (Inr (EvRateLimited addr), sv1))
          else handle_connected e rnd sv addr datagram)"

definition route_inbound_addr :: "ServerEnv \<Rightarrow> TransportServer \<Rightarrow> SocketAddr \<Rightarrow> SocketAddr option \<times> TransportServer" where
  "route_inbound_addr e sv observed =
     (case sv_proxy_router sv of
        None \<Rightarrow> (Some observed, sv)
      | Some router \<Rightarrow>
          (case route_inbound router observed (server_addr e sv) of
             Local session_addr \<Rightarrow>
               (Some session_addr, if session_addr \<noteq> observed then tally ct_proxy_inbound_reroutes_update sv else sv)
           | InboundDrop \<Rightarrow> (None, tally ct_proxy_inbound_drops_update sv)))"

definition recv_and_process :: "ServerEnv \<Rightarrow> (bytes \<Rightarrow> bytes \<Rightarrow> bytes) \<Rightarrow> rounding \<Rightarrow> TransportServer \<Rightarrow> SocketAddr \<Rightarrow> bytes
    \<Rightarrow> (Fault + TransportEvent) \<times> TransportServer" where
  "recv_and_process e hmac rnd sv observed raw =
     (case route_inbound_addr e sv observed of
        (None, sv0) \<Rightarrow> (Inr (EvProxyDropped observed), sv0)
      | (Some addr, sv0) \<Rightarrow>
          let sv1 = tick_limiter e (housekeeping e sv0 (Some addr))
          in case raw of
               [] \<Rightarrow> (Inr (EvDecodeError addr UnexpectedEof), sv1)
             | first # _ \<Rightarrow>
                 let is_offline = is_offline_packet_id first;
                     (decision, rl) = limiter_check (sv_rate_limiter sv1) (addr_ip addr) (e_now e);
                     sv2 = sv1\<lparr>sv_rate_limiter := rl\<rparr>
                 in case decision of
                      GlobalLimit \<Rightarrow> (Inr (EvRateLimited addr), sv2)
                    | IpBlocked newly _ \<Rightarrow>
                        if is_offline \<and> newly then and_return (send_connection_banned e sv2 addr) (EvRateLimited addr)
                        else (Inr (EvRateLimited addr), sv2)
                    | RlAllow \<Rightarrow>
                        if \<not> is_offline then recv_connected e rnd sv2 addr raw
                        else case offline_decode_with_magic (tc_unconnected_magic (sv_config sv2)) raw of
                               Inl err \<Rightarrow> (Inr (EvDecodeError addr err), sv2)
                             | Inr (packet, _) \<Rightarrow>
                                 (case handle_offline_packet e hmac rnd sv2 addr packet of
                                    (Inl fault, sv3) \<Rightarrow> (Inl fault, sv3)
                                  | (Inr (Some event), sv3) \<Rightarrow> (Inr event, sv3)
                                  | (Inr None, sv3) \<Rightarrow> (Inr (EvOfflinePacket addr packet), sv3)))"

section \<open>The outgoing side\<close>

definition dispatch_payload :: "ServerEnv \<Rightarrow> rounding \<Rightarrow> TransportServer \<Rightarrow> SocketAddr \<Rightarrow> bytes \<Rightarrow> Reliability \<Rightarrow> u8 \<Rightarrow> RakPriority
    \<Rightarrow> u64 option \<Rightarrow> QueueDispatchResult \<times> TransportServer" where
  "dispatch_payload e rnd sv addr payload reliability channel priority receipt_id =
     (case map_of (sv_sessions sv) addr of
        None \<Rightarrow> (QdMissingSession, sv)
      | Some session \<Rightarrow>
          let (decision, s1) = queue_payload_with_receipt rnd session payload reliability channel priority receipt_id;
              (asked, s2) = (if decision = DisconnectRequested then (True, s1) else take_backpressure_disconnect s1);
              sv1 = sv\<lparr>sv_sessions := AList.update addr s2 (sv_sessions sv)\<rparr>
          in if asked then (QdDisconnected, close_session e sv1 addr)
             else (case decision of
                     Enqueued reliable_bytes \<Rightarrow> QdEnqueued reliable_bytes
                   | Dropped \<Rightarrow> QdDropped
                   | Deferred \<Rightarrow> QdDeferred
                   | DisconnectRequested \<Rightarrow> QdDisconnected, sv1))"

definition server_queue_payload :: "ServerEnv \<Rightarrow> rounding \<Rightarrow> TransportServer \<Rightarrow> SocketAddr \<Rightarrow> bytes \<Rightarrow> Reliability \<Rightarrow> u8 \<Rightarrow> RakPriority
    \<Rightarrow> QueueDispatchResult \<times> TransportServer" where
  "server_queue_payload e rnd sv addr payload reliability channel priority =
     dispatch_payload e rnd sv addr payload reliability channel priority None"

definition server_queue_payload_with_receipt :: "ServerEnv \<Rightarrow> rounding \<Rightarrow> TransportServer \<Rightarrow> SocketAddr \<Rightarrow> bytes \<Rightarrow> Reliability
    \<Rightarrow> u8 \<Rightarrow> RakPriority \<Rightarrow> u64 \<Rightarrow> QueueDispatchResult \<times> TransportServer" where
  "server_queue_payload_with_receipt e rnd sv addr payload reliability channel priority receipt_id =
     dispatch_payload e rnd sv addr payload reliability channel priority (Some receipt_id)"

text \<open>The body of the loop over the sessions in \<^verbatim>\<open>queue_keepalive_pings\<close>: the session, whether a ping was
  queued and whether the session is to be closed.\<close>

definition keepalive_session :: "rounding \<Rightarrow> Instant \<Rightarrow> Duration \<Rightarrow> i64 \<Rightarrow> Session \<Rightarrow> Session \<times> bool \<times> bool" where
  "keepalive_session rnd now interval now_millis s =
     (if \<not> should_send_keepalive s now interval then (s, False, False)
      else let (r, s1) = queue_connected_control_packet rnd s (ConnectedPing now_millis) Unreliable 0 Low;
               pinged = (case r of Inr (Enqueued _) \<Rightarrow> True | _ \<Rightarrow> False);
               s2 = (if pinged then mark_keepalive_sent s1 now else s1);
               (asked, s3) = take_backpressure_disconnect s2
           in (s3, pinged, asked))"

definition queue_keepalive_pings :: "ServerEnv \<Rightarrow> rounding \<Rightarrow> TransportServer \<Rightarrow> TransportServer" where
  "queue_keepalive_pings e rnd sv =
     (let interval = tc_session_keepalive_interval (sv_config sv)
      in if interval = 0 then sv
         else let results = map (\<lambda>(addr, s). (addr, keepalive_session rnd (e_now e) interval (unix_timestamp_millis e) s)) (sv_sessions sv);
                  sv1 = sv\<lparr>sv_sessions := map (\<lambda>(addr, s, _, _). (addr, s)) results,
                           sv_counters := ct_keepalive_pings_sent_update
                             (\<lambda>n. sat_add n (length (filter (\<lambda>(_, _, pinged, _). pinged) results))) (sv_counters sv)\<rparr>
              in foldl (close_session e) sv1 (map fst (filter (\<lambda>(_, _, _, asked). asked) results)))"

definition tick_outbound :: "ServerEnv \<Rightarrow> rounding \<Rightarrow> TransportServer \<Rightarrow> usize \<Rightarrow> usize \<Rightarrow> usize \<Rightarrow> usize \<Rightarrow> (Fault + usize) \<times> TransportServer" where
  "tick_outbound e rnd sv max_new max_new_bytes max_resend max_resend_bytes =
     (let sv1 = tick_limiter e (queue_keepalive_pings e rnd (housekeeping e sv None));
          results = map (\<lambda>(addr, s). (addr, on_tick rnd s (e_now e) max_new max_new_bytes max_resend max_resend_bytes)) (sv_sessions sv1);
          sv2 = sv1\<lparr>sv_sessions := map (\<lambda>(addr, _, s). (addr, s)) results\<rparr>;
          pending = concat (map (\<lambda>(addr, ds, _). map (Pair addr) ds) results)
      in and_return (send_datagrams e sv2 pending) (length pending))"

definition flush_resends :: "ServerEnv \<Rightarrow> rounding \<Rightarrow> TransportServer \<Rightarrow> usize \<Rightarrow> usize \<Rightarrow> (Fault + usize) \<times> TransportServer" where
  "flush_resends e rnd sv max_per_session max_bytes_per_session = tick_outbound e rnd sv 0 0 max_per_session max_bytes_per_session"

end
