(* ===== verification/SessionQuiet.thy ===== *)
theory SessionQuiet
  imports SessionTick
begin

text \<open>
  What the operations of a session leave alone: none of them but \<^verbatim>\<open>transition_to\<close>, \<^verbatim>\<open>set_mtu\<close> and
  \<^verbatim>\<open>touch_activity\<close> changes the state of the session, its MTU or the time of the last activity, and all
  of them keep the bounds on what is held for receiving.  The transport server relies on this.
\<close>

definition quiet :: "Session \<Rightarrow> Session \<Rightarrow> bool" where
  "quiet s s' \<longleftrightarrow> ss_state s' = ss_state s \<and> ss_mtu s' = ss_mtu s \<and> ss_last_activity s' = ss_last_activity s
     \<and> (receive_ok s \<longrightarrow> receive_ok s')"

lemma quiet_refl [simp]: "quiet s s"
  by (simp add: quiet_def)

lemma quiet_trans [trans]: "quiet s s1 \<Longrightarrow> quiet s1 s2 \<Longrightarrow> quiet s s2"
  by (simp add: quiet_def)

lemma quietI:
  assumes "ss_state s' = ss_state s" "ss_mtu s' = ss_mtu s" "ss_last_activity s' = ss_last_activity s"
    and "ss_reliable_tracker s' = ss_reliable_tracker s" "ss_ordering s' = ss_ordering s"
      "ss_split_assembler s' = ss_split_assembler s" "ss_outgoing_acks s' = ss_outgoing_acks s"
      "ss_outgoing_nacks s' = ss_outgoing_nacks s"
  shows "quiet s s'"
  using assms by (simp add: quiet_def receive_ok_def)

section \<open>Receiving\<close>

lemma push_fields_other [simp]:
  "ss_state (push_ack s r now) = ss_state s" "ss_mtu (push_ack s r now) = ss_mtu s"
  "ss_last_activity (push_ack s r now) = ss_last_activity s"
  "ss_state (push_nack s r now) = ss_state s" "ss_mtu (push_nack s r now) = ss_mtu s"
  "ss_last_activity (push_nack s r now) = ss_last_activity s"
  by (simp_all add: push_ack_def push_nack_def Let_def)

lemma nack_gap_other [simp]:
  "ss_state (nack_gap s a b now) = ss_state s" "ss_mtu (nack_gap s a b now) = ss_mtu s"
  "ss_last_activity (nack_gap s a b now) = ss_last_activity s"
  by (induction s a b now rule: nack_gap.induct; subst nack_gap.simps; simp add: Let_def)+

lemma process_datagram_sequence_quiet: "quiet s (process_datagram_sequence s seq now)"
  using process_datagram_sequence_ok [of s seq now]
  by (simp add: quiet_def process_datagram_sequence_def Let_def)

lemma handle_frame_quiet: "handle_frame s f now = (res, s') \<Longrightarrow> quiet s s'"
  using handle_frame_ok [of s f now res s']
  by (auto simp: quiet_def handle_frame_def deliver_frame_def mark_seen_def Let_def
      split: if_splits prod.splits sum.splits option.splits OrderedResult.splits SequencedResult.splits)

lemma handle_frames_quiet: "handle_frames s fs now out = (res, s') \<Longrightarrow> quiet s s'"
proof (induction fs arbitrary: s out)
  case (Cons f fs)
  obtain r s1 where h: "handle_frame s f now = (r, s1)" by fastforce
  show ?case using Cons handle_frame_quiet [OF h] by (cases r) (auto simp: h intro: quiet_trans)
qed simp

lemma ingest_datagram_quiet: "ingest_datagram s d now = (res, s') \<Longrightarrow> quiet s s'"
proof -
  assume run: "ingest_datagram s d now = (res, s')"
  have "ss_state s' = ss_state s \<and> ss_mtu s' = ss_mtu s \<and> ss_last_activity s' = ss_last_activity s"
  proof (cases "dg_payload d")
    case (Frames fs)
    define s1 where "s1 = bump m_ingress_datagrams_update s\<lparr>ss_metrics :=
      (ss_metrics (bump m_ingress_datagrams_update s))\<lparr>m_ingress_frames := sat_add (m_ingress_frames (ss_metrics (bump m_ingress_datagrams_update s))) (length fs)\<rparr>\<rparr>"
    have 1: "quiet s s1" "handle_frames (process_datagram_sequence s1 (dh_sequence (dg_header d)) now) fs now [] = (res, s')"
      using run by (auto simp: s1_def ingest_datagram_def Let_def Frames intro: quietI)
    show ?thesis
      using quiet_trans [OF 1(1) quiet_trans [OF process_datagram_sequence_quiet handle_frames_quiet [OF 1(2)]]]
      by (simp add: quiet_def)
  qed (use run in \<open>auto simp: ingest_datagram_def Let_def handle_ack_payload_def handle_nack_payload_def\<close>)
  with ingest_datagram_ok [OF _ run] show ?thesis by (simp add: quiet_def)
qed

section \<open>The controllers and the receipts of the peer\<close>

lemma controllers_quiet:
  "quiet s (on_reliable_ack rnd s)" "quiet s (observe_rtt_sample rnd s d)" "quiet s (on_timeout rnd s now)"
  "quiet s (on_nack_loss rnd s now)" "quiet s (refresh_pacing_budget rnd s now)" "quiet s (consume_pacing_budget rnd s n)"
  by (auto intro!: quietI simp: on_reliable_ack_def observe_rtt_sample_def recompute_rto_from_rtt_def on_timeout_def
      on_nack_loss_def apply_loss_backoff_def refresh_pacing_budget_def consume_pacing_budget_def Let_def
      split: option.splits f64.splits)

lemma settle_receipt_quiet: "quiet s (fst (settle_receipt r (s, p)))"
  by (auto simp: settle_receipt_def intro!: quietI split: option.split)

lemma settle_receipts_quiet: "quiet s (fst (fold settle_receipt rs (s, p)))"
proof (induction rs arbitrary: s p)
  case (Cons r rs)
  obtain s1 p1 where 1: "settle_receipt r (s, p) = (s1, p1)" by fastforce
  show ?case using quiet_trans [OF _ Cons, of s s1] settle_receipt_quiet [of s r p] 1 by simp
qed simp

lemma ack_sequence_quiet: "quiet s (fst (ack_sequence rnd now seq (s, p)))"
proof (cases "bt_get seq_cmp (ss_sent_datagrams s) seq")
  case (Some t)
  define s0 where "s0 = s\<lparr>ss_sent_datagrams := bt_remove seq_cmp seq (ss_sent_datagrams s)\<rparr>"
  define s2 where "s2 = (if td_retries t = 0 then observe_rtt_sample rnd (on_reliable_ack rnd s0) (now - td_send_time t) else on_reliable_ack rnd s0)"
  have "quiet s s0" by (auto simp: s0_def intro: quietI)
  also have "quiet s0 s2" by (auto simp: s2_def intro: controllers_quiet quiet_trans)
  also have "quiet s2 (fst (ack_sequence rnd now seq (s, p)))"
    using settle_receipts_quiet by (simp add: ack_sequence_def Some Let_def flip: s0_def s2_def)
  finally show ?thesis .
qed (simp add: ack_sequence_def)

lemma nack_sequence_quiet: "quiet s (fst (nack_sequence now seq (s, p)))"
  by (auto simp: nack_sequence_def intro!: quietI split: option.split)

lemma fold_quiet:
  assumes "\<And>x s p. quiet s (fst (f x (s, p)))"
  shows "quiet s (fst (fold f xs (s, p)))"
proof (induction xs arbitrary: s p)
  case (Cons x xs)
  obtain s1 p1 where 1: "f x (s, p) = (s1, p1)" by fastforce
  show ?case using quiet_trans [OF _ Cons, of s s1] assms [of s x p] 1 by simp
qed simp

lemma for_each_range_quiet:
  assumes "\<And>x s p. quiet s (fst (f x (s, p)))"
  shows "quiet s (fst (for_each_range f rs (s, p)))"
  unfolding for_each_range_def
proof (rule fold_quiet)
  show "quiet s (fst (for_each_sequence (sr_start r) (sr_end r) f (s, p)))" for r s p
    unfolding for_each_sequence_fold by (rule fold_quiet [OF assms])
qed

lemma quiet_metrics: "quiet s (s\<lparr>ss_metrics := m\<rparr>)" "quiet s (s\<lparr>ss_incoming_acks := x\<rparr>)" "quiet s (s\<lparr>ss_incoming_nacks := x\<rparr>)"
  by (auto intro: quietI)

lemma process_incoming_receipts_quiet:
  assumes "process_incoming_receipts rnd s now = (p, s')"
  shows "quiet s s'"
proof -
  define r1 where "r1 = for_each_range (ack_sequence rnd now) (ss_incoming_acks s) (s\<lparr>ss_incoming_acks := []\<rparr>, receipt_progress_default)"
  define s2 where "s2 = (fst r1)\<lparr>ss_metrics := m_acked_datagrams_update (\<lambda>n. sat_add n (rp_acked (snd r1))) (ss_metrics (fst r1))\<rparr>"
  define r3 where "r3 = for_each_range (nack_sequence now) (ss_incoming_nacks s2) (s2\<lparr>ss_incoming_nacks := []\<rparr>, snd r1)"
  define s4 where "s4 = (if rp_nacked (snd r3) > 0 then on_nack_loss rnd (fst r3) now else fst r3)"
  have s': "s' = s4\<lparr>ss_metrics := m_nacked_datagrams_update (\<lambda>n. sat_add n (rp_nacked (snd r3))) (ss_metrics s4)\<rparr>"
    using arg_cong [OF assms, of snd] unfolding process_incoming_receipts_def Let_def split_beta snd_conv
    unfolding r1_def [symmetric] unfolding s2_def [symmetric] unfolding r3_def [symmetric] unfolding s4_def [symmetric] by (rule sym)
  have "quiet s (s\<lparr>ss_incoming_acks := []\<rparr>)" by (rule quiet_metrics)
  also have "quiet (s\<lparr>ss_incoming_acks := []\<rparr>) (fst r1)" unfolding r1_def by (rule for_each_range_quiet [OF ack_sequence_quiet])
  also have "quiet (fst r1) s2" unfolding s2_def by (rule quiet_metrics)
  also have "quiet s2 (s2\<lparr>ss_incoming_nacks := []\<rparr>)" by (rule quiet_metrics)
  also have "quiet (s2\<lparr>ss_incoming_nacks := []\<rparr>) (fst r3)" unfolding r3_def by (rule for_each_range_quiet [OF nack_sequence_quiet])
  also have "quiet (fst r3) s4" by (simp add: s4_def controllers_quiet)
  also have "quiet s4 s'" unfolding s' by (rule quiet_metrics)
  finally show ?thesis .
qed

section \<open>Sending\<close>

lemma collect_resendable_quiet: "collect_resendable rnd s now n b = (ds, s') \<Longrightarrow> quiet s s'"
proof -
  assume run: "collect_resendable rnd s now n b = (ds, s')"
  have one: "quiet s (snd (resend_one now nx seq (out, s)))" for nx seq out s
    by (auto simp: resend_one_def intro!: quietI split: option.split)
  have all: "quiet s (snd (fold (resend_one now nx) sel (out, s)))" for nx sel out s
  proof (induction sel arbitrary: out s)
    case (Cons k sel)
    obtain out1 s1 where 1: "resend_one now nx k (out, s) = (out1, s1)" by fastforce
    show ?case using quiet_trans [OF _ Cons, of s s1] one [of s nx k out] 1 by simp
  qed simp
  obtain sel to where sel: "select_resendable now n b (ss_sent_datagrams s) 0 [] False = (sel, to)" by fastforce
  show ?thesis
  proof (cases "sel = []")
    case False
    let ?s1 = "if to then on_timeout rnd s now else s"
    have "quiet s ?s1" by (simp add: controllers_quiet)
    then show ?thesis
      using run False all [of ?s1 "now + ss_resend_rto ?s1" sel "[]"]
      by (auto simp: collect_resendable_def sel Let_def split: if_splits intro: quiet_trans)
  qed (use run in \<open>simp add: collect_resendable_def sel\<close>)
qed

lemma fill_datagram_quiet: "fill_datagram rnd s budget b = (b', budget', s') \<Longrightarrow> quiet s s'"
proof (induction rnd s budget b rule: fill_datagram.induct)
  case (1 rnd s budget b)
  let ?allow = "bd_has_reliable b \<or> can_emit_new_reliable_datagram rnd s"
  obtain sel s1 where p: "pop_next_frame_for_datagram s ?allow (bd_size b) budget = (sel, s1)" by fastforce
  have q: "quiet s s1" using p by (auto simp: pop_next_frame_for_datagram_def intro!: quietI split: prod.splits)
  show ?case
  proof (cases sel)
    case None
    then show ?thesis using 1(2) p q by (subst (asm) fill_datagram.simps) simp
  next
    case (Some item)
    let ?s2 = "s1\<lparr>ss_outgoing_queued_bytes := ss_outgoing_queued_bytes s1 - qf_encoded_size item\<rparr>"
    have "fill_datagram rnd ?s2 (budget - qf_encoded_size item) (add_queued b item) = (b', budget', s')"
      using 1(2) p Some by (subst (asm) fill_datagram.simps) simp
    then have "quiet ?s2 s'" using 1(1) [OF HOL.refl] p Some by simp
    moreover have "quiet s1 ?s2" by (auto intro: quietI)
    ultimately show ?thesis using q quiet_trans by blast
  qed
qed

lemma count_receipts_quiet: "quiet s (fold count_receipt rs s)"
proof (induction rs arbitrary: s)
  case (Cons r rs)
  have "quiet s (count_receipt r s)" by (auto simp: count_receipt_def intro: quietI)
  with Cons [of "count_receipt r s"] show ?case by (auto intro: quiet_trans)
qed simp

lemma quiet_sent: "quiet s (s\<lparr>ss_sent_datagrams := x\<rparr>)"
  by (auto intro: quietI)

lemma track_quiet: "quiet s (track_sent_reliable_datagram s d now rs)"
proof -
  let ?s1 = "if has_frame_with is_reliable (dg_payload d) then bump m_reliable_sent_datagrams_update s else s"
  have "quiet s ?s1" by (auto intro: quietI)
  then have "quiet s (fold count_receipt rs ?s1)" by (rule quiet_trans [OF _ count_receipts_quiet])
  then have "quiet s ((fold count_receipt rs ?s1)\<lparr>ss_sent_datagrams := x\<rparr>)" for x by (rule quiet_trans [OF _ quiet_sent])
  then show ?thesis unfolding track_sent_reliable_datagram_def Let_def by simp
qed

lemma build_data_datagram_quiet: "build_data_datagram rnd s now budget = (d, budget', s') \<Longrightarrow> quiet s s'"
proof -
  assume run: "build_data_datagram rnd s now budget = (d, budget', s')"
  obtain b budget1 s1 where f: "fill_datagram rnd s budget start_building = (b, budget1, s1)" by (metis prod_cases3)
  obtain seq s2 where n: "next_datagram_sequence s1 = (seq, s2)" by fastforce
  have "quiet s1 s2" using n by (auto simp: next_datagram_sequence_def intro: quietI)
  with fill_datagram_quiet [OF f] have "quiet s s2" "quiet s s1" by (auto intro: quiet_trans)
  with run show ?thesis
    by (auto simp: build_data_datagram_def f n Let_def split: if_splits intro: quiet_trans [OF _ track_quiet])
qed

lemma emit_datagrams_quiet: "emit_datagrams rnd now k s remaining used = (ds, used', s') \<Longrightarrow> quiet s s'"
proof (induction k arbitrary: s remaining used ds)
  case (Suc k)
  obtain d rem s1 where b: "build_data_datagram rnd s now remaining = (d, rem, s1)" by (metis prod_cases3)
  note q = build_data_datagram_quiet [OF b]
  show ?case
    using Suc q by (auto simp: b Let_def split: option.splits if_splits prod.splits intro: quiet_trans)
qed simp

lemma flush_control_quiet: "flush_control s now = (ds, s') \<Longrightarrow> quiet s s'"
proof -
  have len: "length (aq_queue (snd (pop_for_mtu q mtu base mx))) \<le> length (aq_queue q)" for q mtu base mx
    using pop_for_mtu_split [of q mtu base mx] by (cases "pop_for_mtu q mtu base mx") (metis snd_conv length_append le_add2)
  have mx: "aq_max_ranges (snd (pop_for_mtu q mtu base m)) = aq_max_ranges q" for q mtu base m
    by (simp add: pop_for_mtu_def split_beta)
  have ack: "quiet s (snd (flush_ack_if_due s now))" and nack: "quiet s (snd (flush_nack_if_due s now))" for s
    using len [of "ss_outgoing_acks s" "ss_mtu s" 3 "ss_ack_max_ranges_per_datagram s"] mx [of "ss_outgoing_acks s" "ss_mtu s" 3 "ss_ack_max_ranges_per_datagram s"]
      len [of "ss_outgoing_nacks s" "ss_mtu s" 3 "ss_nack_max_ranges_per_datagram s"] mx [of "ss_outgoing_nacks s" "ss_mtu s" 3 "ss_nack_max_ranges_per_datagram s"]
    by (auto simp: flush_ack_if_due_def flush_nack_if_due_def drain_ack_datagram_def drain_nack_datagram_def quiet_def receive_ok_def Let_def split_beta)
  assume "flush_control s now = (ds, s')"
  then show ?thesis
    using ack nack by (auto simp: flush_control_def Let_def split_beta split: AckNackPriority.splits intro: quiet_trans)
qed

lemma on_tick_quiet: "on_tick rnd s now a b c d = (ds, s') \<Longrightarrow> quiet s s'"
proof -
  assume run: "on_tick rnd s now a b c d = (ds, s')"
  define s1 where "s1 = refresh_pacing_budget rnd s now"
  obtain control s2 where 2: "flush_control s1 now = (control, s2)" by fastforce
  obtain resends s3 where 3: "collect_resendable rnd s2 now c (min d (pacing_allowance s2)) = (resends, s3)" by fastforce
  define s4 where "s4 = consume_pacing_budget rnd s3 (sum_list (map datagram_encoded_size resends))"
  obtain news used s5 where 5: "emit_datagrams rnd now a s4 (new_bytes_budget s4 b) 0 = (news, used, s5)" by (metis prod_cases3)
  define s6 where "s6 = consume_pacing_budget rnd s5 used"
  have s': "s' = snd (prune_split_state s6 now)"
    using run by (simp add: on_tick_def Let_def 2 3 5 split_beta flip: s1_def s4_def s6_def)
  have "quiet s s1" "quiet s3 s4" "quiet s5 s6" by (simp_all add: s1_def s4_def s6_def controllers_quiet)
  moreover have "quiet s6 s'"
    using split_prune_ok [of "ss_split_assembler s6" now]
    by (auto simp: s' prune_split_state_def quiet_def receive_ok_def split_beta)
  ultimately show ?thesis
    by (metis quiet_trans flush_control_quiet [OF 2] collect_resendable_quiet [OF 3] emit_datagrams_quiet [OF 5])
qed

section \<open>Queueing\<close>

lemma push_outgoing_frame_quiet: "quiet s (push_outgoing_frame s f pr rid)"
  by (auto simp: push_outgoing_frame_def next_weight_def Let_def split_beta intro!: quietI)

lemma next_indices_quiet:
  "quiet s (snd (next_ordering_index_if_needed s rel ch))" "quiet s (snd (next_sequence_index_if_needed s rel ch))"
  "quiet s (snd (next_reliable_index_if_needed s rel))"
  by (auto simp: next_ordering_index_if_needed_def next_sequence_index_if_needed_def next_reliable_index_if_needed_def
      next_reliable_index_def Let_def split_beta intro!: quietI)

lemma enqueue_parts_quiet: "quiet s (snd (enqueue_parts rel ch pr rid si oi m n pid idxs s payload rb))"
proof (induction idxs arbitrary: s payload rb)
  case (Cons i idxs)
  have "quiet s (push_outgoing_frame (snd (next_reliable_index_if_needed s rel)) f pr rid)" for f
    by (rule quiet_trans [OF next_indices_quiet(3) push_outgoing_frame_quiet])
  then show ?case by (auto simp: Let_def split_beta intro: quiet_trans [OF _ Cons])
qed simp

lemma queue_payload_quiet: "queue_payload_with_receipt rnd s payload rel ch pr rid = (res, s') \<Longrightarrow> quiet s s'"
proof -
  assume run: "queue_payload_with_receipt rnd s payload rel ch pr rid = (res, s')"
  have single: "quiet s (snd (enqueue_single_frame s payload rel ch pr rid))"
    unfolding enqueue_single_frame_def Let_def split_beta snd_conv
    by (rule quiet_trans [OF quiet_trans [OF quiet_trans [OF next_indices_quiet(1) next_indices_quiet(2)] next_indices_quiet(3)] push_outgoing_frame_quiet])
  have "quiet s (s\<lparr>ss_split_write_index := ss_split_write_index s + 1\<rparr>)" by (auto intro: quietI)
  then have split: "quiet s (snd (enqueue_split_frames s payload rel ch pr rid))"
    unfolding enqueue_split_frames_def Let_def split_beta
    by (rule quiet_trans [OF quiet_trans [OF quiet_trans [OF _ next_indices_quiet(1)] next_indices_quiet(2)] enqueue_parts_quiet])
  show ?thesis
    using run single split
    by (auto simp: queue_payload_with_receipt_def Let_def split: prod.splits if_splits BackpressureAction.splits intro!: quietI)
qed

lemma take_backpressure_quiet: "take_backpressure_disconnect s = (b, s') \<Longrightarrow> quiet s s'"
  by (auto simp: take_backpressure_disconnect_def intro!: quietI)

end
