(* ===== verification/ServerInvariant.thy ===== *)
theory ServerInvariant
  imports ServerReceive SessionQuiet
begin

text \<open>
  The invariant of the transport server.  Sessions, pipelines and pending handshakes are kept for the
  same addresses; at most the configured number of sessions exists; a session without a pending
  handshake is connected, and one with a pending handshake is in a state that fits its stage; and
  everything kept for receiving is bounded; new sessions can be created with the configured tunables;
  and the configuration is the one the server was started with, apart from the settings of the rate limiter.  The operations fall into those that leave these tables
  alone, those that close sessions, and the handlers that update the entry of one address.
\<close>

section \<open>The invariant\<close>

definition stage_ok :: "PendingHandshake option \<Rightarrow> SessionState \<Rightarrow> bool" where
  "stage_ok pending state =
     (case pending of
        None \<Rightarrow> state = Connected
      | Some p \<Rightarrow>
          (case ph_stage p of
             AwaitingRequest2 \<Rightarrow> state = Reply1Sent
           | AwaitingConnectionRequest \<Rightarrow> state \<in> {Reply2Sent, ConnReqRecv, ConnReqAcceptedSent, Connected}))"

definition pipeline_fits :: "TransportConfig \<Rightarrow> SessionPipeline \<Rightarrow> bool" where
  "pipeline_fits c p \<longleftrightarrow> pipeline_ok p \<and> sp_max_unhandled_frames p = max (tc_unhandled_queue_max_frames c) 1
     \<and> sp_max_unhandled_bytes p = max (tc_unhandled_queue_max_bytes c) 1"

definition tables_ok :: "TransportConfig \<Rightarrow> (SocketAddr \<times> Session) list \<Rightarrow> (SocketAddr \<times> SessionPipeline) list
    \<Rightarrow> (SocketAddr \<times> PendingHandshake) list \<Rightarrow> bool" where
  "tables_ok c ss ps ph \<longleftrightarrow>
     keys_distinct ss \<and> keys_distinct ps \<and> keys_distinct ph
     \<and> length ss \<le> tc_max_sessions c
     \<and> (\<forall>a. map_of ss a = None \<longrightarrow> map_of ps a = None \<and> map_of ph a = None)
     \<and> (\<forall>a s. map_of ss a = Some s \<longrightarrow> stage_ok (map_of ph a) (ss_state s) \<and> receive_ok s)
     \<and> (\<forall>a p. map_of ps a = Some p \<longrightarrow> pipeline_fits c p)"

text \<open>A server runs with the configuration it was started with, apart from the settings of the rate limiter.\<close>

definition core_config :: "TransportConfig \<Rightarrow> TransportConfig" where
  "core_config c = c\<lparr>tc_per_ip_packet_limit := 1, tc_global_packet_limit := 1, tc_rate_window := 1, tc_block_duration := 1,
     tc_processing_budget := budget_default\<rparr>"

definition server_ok :: "TransportConfig \<Rightarrow> TransportServer \<Rightarrow> bool" where
  "server_ok k sv \<longleftrightarrow> tables_ok (sv_config sv) (sv_sessions sv) (sv_session_pipelines sv) (sv_pending_handshakes sv)
     \<and> tc_unhandled_queue_max_bytes (sv_config sv) < U64_MAX \<and> real_params (tc_session_tunables (sv_config sv)) \<noteq> None
     \<and> core_config (sv_config sv) = core_config k"

section \<open>Operations that leave the tables alone\<close>

definition same_tables :: "TransportServer \<Rightarrow> TransportServer \<Rightarrow> bool" where
  "same_tables sv sv' \<longleftrightarrow> sv_config sv' = sv_config sv \<and> sv_sessions sv' = sv_sessions sv
     \<and> sv_session_pipelines sv' = sv_session_pipelines sv \<and> sv_pending_handshakes sv' = sv_pending_handshakes sv
     \<and> sv_advertisement_bytes sv' = sv_advertisement_bytes sv"

lemma same_tables_refl [simp]: "same_tables sv sv"
  by (simp add: same_tables_def)

lemma same_tables_trans [trans]: "same_tables sv sv1 \<Longrightarrow> same_tables sv1 sv2 \<Longrightarrow> same_tables sv sv2"
  by (simp add: same_tables_def)

lemma same_tables_ok: "same_tables sv sv' \<Longrightarrow> server_ok k sv \<Longrightarrow> server_ok k sv'"
  by (simp add: same_tables_def server_ok_def)

lemma same_tables_simple:
  "same_tables sv (tally f sv)" "same_tables sv (sv\<lparr>sv_rate_limiter := rl\<rparr>)" "same_tables sv (sv\<lparr>sv_counters := ct\<rparr>)"
  "same_tables sv (clear_cookie_mismatch_state sv ip)" "same_tables sv (prune_cookie_mismatch_guard_states sv now)"
  "same_tables sv (prune_handshake_heuristic_states sv now)" "same_tables sv (mark_ip_recently_connected sv addr now)"
  "same_tables sv (prune_ip_recently_connected sv now)" "same_tables sv (snd (is_ip_recently_connected sv addr now))"
  "same_tables sv (rotate_cookie_keys_if_needed e sv)"
  by (simp_all add: same_tables_def tally_def clear_cookie_mismatch_state_def prune_cookie_mismatch_guard_states_def
      prune_handshake_heuristic_states_def mark_ip_recently_connected_def prune_ip_recently_connected_def
      is_ip_recently_connected_def rotate_cookie_keys_if_needed_def Let_def)

lemma same_tables_remote: "same_tables sv (record_remote_disconnect sv r)"
  by (cases r) (simp_all add: same_tables_simple)

lemma same_tables_timeout: "same_tables sv (count_timeout st sv)"
  by (cases st) (simp_all add: same_tables_simple)

lemma same_tables_records:
  "same_tables sv (snd (record_cookie_mismatch sv ip now))" "same_tables sv (snd (record_handshake_violation sv addr v now))"
  by (simp_all add: same_tables_def record_cookie_mismatch_def record_handshake_violation_def tally_def Let_def split_beta)

lemma same_tables_send: "same_tables sv (snd (send_encoded e sv addr enc))"
  by (auto simp: same_tables_def send_encoded_def route_outbound_target_def tally_def
      split: option.splits OutboundProxyRoute.splits sum.splits prod.splits)

lemma same_tables_sends: "same_tables sv (snd (send_datagrams e sv ds))"
proof (induction ds arbitrary: sv)
  case (Cons d ds)
  obtain addr dg where d: "d = (addr, dg)" by (cases d)
  obtain r sv1 where r: "send_datagram e sv addr dg = (r, sv1)" by fastforce
  have "same_tables sv sv1" using same_tables_send [of sv e addr "datagram_encode dg"] r by (simp add: send_datagram_def)
  with Cons [of sv1] show ?case by (cases r) (auto simp: d r intro: same_tables_trans)
qed simp

lemma snd_and_return: "snd (and_return res r) = snd res"
  by (auto simp: and_return_def split: prod.splits sum.splits)

lemma same_tables_replies:
  "same_tables sv (snd (and_return (send_offline_packet e sv addr p) r))"
  "same_tables sv (snd (and_return (send_connection_banned e sv addr) r))"
  "same_tables sv (snd (and_return (send_already_connected e sv addr) r))"
  "same_tables sv (snd (and_return (send_ip_recently_connected e sv addr) r))"
  "same_tables sv (snd (and_return (send_no_free_incoming_connections e sv addr) r))"
  by (simp_all add: snd_and_return same_tables_send send_offline_packet_def send_connection_banned_def
      send_already_connected_def send_ip_recently_connected_def send_no_free_incoming_connections_def)

section \<open>Closing sessions\<close>

lemma delete_absent: "map_of m k = None \<Longrightarrow> AList.delete k m = m"
  by (simp add: map_of_eq_None_iff AList.delete_eq filter_id_conv) force

lemma close_session_tables:
  "sv_config (close_session e sv a) = sv_config sv"
  "sv_advertisement_bytes (close_session e sv a) = sv_advertisement_bytes sv"
  "sv_sessions (close_session e sv a) = AList.delete a (sv_sessions sv)"
  "sv_session_pipelines (close_session e sv a) = AList.delete a (sv_session_pipelines sv)"
  "sv_pending_handshakes (close_session e sv a) = AList.delete a (sv_pending_handshakes sv)"
  by (auto simp: close_session_def Let_def tally_def mark_ip_recently_connected_def delete_absent split: option.split)

lemma tables_ok_delete:
  assumes "tables_ok c ss ps ph"
  shows "tables_ok c (AList.delete a ss) (AList.delete a ps) (AList.delete a ph)"
  using assms length_delete [of a ss] by (auto simp: tables_ok_def delete_map_of)

lemma close_session_ok: "server_ok k sv \<Longrightarrow> server_ok k (close_session e sv a)"
  by (simp add: server_ok_def close_session_tables tables_ok_delete)

lemma record_illegal_ok: "server_ok k sv \<Longrightarrow> server_ok k (record_illegal_state_transition e sv a)"
  by (simp add: record_illegal_state_transition_def close_session_ok same_tables_ok [OF same_tables_simple(1)])

lemma foldl_ok:
  assumes "\<And>sv x. server_ok k sv \<Longrightarrow> server_ok k (f sv x)" "server_ok k sv"
  shows "server_ok k (foldl f sv xs)"
  using assms(2) by (induction xs arbitrary: sv) (simp_all add: assms(1))

lemma expire_handshake_ok: "server_ok k sv \<Longrightarrow> server_ok k (expire_handshake e sv x)"
proof -
  assume ok: "server_ok k sv"
  obtain a p where x: "x = (a, p)" by (cases x)
  let ?sv1 = "tally ct_handshake_stage_cancel_drops_update (count_timeout (ph_stage p) sv)"
  have "same_tables sv ?sv1" by (rule same_tables_trans [OF same_tables_timeout same_tables_simple(1)])
  then have "same_tables sv (snd (record_handshake_violation ?sv1 a (timeout_violation (ph_stage p)) (e_now e)))"
    by (rule same_tables_trans [OF _ same_tables_records(2)])
  with ok show ?thesis by (simp add: expire_handshake_def x Let_def split_beta close_session_ok same_tables_ok)
qed

lemma housekeeping_ok: "server_ok k sv \<Longrightarrow> server_ok k (housekeeping e sv pa)"
  unfolding housekeeping_def Let_def prune_pending_handshakes_def prune_idle_sessions_def
  by (auto intro!: foldl_ok expire_handshake_ok close_session_ok
      intro: same_tables_ok [OF same_tables_simple(1)] same_tables_ok [OF same_tables_simple(5)]
        same_tables_ok [OF same_tables_simple(6)] same_tables_ok [OF same_tables_simple(8)])

lemma tick_limiter_same: "same_tables sv (tick_limiter e sv)"
  unfolding tick_limiter_def by (rule same_tables_trans [OF same_tables_simple(2) same_tables_simple(10)])

end
