(* ===== verification/ServerFrames.thy ===== *)
theory ServerFrames
  imports ServerInvariant
begin

text \<open>
  What the handling of a received datagram does to the session and the pipeline of its address: a
  session that is not to be closed stays in a state that fits its pending handshake, and both stay
  within their bounds.
\<close>

section \<open>Control packets\<close>

text \<open>What handling frames keeps of a session besides its state.\<close>

definition session_kept :: "Session \<Rightarrow> Session \<Rightarrow> bool" where
  "session_kept s s' \<longleftrightarrow> ss_mtu s' = ss_mtu s \<and> ss_last_activity s' = ss_last_activity s \<and> (receive_ok s \<longrightarrow> receive_ok s')"

lemma session_kept_refl [simp]: "session_kept s s"
  by (simp add: session_kept_def)

lemma session_kept_trans: "session_kept s s1 \<Longrightarrow> session_kept s1 s2 \<Longrightarrow> session_kept s s2"
  by (simp add: session_kept_def)

lemma quiet_kept: "quiet s s' \<Longrightarrow> session_kept s s'"
  by (simp add: session_kept_def quiet_def)

lemma transitions_kept: "session_kept s (snd (apply_session_transitions s ts))"
proof (induction ts arbitrary: s)
  case (Cons t ts)
  have "session_kept s (s\<lparr>ss_state := t\<rparr>)" by (simp add: session_kept_def receive_ok_def)
  with Cons [of "s\<lparr>ss_state := t\<rparr>"] show ?case by (auto simp: transition_to_def intro: session_kept_trans)
qed simp

lemma queue_control_quiet: "queue_connected_control_packet rnd s p rel ch pr = (r, s') \<Longrightarrow> quiet s s'"
  by (auto simp: queue_connected_control_packet_def queue_payload_def split: sum.splits prod.splits dest: queue_payload_quiet)

lemma control_ping_quiet: "control_ping rnd s t u = (r, s') \<Longrightarrow> quiet s s'"
  by (auto simp: control_ping_def Let_def split: if_splits prod.splits sum.splits
      dest!: queue_control_quiet take_backpressure_quiet intro: quiet_trans)

lemma control_request_spec:
  assumes "control_request rnd s addr sa t u = (r, s')"
  shows "session_kept s s'" and "(\<nexists>x y. r = Inr (CaCloseSession x y)) \<Longrightarrow>
     ss_state s \<in> {Reply2Sent, ConnReqRecv} \<and> ss_state s' \<in> {ConnReqRecv, ConnReqAcceptedSent}"
proof -
  obtain ok s1 where 1: "apply_session_transitions s [ConnReqRecv] = (ok, s1)" by fastforce
  have k1: "session_kept s s1" using transitions_kept [of s "[ConnReqRecv]"] 1 by simp
  have st: "ok \<Longrightarrow> ss_state s \<in> {Reply2Sent, ConnReqRecv} \<and> ss_state s1 = ConnReqRecv"
    using 1 by (cases "ss_state s") (auto simp: transition_to_def can_transition_to_def)
  obtain q s2 where 2: "queue_connected_control_packet rnd s1
      (ConnectionRequestAccepted addr 0 (build_internal_addrs sa) u t) ReliableOrdered 0 High = (q, s2)" by fastforce
  note q2 = queue_control_quiet [OF 2]
  obtain asked s3 where 3: "take_backpressure_disconnect s2 = (asked, s3)" by fastforce
  note q3 = take_backpressure_quiet [OF 3]
  have k3: "session_kept s s2" "session_kept s s3"
    using k1 quiet_kept [OF q2] quiet_kept [OF q3] by (blast intro: session_kept_trans)+
  obtain ok4 s4 where 4: "apply_session_transitions s3 [ConnReqAcceptedSent] = (ok4, s4)" by fastforce
  have k4: "session_kept s s4"
    using session_kept_trans [OF k3(2) transitions_kept [of s3 "[ConnReqAcceptedSent]"]] 4 by simp
  have st4: "ok4 \<Longrightarrow> ss_state s4 = ConnReqAcceptedSent"
    using 4 by (auto simp: transition_to_def split: if_splits)
  note run = 1 2 3 4 and [simp del] = apply_session_transitions.simps
  show "session_kept s s'"
    using assms k1 k3 k4 by (auto simp: control_request_def run Let_def split: bool.splits sum.splits QueuePayloadResult.splits prod.splits if_splits)
  show "ss_state s \<in> {Reply2Sent, ConnReqRecv} \<and> ss_state s' \<in> {ConnReqRecv, ConnReqAcceptedSent}"
    if "\<nexists>x y. r = Inr (CaCloseSession x y)"
    using assms that st st4 q2 q3
    by (auto simp: control_request_def run Let_def quiet_def
        split: bool.splits sum.splits QueuePayloadResult.splits prod.splits if_splits)
qed

lemma control_close_kept: "control_close s x = (r, s') \<Longrightarrow> session_kept s s' \<and> (\<exists>x y. r = Inr (CaCloseSession x y))"
  using transitions_kept [of s "[Closing, Closed]"] by (auto simp: control_close_def split: prod.splits bool.splits)

lemma apply_connected_control_spec:
  assumes "apply_connected_control rnd s addr sa t p = (r, s')"
  shows "session_kept s s'" and "(\<nexists>x y. r = Inr (CaCloseSession x y)) \<Longrightarrow> stage_ok pend (ss_state s) \<Longrightarrow> stage_ok pend (ss_state s')"
proof -
  have inc: "session_kept s s' \<and> ((\<nexists>x y. r = Inr (CaCloseSession x y)) \<longrightarrow> ss_state s = ConnReqAcceptedSent \<and> ss_state s' = Connected \<or> ss_state s = NewIncomingRecv)"
    if "p = NewIncomingConnection a b c d" for a b c d
    using assms transitions_kept [of s "[NewIncomingRecv, Connected]"] that
    by (cases "ss_state s") (auto simp: transition_to_def can_transition_to_def split: prod.splits bool.splits)
  show "session_kept s s'"
    using assms control_ping_quiet [THEN quiet_kept] control_request_spec(1) control_close_kept inc by (cases p) auto
  show "stage_ok pend (ss_state s')" if close: "\<nexists>x y. r = Inr (CaCloseSession x y)" and st: "stage_ok pend (ss_state s)"
  proof (cases p)
    case (ConnectedPing x)
    then show ?thesis using assms st control_ping_quiet [of rnd s t x r s'] by (simp add: quiet_def)
  next
    case (ConnectionRequest x u z)
    then show ?thesis
      using assms st control_request_spec(2) [of rnd s addr sa t u r s'] close
      by (auto simp: stage_ok_def split: option.splits PendingHandshakeStage.splits)
  next
    case (NewIncomingConnection a b c d)
    then show ?thesis
      using st inc close by (auto simp: stage_ok_def split: option.splits PendingHandshakeStage.splits)
  qed (use assms st close control_close_kept in auto)
qed

section \<open>The frames of a datagram\<close>

lemma route_fits:
  assumes "route_inbound_app_frame p state f = (a, out, p')" "pipeline_fits c p" "tc_unhandled_queue_max_bytes c < U64_MAX"
  shows "pipeline_fits c p'"
  using route_inbound_ok [OF assms(1)] assms(2,3) by (simp add: pipeline_fits_def max_def U64_MAX_def split: if_splits)

lemma flush_fits:
  assumes "flush_if_connected p state = (n, out, p')" "pipeline_fits c p"
  shows "pipeline_fits c p'"
  using flush_if_connected_ok(1) [of p state n out p'] assms
  by (auto simp: pipeline_fits_def flush_if_connected_def split_beta Let_def split: if_splits)

lemma process_frames_spec:
  assumes "process_frames rnd addr la t fs lp = lp'" "\<not> lp_close_session lp" "lp_decode_error lp = None" "\<not> lp_illegal_transition lp"
    and "pipeline_fits c (lp_pipeline lp)" "tc_unhandled_queue_max_bytes c < U64_MAX"
  shows "session_kept (lp_session lp) (lp_session lp') \<and> pipeline_fits c (lp_pipeline lp')
    \<and> (lp_illegal_transition lp' \<longrightarrow> lp_close_session lp') \<and> (lp_close_session lp' \<longrightarrow> lp_decode_error lp' = None)
    \<and> (\<not> lp_close_session lp' \<longrightarrow> stage_ok pend (ss_state (lp_session lp)) \<longrightarrow> stage_ok pend (ss_state (lp_session lp')))"
  using assms(1-5)
proof (induction fs arbitrary: lp)
  case (Cons f fs)
  show ?case
  proof (cases "fr_payload f")
    case Nil
    then show ?thesis using Cons by simp
  next
    case (Cons i rest)
    note payload = this
    show ?thesis
    proof (cases "is_connected_control_id i")
      case False
      obtain a out p where r: "route_inbound_app_frame (lp_pipeline lp) (ss_state (lp_session lp)) f = (a, out, p)" by (metis prod_cases3)
      note fits = route_fits [OF r Cons.prems(5) assms(6)]
      let ?lp = "lp\<lparr>lp_pipeline := p, lp_app_frames := lp_app_frames lp @ out\<rparr>"
      show ?thesis using Cons.prems Cons.IH [of ?lp] fits payload False r by (cases a) auto
    next
      case True
      show ?thesis
      proof (cases "control_decode (fr_payload f)")
        case (Inl err)
        then show ?thesis using Cons.prems payload True by auto
      next
        case (Inr pr)
        obtain packet r s where p: "pr = (packet, snd pr)" and run: "apply_connected_control rnd (lp_session lp) addr la t packet = (r, s)"
          by (metis prod.collapse)
        note spec = apply_connected_control_spec [OF run]
        show ?thesis
        proof (cases "r = Inr CaNone")
          case True
          then have "process_frames rnd addr la t fs (lp\<lparr>lp_session := s\<rparr>) = lp'"
            using Cons.prems(1) payload \<open>is_connected_control_id i\<close> Inr run p by (simp split: prod.splits)
          from Cons.IH [OF this] spec True Cons.prems(2-5) show ?thesis by (auto intro: session_kept_trans)
        next
          case False
          then show ?thesis
            using Cons.prems payload True Inr run p spec
            by (cases r; cases "projr r") (auto split: prod.splits)
        qed
      qed
    qed
  qed
qed simp

section \<open>A received datagram\<close>

lemma touch_kept: "receive_ok s \<Longrightarrow> receive_ok (touch_activity s now)" "ss_state (touch_activity s now) = ss_state s"
  by (simp_all add: touch_activity_def receive_ok_def)

lemma ingest_connected_error:
  assumes "ingest_connected rnd mtu now addr la t s p d = Inl (err, s1)" "receive_ok s"
  shows "receive_ok s1" "ss_state s1 = ss_state s"
proof -
  have "ingest_datagram (touch_activity s now) d now = (Inl err, s1)"
    using assms(1) by (auto simp: ingest_connected_def Let_def split_beta prod_eq_iff split: sum.splits)
  from ingest_datagram_quiet [OF this] touch_kept [of s now] assms(2) show "receive_ok s1" "ss_state s1 = ss_state s"
    by (simp_all add: quiet_def)
qed

lemma ingest_connected_spec:
  assumes run: "ingest_connected rnd mtu now addr la t s p d = Inr ig" and ok: "receive_ok s"
    and p: "pipeline_fits c p" "tc_unhandled_queue_max_bytes c < U64_MAX"
  shows "receive_ok (ig_session ig)" "pipeline_fits c (ig_pipeline ig)"
    "lp_illegal_transition (ig_loop ig) \<Longrightarrow> ig_close_session ig"
    "lp_decode_error (ig_loop ig) \<noteq> None \<or> ig_datagrams ig \<noteq> [] \<or> \<not> ig_close_session ig \<Longrightarrow>
       stage_ok pend (ss_state s) \<Longrightarrow> stage_ok pend (ss_state (ig_session ig))"
proof -
  obtain frames s1 where 1: "ingest_datagram (touch_activity s now) d now = (Inr frames, s1)"
    using run by (auto simp: ingest_connected_def split: prod.splits sum.splits)
  obtain receipts s2 where 2: "process_incoming_receipts rnd s1 now = (receipts, s2)" by fastforce
  define lp where "lp = process_frames rnd addr la t frames \<lparr>lp_session = s2, lp_pipeline = p, lp_app_frames = [],
    lp_decode_error = None, lp_close_session = False, lp_illegal_transition = False, lp_remote_reason = None\<rparr>"
  note spec = process_frames_spec [OF lp_def [symmetric], of c pend, simplified, OF p]
  obtain flushed p3 where 3: "(if \<not> lp_close_session lp \<and> lp_decode_error lp = None
      then (let (_, out, p) = flush_if_connected (lp_pipeline lp) (ss_state (lp_session lp)) in (out, p))
      else ([], lp_pipeline lp)) = (flushed, p3)" by fastforce
  obtain immediate s4 where 4: "(if lp_close_session lp then ([], lp_session lp)
      else on_tick rnd (lp_session lp) now RECV_PATH_MAX_NEW_DATAGRAMS (sat_mul mtu RECV_PATH_MAX_NEW_DATAGRAMS)
             RECV_PATH_MAX_RESEND_DATAGRAMS (sat_mul mtu RECV_PATH_MAX_RESEND_DATAGRAMS)) = (immediate, s4)" by fastforce
  obtain asked s5 where 5: "take_backpressure_disconnect s4 = (asked, s5)" by fastforce
  have ig: "ig_session ig = s5" "ig_pipeline ig = p3" "ig_loop ig = lp" "ig_close_session ig = (lp_close_session lp \<or> asked)"
    "ig_datagrams ig = immediate"
    using run unfolding ingest_connected_def 1 2 prod.case sum.case Let_def lp_def [symmetric] 3 [unfolded Let_def] 4 5 by auto
  have q: "quiet (touch_activity s now) s2"
    by (rule quiet_trans [OF ingest_datagram_quiet [OF 1] process_incoming_receipts_quiet [OF 2]])
  have t: "quiet (lp_session lp) s5"
    using 4 take_backpressure_quiet [OF 5] by (auto split: if_splits dest!: on_tick_quiet intro: quiet_trans)
  have st: "ss_state s2 = ss_state s" "receive_ok s2" using q touch_kept [of s now] ok by (simp_all add: quiet_def)
  show "receive_ok (ig_session ig)" using spec st t by (simp add: ig session_kept_def quiet_def)
  show "pipeline_fits c (ig_pipeline ig)" using spec 3 flush_fits by (auto simp: ig split: if_splits prod.splits)
  show "lp_illegal_transition (ig_loop ig) \<Longrightarrow> ig_close_session ig" using spec by (simp add: ig)
  show "stage_ok pend (ss_state (ig_session ig))"
    if "lp_decode_error (ig_loop ig) \<noteq> None \<or> ig_datagrams ig \<noteq> [] \<or> \<not> ig_close_session ig" "stage_ok pend (ss_state s)"
    using that spec st t 4 by (auto simp: ig quiet_def split: if_splits)
qed

end
