(* ===== verification/ServerHandlers.thy ===== *)
theory ServerHandlers
  imports ServerFrames
begin

text \<open>
  Every call of the transport server keeps its invariant and does not panic.
\<close>

section \<open>Changing the entry of one address\<close>

lemma tables_okI:
  assumes "tables_ok c ss ps ph" "keys_distinct ss'" "keys_distinct ps'" "keys_distinct ph'" "length ss' \<le> tc_max_sessions c"
    and "\<And>b. b \<noteq> a \<Longrightarrow> map_of ss' b = map_of ss b \<and> map_of ps' b = map_of ps b \<and> map_of ph' b = map_of ph b"
    and "map_of ss' a = Some s" "stage_ok (map_of ph' a) (ss_state s)" "receive_ok s"
    and "\<And>p. map_of ps' a = Some p \<Longrightarrow> pipeline_fits c p"
  shows "tables_ok c ss' ps' ph'"
  unfolding tables_ok_def
proof (intro conjI allI impI)
  fix b s' assume "map_of ss' b = Some s'"
  with assms(1,6-9) show "stage_ok (map_of ph' b) (ss_state s')" "receive_ok s'"
    by (cases "b = a"; fastforce simp: tables_ok_def)+
next
  fix b p assume "map_of ps' b = Some p"
  with assms(1,6,10) show "pipeline_fits c p" by (cases "b = a"; fastforce simp: tables_ok_def)
next
  fix b assume "map_of ss' b = None"
  with assms(1,6,7) show "map_of ps' b = None" "map_of ph' b = None" by (cases "b = a"; fastforce simp: tables_ok_def)+
qed (use assms in simp_all)

lemma server_ok_tables: "server_ok k sv \<Longrightarrow> tables_ok (sv_config sv) (sv_sessions sv) (sv_session_pipelines sv) (sv_pending_handshakes sv)"
  by (simp add: server_ok_def)

lemma server_ok_keys: "server_ok k sv \<Longrightarrow> keys_distinct (sv_sessions sv) \<and> keys_distinct (sv_session_pipelines sv) \<and> keys_distinct (sv_pending_handshakes sv)"
  by (simp add: server_ok_def tables_ok_def)

lemma server_ok_session:
  assumes "server_ok k sv" "map_of (sv_sessions sv) a = Some s"
  shows "stage_ok (map_of (sv_pending_handshakes sv) a) (ss_state s)" "receive_ok s"
  using assms by (simp_all add: server_ok_def tables_ok_def)

lemma server_ok_update:
  assumes "server_ok k sv" "map_of (sv_sessions sv) a \<noteq> None" "receive_ok s" "stage_ok (map_of (sv_pending_handshakes sv) a) (ss_state s)"
  shows "server_ok k (sv\<lparr>sv_sessions := AList.update a s (sv_sessions sv)\<rparr>)"
proof -
  have "tables_ok (sv_config sv) (AList.update a s (sv_sessions sv)) (sv_session_pipelines sv) (sv_pending_handshakes sv)"
    by (rule tables_okI [OF server_ok_tables [OF assms(1)], where a = a and s = s])
      (use assms server_ok_keys [OF assms(1)] in \<open>auto simp: update_map_of length_update server_ok_def tables_ok_def\<close>)
  with assms(1) show ?thesis by (simp add: server_ok_def)
qed

lemma server_ok_update_both:
  assumes "server_ok k sv" "map_of (sv_sessions sv) a \<noteq> None" "receive_ok s" "stage_ok (map_of (sv_pending_handshakes sv) a) (ss_state s)"
    and "pipeline_fits (sv_config sv) p"
  shows "server_ok k (sv\<lparr>sv_sessions := AList.update a s (sv_sessions sv), sv_session_pipelines := AList.update a p (sv_session_pipelines sv)\<rparr>)"
proof -
  have "tables_ok (sv_config sv) (AList.update a s (sv_sessions sv)) (AList.update a p (sv_session_pipelines sv)) (sv_pending_handshakes sv)"
    by (rule tables_okI [OF server_ok_tables [OF assms(1)], where a = a and s = s])
      (use assms server_ok_keys [OF assms(1)] in \<open>auto simp: update_map_of length_update server_ok_def tables_ok_def\<close>)
  with assms(1) show ?thesis by (simp add: server_ok_def)
qed

text \<open>Closing an address whose session was just replaced.\<close>

lemma close_updated_ok:
  assumes "server_ok k sv" "same_tables (sv\<lparr>sv_sessions := AList.update a s (sv_sessions sv), sv_session_pipelines := AList.update a p (sv_session_pipelines sv)\<rparr>) sv'"
  shows "server_ok k (close_session e sv' a)"
  using assms tables_ok_delete [OF server_ok_tables [OF assms(1)], of a]
  by (simp add: server_ok_def close_session_tables same_tables_def delete_update_same)

section \<open>Connected datagrams\<close>

lemma send_encoded_fault: "send_encoded e sv a enc = (Inl f, sv') \<Longrightarrow> f \<noteq> Panicked"
  by (auto simp: send_encoded_def split: prod.splits option.splits sum.splits if_splits)

lemma send_datagrams_fault: "send_datagrams e sv ds = (Inl f, sv') \<Longrightarrow> f \<noteq> Panicked"
  by (induction e sv ds rule: send_datagrams.induct)
    (auto simp: send_datagram_def split: prod.splits sum.splits dest: send_encoded_fault)

lemma finish_connected_ok:
  assumes "server_ok k sv" "finish_connected e sv a ig = (r, sv')" "\<not> ig_close_session ig"
    and "map_of (sv_sessions sv) a = Some s"
  shows "server_ok k sv'"
proof -
  have t: "tables_ok (sv_config sv) (sv_sessions sv) (sv_session_pipelines sv) (AList.delete a (sv_pending_handshakes sv))"
    if "ss_state s = Connected"
    by (rule tables_okI [OF server_ok_tables [OF assms(1)], where a = a and s = s])
      (use that assms server_ok_keys [OF assms(1)] server_ok_session [OF assms(1,4)] in
        \<open>auto simp: delete_map_of stage_ok_def server_ok_def tables_ok_def\<close>)
  show ?thesis
    using assms t by (auto simp: finish_connected_def Let_def server_ok_def tally_def split: if_splits prod.splits)
qed

lemma finish_closed_ok:
  assumes "finish_connected e sv a ig = (r, sv')" "ig_close_session ig"
    and "\<And>sv'. same_tables sv sv' \<Longrightarrow> server_ok k (close_session e sv' a)"
  shows "server_ok k sv'"
proof -
  let ?sv1 = "close_session e (case lp_remote_reason (ig_loop ig) of Some r \<Rightarrow> record_remote_disconnect sv r | None \<Rightarrow> sv) a"
  have 1: "server_ok k ?sv1" by (rule assms(3)) (simp add: same_tables_remote split: option.split)
  have "sv_sessions ?sv1 = AList.delete a (sv_sessions (case lp_remote_reason (ig_loop ig) of Some r \<Rightarrow> record_remote_disconnect sv r | None \<Rightarrow> sv))"
    by (rule close_session_tables(3))
  then have none: "map_of (sv_sessions ?sv1) a = None" by (simp add: delete_map_of)
  show ?thesis
    using assms(1,2) 1 none by (auto simp: finish_connected_def Let_def server_ok_def tally_def split: if_splits prod.splits option.splits)
qed

lemma settle_ingested_ok:
  assumes ok: "server_ok k sv" and run: "settle_ingested e sv a ig = (r, sv')" and known: "map_of (sv_sessions sv) a \<noteq> None"
    and ig: "receive_ok (ig_session ig)" "pipeline_fits (sv_config sv) (ig_pipeline ig)"
    and stage: "lp_decode_error (ig_loop ig) \<noteq> None \<or> ig_datagrams ig \<noteq> [] \<or> \<not> ig_close_session ig \<Longrightarrow>
      stage_ok (map_of (sv_pending_handshakes sv) a) (ss_state (ig_session ig))"
  shows "server_ok k sv' \<and> r \<noteq> Inl Panicked"
proof -
  define sv1 where "sv1 = sv\<lparr>sv_sessions := AList.update a (ig_session ig) (sv_sessions sv),
    sv_session_pipelines := AList.update a (ig_pipeline ig) (sv_session_pipelines sv)\<rparr>"
  have good: "server_ok k sv1" if "lp_decode_error (ig_loop ig) \<noteq> None \<or> ig_datagrams ig \<noteq> [] \<or> \<not> ig_close_session ig"
    unfolding sv1_def by (rule server_ok_update_both [OF ok known ig(1) stage [OF that] ig(2)])
  define send where "send = (if lp_illegal_transition (ig_loop ig) then (Inr (), tally ct_illegal_state_transitions_update sv1)
    else send_datagrams e sv1 (map (Pair a) (ig_datagrams ig)))"
  have same: "same_tables sv1 (snd send)" by (simp add: send_def same_tables_simple same_tables_sends)
  have run': "(case lp_decode_error (ig_loop ig) of Some err \<Rightarrow> (Inr (EvDecodeError a err), sv1)
      | None \<Rightarrow> (case send of (Inl fault, sv2) \<Rightarrow> (Inl fault, sv2) | (Inr _, sv2) \<Rightarrow> finish_connected e sv2 a ig)) = (r, sv')"
    using run unfolding settle_ingested_def Let_def sv1_def [symmetric] send_def [symmetric] .
  consider (err) "lp_decode_error (ig_loop ig) \<noteq> None" | (fault) f sv2 where "lp_decode_error (ig_loop ig) = None" "send = (Inl f, sv2)"
    | (sent) u sv2 where "lp_decode_error (ig_loop ig) = None" "send = (Inr u, sv2)"
    by (metis prod.exhaust sum.exhaust)
  then show ?thesis
  proof cases
    case err
    then show ?thesis using run' good by auto
  next
    case fault
    then have "ig_datagrams ig \<noteq> []" "f \<noteq> Panicked" using send_datagrams_fault by (auto simp: send_def split: if_splits)
    with good same fault run' show ?thesis by (auto intro: same_tables_ok)
  next
    case sent
    then have run2: "finish_connected e sv2 a ig = (r, sv')" using run' by simp
    have "server_ok k sv'"
    proof (cases "ig_close_session ig")
      case True
      then show ?thesis
        by (rule finish_closed_ok [OF run2])
          (use sent same in \<open>auto intro!: close_updated_ok [OF ok] elim: same_tables_trans simp: sv1_def\<close>)
    next
      case False
      then have "server_ok k sv2" using good same sent by (auto intro: same_tables_ok)
      from finish_connected_ok [OF this run2 False] same sent show ?thesis by (simp add: same_tables_def sv1_def update_map_of)
    qed
    with run2 show ?thesis
      by (auto simp: finish_connected_def Let_def split: if_splits prod.splits bool.splits option.splits)
  qed
qed

text \<open>A datagram for a known session is refused by \<^verbatim>\<open>ingest_datagram\<close>, or its frames were handled.\<close>

lemma handle_connected_cases:
  assumes ok: "server_ok k sv" and run: "handle_connected e rnd sv a d = (r, sv')" and known: "map_of (sv_sessions sv) a = Some s"
  obtains (refused) err s1 p where "r = Inr (EvDecodeError a err)" "receive_ok s1" "ss_state s1 = ss_state s"
      "pipeline_fits (sv_config sv) p" "sv' = sv\<lparr>sv_sessions := AList.update a s1 (sv_sessions sv),
        sv_session_pipelines := AList.update a p (sv_session_pipelines sv)\<rparr>"
    | (ingested) ig where "settle_ingested e sv a ig = (r, sv')" "receive_ok (ig_session ig)"
      "pipeline_fits (sv_config sv) (ig_pipeline ig)"
      "lp_decode_error (ig_loop ig) \<noteq> None \<or> ig_datagrams ig \<noteq> [] \<or> \<not> ig_close_session ig \<Longrightarrow>
        stage_ok (map_of (sv_pending_handshakes sv) a) (ss_state (ig_session ig))"
proof -
  define p where "p = (case map_of (sv_session_pipelines sv) a of Some p \<Rightarrow> p
    | None \<Rightarrow> pipeline_new (tc_unhandled_queue_max_frames (sv_config sv)) (tc_unhandled_queue_max_bytes (sv_config sv)))"
  have fits: "pipeline_fits (sv_config sv) p" and lim: "tc_unhandled_queue_max_bytes (sv_config sv) < U64_MAX"
    using ok pipeline_new_ok by (auto simp: p_def pipeline_fits_def pipeline_new_def server_ok_def tables_ok_def split: option.split)
  note st = server_ok_session [OF ok known]
  let ?ing = "ingest_connected rnd (tc_mtu (sv_config sv)) (e_now e) a (server_addr e sv) (unix_timestamp_millis e) s p d"
  show thesis
  proof (cases ?ing)
    case (Inl x)
    obtain err s1 where x: "x = (err, s1)" by (cases x)
    from refused [OF _ ingest_connected_error [OF Inl [unfolded x] st(2)] fits] run Inl show thesis
      by (auto simp: handle_connected_def known p_def [symmetric] x)
  next
    case (Inr ig)
    have "settle_ingested e sv a ig = (r, sv')"
      using run unfolding handle_connected_def Let_def known option.case p_def [symmetric] Inr sum.case .
    from ingested [OF this] ingest_connected_spec [OF Inr st(2) fits lim] st(1) show thesis by blast
  qed
qed

lemma handle_connected_ok:
  assumes ok: "server_ok k sv" and run: "handle_connected e rnd sv a d = (r, sv')" and known: "map_of (sv_sessions sv) a = Some s"
  shows "server_ok k sv' \<and> r \<noteq> Inl Panicked"
  using ok run known
proof (cases rule: handle_connected_cases)
  case (refused err s1 p)
  with server_ok_update_both [OF ok _ refused(2) _ refused(4), of a] server_ok_session(1) [OF ok known] known show ?thesis by auto
next
  case (ingested ig)
  from settle_ingested_ok [OF ok ingested(1) _ ingested(2,3,4)] known show ?thesis by simp
qed

lemma recv_connected_ok:
  assumes ok: "server_ok k sv" and run: "recv_connected e rnd sv a raw = (r, sv')"
  shows "server_ok k sv' \<and> r \<noteq> Inl Panicked"
proof -
  have known: "\<exists>s. map_of (sv_sessions sv) a = Some s"
    if "\<not> (map_of (sv_sessions sv) a = None \<and> map_of (sv_pending_handshakes sv) a = None)"
    using that ok by (cases "map_of (sv_sessions sv) a") (auto simp: server_ok_def tables_ok_def)
  have same: "server_ok k (sv\<lparr>sv_rate_limiter := rl\<rparr>)" for rl by (rule same_tables_ok [OF same_tables_simple(2) ok])
  have h: "server_ok k sv' \<and> r \<noteq> Inl Panicked" if "handle_connected e rnd sv0 a d = (r, sv')" "sv0 = sv \<or> (\<exists>rl. sv0 = sv\<lparr>sv_rate_limiter := rl\<rparr>)"
    "\<not> (map_of (sv_sessions sv) a = None \<and> map_of (sv_pending_handshakes sv) a = None)" for sv0 d
    using that known handle_connected_ok [OF _ that(1)] ok same by fastforce
  show ?thesis
    using run h ok same unfolding recv_connected_def
    by (auto simp: Let_def split: sum.splits prod.splits if_splits)
qed

section \<open>Offline packets\<close>

text \<open>A call that keeps the invariant and does not panic.\<close>

definition fine :: "TransportConfig \<Rightarrow> (Fault + 'a) \<times> TransportServer \<Rightarrow> bool" where
  "fine k res \<longleftrightarrow> server_ok k (snd res) \<and> fst res \<noteq> Inl Panicked"

lemma fine_pair [simp]: "fine k (r, sv) \<longleftrightarrow> server_ok k sv \<and> r \<noteq> Inl Panicked"
  by (simp add: fine_def)

lemma fst_and_return: "fst (and_return res r) = Inl f \<longleftrightarrow> fst res = Inl f"
  by (auto simp: and_return_def split: prod.splits sum.splits)

lemma fine_send_encoded: "server_ok k sv \<Longrightarrow> fine k (and_return (send_encoded e sv a enc) r)"
  using same_tables_send [of sv e a enc] send_encoded_fault [of e sv a enc]
  by (auto simp: fine_def snd_and_return fst_and_return intro: same_tables_ok) (metis prod.collapse)

lemma fine_sends:
  assumes "server_ok k sv"
  shows "fine k (and_return (send_offline_packet e sv a p) r)" "fine k (and_return (send_connection_banned e sv a) r)"
    "fine k (and_return (send_already_connected e sv a) r)" "fine k (and_return (send_ip_recently_connected e sv a) r)"
    "fine k (and_return (send_no_free_incoming_connections e sv a) r)"
  using fine_send_encoded [OF assms]
  by (simp_all add: send_offline_packet_def send_connection_banned_def send_already_connected_def
      send_ip_recently_connected_def send_no_free_incoming_connections_def)

lemmas tally_ok = same_tables_ok [OF same_tables_simple(1)]

lemma recently_ok: "is_ip_recently_connected sv a now = (b, sv') \<Longrightarrow> server_ok k sv \<Longrightarrow> server_ok k sv'"
  using same_tables_ok [OF same_tables_simple(9)] by (metis snd_conv)

lemma violation_ok: "record_handshake_violation sv a v now = (b, sv') \<Longrightarrow> server_ok k sv \<Longrightarrow> server_ok k sv'"
  using same_tables_ok [OF same_tables_records(2)] by (metis snd_conv)

lemma mismatch_ok: "record_cookie_mismatch sv ip now = (b, sv') \<Longrightarrow> server_ok k sv \<Longrightarrow> server_ok k sv'"
  using same_tables_ok [OF same_tables_records(1)] by (metis snd_conv)

lemma new_session:
  assumes "server_ok k sv" "apply_session_transitions s0 [Req1Recv, Reply1Sent] = (b, s)"
    and "with_tunables rnd now mtu (tc_session_tunables (sv_config sv)) = Some s0"
  shows "b" "ss_state s = Reply1Sent" "receive_ok s"
proof -
  have s0: "ss_state s0 = Offline" "receive_ok s0"
    using assms(3) session_init_receive_ok by (auto simp: with_tunables_def session_init_def Let_def)
  with assms(2) transitions_kept [of s0 "[Req1Recv, Reply1Sent]"]
  show "b" "ss_state s = Reply1Sent" "receive_ok s" by (auto simp: transition_to_def can_transition_to_def session_kept_def)
qed

lemma start_handshake_fine:
  assumes ok: "server_ok k sv" and room: "\<not> would_exceed_session_limit sv a"
  shows "fine k (start_handshake e hmac rnd sv a requested)"
proof -
  let ?mtu = "negotiate_mtu sv requested"
  obtain s0 where s0: "with_tunables rnd (e_clock e) (unat ?mtu) (tc_session_tunables (sv_config sv)) = Some s0"
    using ok by (auto simp: with_tunables_def server_ok_def)
  obtain b s where tr: "apply_session_transitions s0 [Req1Recv, Reply1Sent] = (b, s)" by fastforce
  note s = new_session [OF ok tr s0]
  have t: "tables_ok (sv_config sv) (AList.update a s (AList.delete a (sv_sessions sv))) (AList.delete a (sv_session_pipelines sv))
      (AList.update a p (sv_pending_handshakes sv))" if "ph_stage p = AwaitingRequest2" for p
  proof (rule tables_okI [OF server_ok_tables [OF ok], where a = a and s = s])
    have "map_of (sv_sessions sv) a \<noteq> None \<Longrightarrow> length (AList.delete a (sv_sessions sv)) < length (sv_sessions sv)"
      by (auto simp: AList.delete_eq length_filter_less dest!: map_of_SomeD)
    with room ok length_delete [of a "sv_sessions sv"]
    show "length (AList.update a s (AList.delete a (sv_sessions sv))) \<le> tc_max_sessions (sv_config sv)"
      by (fastforce simp: would_exceed_session_limit_def length_update delete_map_of server_ok_def tables_ok_def)
  qed (use that s server_ok_keys [OF ok] in \<open>auto simp: update_map_of delete_map_of stage_ok_def\<close>)
  show ?thesis
    using s ok t unfolding start_handshake_def Let_def s0 tr option.case prod.case
    by (auto simp: server_ok_def intro!: fine_sends(1))
qed

lemma handle_request_1_fine: "server_ok k sv \<Longrightarrow> fine k (handle_request_1 e hmac rnd sv a req)"
  by (auto simp: handle_request_1_def Let_def intro!: fine_sends start_handshake_fine tally_ok dest: recently_ok split: prod.split)

lemma punish_fine: "server_ok k sv \<Longrightarrow> fine k (punish e sv a v)"
  by (auto simp: punish_def Let_def intro!: fine_sends dest: violation_ok split: prod.split)

lemma request_2_expired_fine: "server_ok k sv \<Longrightarrow> fine k (request_2_expired e sv a p)"
  by (auto simp: request_2_expired_def Let_def intro!: fine_sends close_session_ok split: prod.split
      dest!: violation_ok [OF _ tally_ok [OF same_tables_ok [OF same_tables_timeout]]])

lemma request_2_cookie_mismatch_fine: "server_ok k sv \<Longrightarrow> fine k (request_2_cookie_mismatch e sv a)"
  by (auto simp: request_2_cookie_mismatch_def Let_def intro!: fine_sends split: prod.split
      dest!: mismatch_ok [OF _ tally_ok [OF tally_ok]] dest: violation_ok)

lemma send_reply_2_fine: "server_ok k sv \<Longrightarrow> fine k (send_reply_2 e sv a mtu)"
  by (simp add: send_reply_2_def fine_sends)

lemma set_mtu_kept: "receive_ok s \<Longrightarrow> receive_ok (set_mtu s mtu)" "ss_state (set_mtu s mtu) = ss_state s"
  by (simp_all add: set_mtu_def receive_ok_def)

lemma retry_reply_2_fine: "server_ok k sv \<Longrightarrow> fine k (retry_reply_2 e sv a p req)"
  by (auto simp: retry_reply_2_def Let_def touch_kept set_mtu_kept server_ok_session
      intro!: record_illegal_ok send_reply_2_fine server_ok_update split: option.split)

lemma accept_request_2_fine:
  assumes ok: "server_ok k sv" and p: "map_of (sv_pending_handshakes sv) a = Some p" "ph_stage p = AwaitingRequest2"
  shows "fine k (accept_request_2 e sv a p req)"
proof (cases "map_of (sv_sessions sv) a")
  case None
  then show ?thesis by (simp add: accept_request_2_def Let_def record_illegal_ok ok)
next
  case (Some s)
  let ?s = "touch_activity (set_mtu s (unat (negotiate_mtu sv (min (rq2_mtu req) (ph_mtu p))))) (e_now e)"
  note st = server_ok_session [OF ok Some]
  obtain b s1 where tr: "apply_session_transitions ?s [Req2Recv, Reply2Sent] = (b, s1)" by fastforce
  have s1: "b" "ss_state s1 = Reply2Sent" "receive_ok s1"
    using tr st p transitions_kept [of ?s "[Req2Recv, Reply2Sent]"] touch_kept(1) [OF set_mtu_kept(1) [OF st(2)]]
    by (auto simp: transition_to_def can_transition_to_def touch_kept set_mtu_kept stage_ok_def session_kept_def)
  have "tables_ok (sv_config sv) (AList.update a s1 (sv_sessions sv)) (sv_session_pipelines sv) (AList.update a q (sv_pending_handshakes sv))"
    if "ph_stage q = AwaitingConnectionRequest" for q
    by (rule tables_okI [OF server_ok_tables [OF ok], where a = a and s = s1])
      (use that s1 Some ok server_ok_keys [OF ok] in
        \<open>auto simp: update_map_of length_update stage_ok_def server_ok_def tables_ok_def\<close>)
  then show ?thesis
    using s1 ok unfolding accept_request_2_def Let_def Some option.case tr prod.case
    by (auto simp: server_ok_def intro!: send_reply_2_fine)
qed

lemma verified_request_2_fine:
  assumes ok: "server_ok k sv"
  shows "fine k (verified_request_2 e hmac sv a req)"
proof (cases "map_of (sv_pending_handshakes sv) a")
  case None
  then show ?thesis by (simp add: verified_request_2_def punish_fine tally_ok ok)
next
  case (Some p)
  let ?sv1 = "clear_cookie_mismatch_state sv (addr_ip a)"
  have ok1: "server_ok k ?sv1" by (rule same_tables_ok [OF same_tables_simple(4) ok])
  have "map_of (sv_pending_handshakes ?sv1) a = Some p" by (simp add: clear_cookie_mismatch_state_def Some)
  then have "ph_stage p \<noteq> AwaitingConnectionRequest \<Longrightarrow> fine k (accept_request_2 e ?sv1 a p req)"
    by (cases "ph_stage p") (simp_all add: accept_request_2_fine ok1)
  with ok ok1 Some show ?thesis
    by (auto simp: verified_request_2_def Let_def intro!: request_2_expired_fine request_2_cookie_mismatch_fine
        retry_reply_2_fine fine_sends)
qed

lemma handle_request_2_fine: "server_ok k sv \<Longrightarrow> fine k (handle_request_2 e hmac sv a req)"
  by (auto simp: handle_request_2_def Let_def intro!: fine_sends punish_fine tally_ok verified_request_2_fine
      dest: recently_ok split: prod.split Request2ParsePath.split)

lemma handle_offline_packet_fine: "server_ok k sv \<Longrightarrow> fine k (handle_offline_packet e hmac rnd sv a packet)"
  by (cases packet) (simp_all add: handle_ping_def fine_sends handle_request_1_fine handle_request_2_fine)

section \<open>Calls\<close>

lemma route_inbound_ok_server: "route_inbound_addr e sv a = (b, sv') \<Longrightarrow> server_ok k sv \<Longrightarrow> server_ok k sv'"
  by (auto simp: route_inbound_addr_def intro: tally_ok split: option.splits InboundProxyRoute.splits if_splits)

lemma recv_and_process_fine:
  assumes ok: "server_ok k sv"
  shows "fine k (recv_and_process e hmac rnd sv observed raw)"
proof -
  obtain b sv0 where r: "route_inbound_addr e sv observed = (b, sv0)" by fastforce
  have ok0: "server_ok k sv0" by (rule route_inbound_ok_server [OF r ok])
  have ok1: "server_ok k (tick_limiter e (housekeeping e sv0 (Some a)))" for a
    by (rule same_tables_ok [OF tick_limiter_same housekeeping_ok [OF ok0]])
  have ok2: "server_ok k ((tick_limiter e (housekeeping e sv0 (Some a)))\<lparr>sv_rate_limiter := rl\<rparr>)" for a rl
    by (rule same_tables_ok [OF same_tables_simple(2) ok1])
  have off: "server_ok k sv3 \<and> r \<noteq> Inl Panicked"
    if "handle_offline_packet e hmac rnd sv2 a packet = (r, sv3)" "server_ok k sv2" for sv2 a packet r sv3
    using handle_offline_packet_fine [OF that(2), of e hmac rnd a packet] by (simp add: that(1))
  have con: "fine k (recv_connected e rnd sv2 a raw)" if "server_ok k sv2" for sv2 a raw
    using recv_connected_ok [OF that] by (metis fine_def prod.collapse)
  show ?thesis
    using ok0 ok1 ok2 unfolding recv_and_process_def r Let_def
    by (auto split: option.split list.split prod.split sum.split RateLimitDecision.split intro!: fine_sends con dest!: off)
qed

lemma tables_ok_map:
  assumes t: "tables_ok c ss ps ph" and q: "\<And>s. quiet s (f s)"
  shows "tables_ok c (map (\<lambda>(a, s). (a, f s)) ss) ps ph"
proof -
  have keys: "map fst (map (\<lambda>(a, s). (a, f s)) ss) = map fst ss" by (induction ss) auto
  have m: "map_of (map (\<lambda>(a, s). (a, f s)) ss) b = map_option f (map_of ss b)" for b by (simp add: map_of_map)
  have q': "ss_state (f s) = ss_state s" "receive_ok s \<Longrightarrow> receive_ok (f s)" for s using q [of s] by (simp_all add: quiet_def)
  show ?thesis unfolding tables_ok_def keys m using t q' by (auto simp: tables_ok_def)
qed

lemma server_ok_map:
  assumes "server_ok k sv" "\<And>s. quiet s (f s)"
  shows "server_ok k (sv\<lparr>sv_sessions := map (\<lambda>(a, s). (a, f s)) (sv_sessions sv)\<rparr>)"
  using tables_ok_map [OF server_ok_tables [OF assms(1)], of f] assms by (simp add: server_ok_def)

lemma keepalive_session_quiet: "quiet s (fst (keepalive_session rnd now interval t s))"
proof -
  obtain r s1 where q: "queue_connected_control_packet rnd s (ConnectedPing t) Unreliable 0 Low = (r, s1)" by fastforce
  have 2: "quiet s (if b then mark_keepalive_sent s1 now else s1)" for b
    by (rule quiet_trans [OF queue_control_quiet [OF q]]) (auto simp: mark_keepalive_sent_def intro: quietI)
  then have "quiet s (snd (take_backpressure_disconnect (if b then mark_keepalive_sent s1 now else s1)))" for b
    using quiet_trans [OF 2 take_backpressure_quiet] by (metis prod.collapse)
  then show ?thesis by (simp add: keepalive_session_def q split_beta Let_def del: if_split)
qed

lemma queue_keepalive_pings_ok:
  assumes ok: "server_ok k sv"
  shows "server_ok k (queue_keepalive_pings e rnd sv)"
proof -
  let ?f = "keepalive_session rnd (e_now e) (tc_session_keepalive_interval (sv_config sv)) (unix_timestamp_millis e)"
  have eq: "map (\<lambda>(addr, s, _, _). (addr, s)) (map (\<lambda>(addr, s). (addr, ?f s)) ss) = map (\<lambda>(a, s). (a, fst (?f s))) ss" for ss
    by (induction ss) (auto split: prod.splits)
  have "server_ok k (sv\<lparr>sv_sessions := map (\<lambda>(a, s). (a, fst (?f s))) (sv_sessions sv)\<rparr>)"
    by (rule server_ok_map [OF ok keepalive_session_quiet])
  then have "server_ok k (sv\<lparr>sv_sessions := map (\<lambda>(a, s). (a, fst (?f s))) (sv_sessions sv), sv_counters := ct\<rparr>)" for ct
    by (simp add: server_ok_def)
  then show ?thesis unfolding queue_keepalive_pings_def Let_def eq using ok by (auto intro: foldl_ok close_session_ok)
qed

lemma on_tick_snd_quiet: "quiet s (snd (on_tick rnd s now a b c d))"
  using on_tick_quiet by (metis prod.collapse)

lemma fine_send_datagrams: "server_ok k sv \<Longrightarrow> fine k (and_return (send_datagrams e sv ds) r)"
  using same_tables_sends [of sv e ds] send_datagrams_fault [of e sv ds]
  by (auto simp: fine_def snd_and_return fst_and_return intro: same_tables_ok) (metis prod.collapse)

lemma tick_outbound_fine:
  assumes "server_ok k sv"
  shows "fine k (tick_outbound e rnd sv a b c d)"
proof -
  define sv1 where "sv1 = tick_limiter e (queue_keepalive_pings e rnd (housekeeping e sv None))"
  have ok: "server_ok k sv1"
    unfolding sv1_def by (rule same_tables_ok [OF tick_limiter_same queue_keepalive_pings_ok [OF housekeeping_ok [OF assms]]])
  have eq: "map (\<lambda>(addr, _, s). (addr, s)) (map (\<lambda>(addr, s). (addr, on_tick rnd s (e_now e) a b c d)) ss)
    = map (\<lambda>(addr, s). (addr, snd (on_tick rnd s (e_now e) a b c d))) ss" for ss
    by (induction ss) (auto split: prod.splits)
  show ?thesis
    unfolding tick_outbound_def Let_def sv1_def [symmetric] eq
    by (rule fine_send_datagrams [OF server_ok_map [OF ok on_tick_snd_quiet]])
qed

lemma dispatch_payload_ok:
  assumes ok: "server_ok k sv"
  shows "server_ok k (snd (dispatch_payload e rnd sv a payload rel ch pr rid))"
proof (cases "map_of (sv_sessions sv) a")
  case None
  then show ?thesis using ok by (simp add: dispatch_payload_def)
next
  case (Some s)
  obtain r s1 where q: "queue_payload_with_receipt rnd s payload rel ch pr rid = (r, s1)" by fastforce
  obtain asked s2 where t: "(if r = DisconnectRequested then (True, s1) else take_backpressure_disconnect s1) = (asked, s2)" by fastforce
  have "quiet s s2"
    using t queue_payload_quiet [OF q] by (auto split: if_splits dest!: take_backpressure_quiet intro: quiet_trans)
  with server_ok_session [OF ok Some] have "server_ok k (sv\<lparr>sv_sessions := AList.update a s2 (sv_sessions sv)\<rparr>)"
    by (intro server_ok_update [OF ok]) (simp_all add: Some quiet_def)
  then show ?thesis by (simp add: dispatch_payload_def Some q t close_session_ok Let_def split: prod.split)
qed

lemma disconnect_peer_ok: "server_ok k sv \<Longrightarrow> server_ok k (snd (disconnect_peer e sv a))"
  by (simp add: disconnect_peer_def close_session_ok tally_ok)

end
