(* ===== verification/ServerRuns.thy ===== *)
theory ServerRuns
  imports ServerHandlers
begin

text \<open>
  Runs of the transport server: any sequence of calls, each with its own readings of the clocks, the
  socket and the random source, and with whatever datagrams the network brings.
\<close>

section \<open>Runs\<close>

datatype ServerInput =
    RecvFrom SocketAddr bytes
  | TickOutbound usize usize usize usize
  | SendDatagram SocketAddr Datagram
  | QueuePayload SocketAddr bytes Reliability u8 RakPriority "u64 option"
  | DisconnectPeer SocketAddr
  | SetProxyRouter ProxyRouter
  | ClearProxyRouter
  | AddRateLimitException IpAddr
  | RemoveRateLimitException IpAddr
  | SetRateLimitConfig usize usize Duration Duration
  | SetPerIpPacketLimit usize
  | SetGlobalPacketLimit usize
  | SetRateWindow Duration
  | SetBlockDuration Duration
  | SetProcessingBudgetConfig ProcessingBudgetConfig
  | BlockAddress IpAddr
  | BlockAddressFor IpAddr Duration
  | UnblockAddress IpAddr

definition fault_of :: "(Fault + 'a) \<times> TransportServer \<Rightarrow> Fault option \<times> TransportServer" where
  "fault_of res = (case fst res of Inl f \<Rightarrow> Some f | Inr _ \<Rightarrow> None, snd res)"

fun server_step :: "(bytes \<Rightarrow> bytes \<Rightarrow> bytes) \<Rightarrow> rounding \<Rightarrow> TransportServer \<Rightarrow> ServerEnv \<Rightarrow> ServerInput \<Rightarrow> Fault option \<times> TransportServer" where
  "server_step hmac rnd sv e (RecvFrom addr raw) = fault_of (recv_and_process e hmac rnd sv addr raw)"
| "server_step hmac rnd sv e (TickOutbound a b c d) = fault_of (tick_outbound e rnd sv a b c d)"
| "server_step hmac rnd sv e (SendDatagram addr d) = fault_of (send_datagram e sv addr d)"
| "server_step hmac rnd sv e (QueuePayload addr payload rel ch pr rid) = (None, snd (dispatch_payload e rnd sv addr payload rel ch pr rid))"
| "server_step hmac rnd sv e (DisconnectPeer addr) = (None, snd (disconnect_peer e sv addr))"
| "server_step hmac rnd sv e (SetProxyRouter router) = (None, set_proxy_router sv router)"
| "server_step hmac rnd sv e ClearProxyRouter = (None, clear_proxy_router sv)"
| "server_step hmac rnd sv e (AddRateLimitException ip) = (None, add_rate_limit_exception sv ip)"
| "server_step hmac rnd sv e (RemoveRateLimitException ip) = (None, remove_rate_limit_exception sv ip)"
| "server_step hmac rnd sv e (SetRateLimitConfig a b c d) = (None, set_rate_limit_config e sv a b c d)"
| "server_step hmac rnd sv e (SetPerIpPacketLimit n) = (None, set_per_ip_packet_limit e sv n)"
| "server_step hmac rnd sv e (SetGlobalPacketLimit n) = (None, set_global_packet_limit e sv n)"
| "server_step hmac rnd sv e (SetRateWindow w) = (None, set_rate_window e sv w)"
| "server_step hmac rnd sv e (SetBlockDuration d) = (None, server_set_block_duration sv d)"
| "server_step hmac rnd sv e (SetProcessingBudgetConfig c) = (None, server_set_processing_budget_config e sv c)"
| "server_step hmac rnd sv e (BlockAddress ip) = (None, snd (server_block_address sv ip))"
| "server_step hmac rnd sv e (BlockAddressFor ip d) = (None, snd (server_block_address_for e sv ip d))"
| "server_step hmac rnd sv e (UnblockAddress ip) = (None, snd (server_unblock_address sv ip))"

fun server_run :: "(bytes \<Rightarrow> bytes \<Rightarrow> bytes) \<Rightarrow> rounding \<Rightarrow> TransportServer \<Rightarrow> (ServerEnv \<times> ServerInput) list \<Rightarrow> TransportServer" where
  "server_run hmac rnd sv [] = sv"
| "server_run hmac rnd sv ((e, i) # xs) = server_run hmac rnd (snd (server_step hmac rnd sv e i)) xs"

lemma server_run_append: "server_run hmac rnd sv (xs @ ys) = server_run hmac rnd (server_run hmac rnd sv xs) ys"
  by (induction xs arbitrary: sv) auto

section \<open>The invariant over runs\<close>

lemma fault_of_fine: "fine k res \<Longrightarrow> server_ok k (snd (fault_of res)) \<and> fst (fault_of res) \<noteq> Some Panicked"
  by (auto simp: fault_of_def fine_def split: sum.splits)

text \<open>Settings change neither the tables nor the core of the configuration.\<close>

lemma settings_ok:
  assumes "server_ok k sv" "core_config (sv_config sv') = core_config (sv_config sv)" "sv_sessions sv' = sv_sessions sv"
    "sv_session_pipelines sv' = sv_session_pipelines sv" "sv_pending_handshakes sv' = sv_pending_handshakes sv"
  shows "server_ok k sv'"
proof -
  have core: "tc_max_sessions c = tc_max_sessions (core_config c)" "tc_unhandled_queue_max_frames c = tc_unhandled_queue_max_frames (core_config c)"
    "tc_unhandled_queue_max_bytes c = tc_unhandled_queue_max_bytes (core_config c)" "tc_session_tunables c = tc_session_tunables (core_config c)" for c
    by (simp_all add: core_config_def)
  have "tc_max_sessions (sv_config sv') = tc_max_sessions (sv_config sv)" "tc_session_tunables (sv_config sv') = tc_session_tunables (sv_config sv)"
    "tc_unhandled_queue_max_frames (sv_config sv') = tc_unhandled_queue_max_frames (sv_config sv)"
    "tc_unhandled_queue_max_bytes (sv_config sv') = tc_unhandled_queue_max_bytes (sv_config sv)"
    using assms(2) core by metis+
  with assms show ?thesis by (simp add: server_ok_def tables_ok_def pipeline_fits_def)
qed

lemmas settings_defs = set_proxy_router_def clear_proxy_router_def add_rate_limit_exception_def remove_rate_limit_exception_def
  set_rate_limit_config_def set_per_ip_packet_limit_def set_global_packet_limit_def set_rate_window_def
  server_set_block_duration_def server_set_processing_budget_config_def server_block_address_def
  server_block_address_for_def server_unblock_address_def

lemma server_step_ok:
  assumes ok: "server_ok k sv"
  shows "server_ok k (snd (server_step hmac rnd sv e i)) \<and> fst (server_step hmac rnd sv e i) \<noteq> Some Panicked"
proof (cases i)
  case (RecvFrom addr raw)
  then show ?thesis using fault_of_fine [OF recv_and_process_fine [OF ok]] by simp
next
  case (TickOutbound a b c d)
  then show ?thesis using fault_of_fine [OF tick_outbound_fine [OF ok]] by simp
next
  case (SendDatagram addr d)
  have "fine k (send_datagram e sv addr d)"
    using same_tables_ok [OF same_tables_send ok] send_encoded_fault by (metis fine_def prod.collapse send_datagram_def)
  then show ?thesis using SendDatagram fault_of_fine by fastforce
qed (use ok in \<open>auto simp: dispatch_payload_ok disconnect_peer_ok settings_defs Let_def split_beta core_config_def intro: settings_ok [OF ok]\<close>)

lemma server_run_ok: "server_ok k sv \<Longrightarrow> server_ok k (server_run hmac rnd sv xs)"
  by (induction xs arbitrary: sv) (auto simp: server_step_ok)

lemma with_socket_ok:
  assumes "config_validate c = Inr ()" "cg_slow_start_threshold (resolved_congestion_settings (tc_session_tunables c)) \<noteq> NaN"
    and "tc_unhandled_queue_max_bytes c < U64_MAX"
  shows "server_ok c (with_socket e c)"
  using validated_real_params [OF config_valid_limits(4) [OF assms(1)] assms(2)] assms(3)
  by (auto simp: server_ok_def tables_ok_def with_socket_def Let_def)


definition quiet_env :: "Instant \<Rightarrow> ServerEnv" where
  "quiet_env t = \<lparr>e_now = t, e_clock = t, e_since_epoch = Some t, e_local_addr = None, e_sends = (\<lambda>_ _. True),
     e_getrandom = Some (replicate 32 7)\<rparr>"


end
