(* ===== verification/ServerPruning.thy ===== *)
theory ServerPruning
  imports ServerRuns
begin

text \<open>
  What the housekeeping at the start of a call guarantees: no handshake outlives its deadline and no
  connection outlives the idle timeout.
\<close>

section \<open>Removing several addresses\<close>

lemma foldl_delete:
  assumes "\<And>sv x. X (f sv x) = AList.delete (g x) (X sv)"
  shows "map_of (X (foldl f sv xs)) b = (if b \<in> g ` set xs then None else map_of (X sv) b)"
  by (induction xs arbitrary: sv) (auto simp: assms delete_map_of)

lemma count_timeout_tables: "same_tables sv (tally f (count_timeout st sv))"
  by (rule same_tables_trans [OF same_tables_timeout same_tables_simple(1)])

lemma expire_handshake_tables:
  "sv_sessions (expire_handshake e sv x) = AList.delete (fst x) (sv_sessions sv)"
  "sv_pending_handshakes (expire_handshake e sv x) = AList.delete (fst x) (sv_pending_handshakes sv)"
  "sv_config (expire_handshake e sv x) = sv_config sv"
proof -
  obtain a p where x: "x = (a, p)" by (cases x)
  have "same_tables sv (snd (record_handshake_violation (tally ct_handshake_stage_cancel_drops_update (count_timeout (ph_stage p) sv))
      a (timeout_violation (ph_stage p)) (e_now e)))"
    by (rule same_tables_trans [OF count_timeout_tables same_tables_records(2)])
  then show "sv_sessions (expire_handshake e sv x) = AList.delete (fst x) (sv_sessions sv)"
    "sv_pending_handshakes (expire_handshake e sv x) = AList.delete (fst x) (sv_pending_handshakes sv)"
    "sv_config (expire_handshake e sv x) = sv_config sv"
    by (simp_all add: expire_handshake_def x Let_def split_beta close_session_tables same_tables_def)
qed

lemma foldl_config:
  assumes "\<And>sv x. sv_config (f sv x) = sv_config sv"
  shows "sv_config (foldl f sv xs) = sv_config sv"
  by (induction xs arbitrary: sv) (simp_all add: assms)

section \<open>After the housekeeping\<close>

definition live_tables :: "TransportServer \<Rightarrow> Instant \<Rightarrow> SocketAddr option \<Rightarrow> bool" where
  "live_tables sv now protected_addr \<longleftrightarrow>
     (\<forall>a p. map_of (sv_pending_handshakes sv) a = Some p \<longrightarrow> now < ph_expires_at p)
     \<and> (tc_session_idle_timeout (sv_config sv) \<noteq> 0 \<longrightarrow>
         (\<forall>a s. map_of (sv_sessions sv) a = Some s \<longrightarrow> ss_state s = Connected \<longrightarrow> Some a \<noteq> protected_addr \<longrightarrow>
            idle_for s now < tc_session_idle_timeout (sv_config sv)))"

lemma prune_pending_live:
  assumes "keys_distinct (sv_pending_handshakes sv)" "map_of (sv_pending_handshakes (prune_pending_handshakes e sv)) a = Some p"
  shows "e_now e < ph_expires_at p"
proof -
  let ?ex = "filter (\<lambda>(_, pending). ph_expires_at pending \<le> e_now e) (sv_pending_handshakes sv)"
  have "sv_pending_handshakes (prune_pending_handshakes e sv) = sv_pending_handshakes (foldl (expire_handshake e) sv ?ex)"
    using same_tables_simple(6) by (simp add: prune_pending_handshakes_def Let_def same_tables_def)
  with assms(2) have m: "map_of (sv_pending_handshakes sv) a = Some p" "a \<notin> fst ` set ?ex"
    using foldl_delete [of sv_pending_handshakes "expire_handshake e" fst sv ?ex a] expire_handshake_tables(2) by (auto split: if_splits)
  have "(a, p) \<notin> set ?ex" using m(2) by force
  with map_of_SomeD [OF m(1)] show ?thesis by auto
qed

lemma prune_idle_live:
  assumes "keys_distinct (sv_sessions sv)" "\<And>a p. map_of (sv_pending_handshakes sv) a = Some p \<Longrightarrow> e_now e < ph_expires_at p"
  shows "live_tables (prune_idle_sessions e sv pa) (e_now e) pa"
proof -
  let ?t = "tc_session_idle_timeout (sv_config sv)"
  let ?stale = "map fst (filter (\<lambda>(addr, s). Some addr \<noteq> pa \<and> ss_state s = Connected \<and> idle_for s (e_now e) \<ge> ?t) (sv_sessions sv))"
  let ?f = "\<lambda>sv addr. close_session e (tally ct_timed_out_sessions_update sv) addr"
  have f: "sv_sessions (?f sv x) = AList.delete x (sv_sessions sv)" "sv_pending_handshakes (?f sv x) = AList.delete x (sv_pending_handshakes sv)"
    "sv_config (?f sv x) = sv_config sv" for sv x
    by (simp_all add: close_session_tables tally_def)
  have "idle_for s (e_now e) < ?t" if "map_of (sv_sessions (foldl ?f sv ?stale)) a = Some s" "ss_state s = Connected" "Some a \<noteq> pa" for a s
  proof -
    have m: "map_of (sv_sessions sv) a = Some s" "a \<notin> set ?stale"
      using that(1) foldl_delete [of sv_sessions ?f "\<lambda>x. x" sv ?stale a] f(1) by (auto split: if_splits)
    have "(a, s) \<in> set (sv_sessions sv)" using map_of_SomeD [OF m(1)] .
    with m(2) that(2,3) show ?thesis by force
  qed
  moreover have "e_now e < ph_expires_at p" if "map_of (sv_pending_handshakes (foldl ?f sv ?stale)) a = Some p" for a p
    using that assms(2) foldl_delete [of sv_pending_handshakes ?f "\<lambda>x. x" sv ?stale a] f(2) by (auto split: if_splits)
  moreover have "sv_config (foldl ?f sv ?stale) = sv_config sv" by (rule foldl_config) (rule f(3))
  ultimately show ?thesis
    using assms(2) by (auto simp: prune_idle_sessions_def Let_def live_tables_def)
qed

abbreviation before_idle_pruning :: "ServerEnv \<Rightarrow> TransportServer \<Rightarrow> TransportServer" where
  "before_idle_pruning e sv \<equiv>
     prune_ip_recently_connected (prune_cookie_mismatch_guard_states (prune_pending_handshakes e sv) (e_now e)) (e_now e)"

lemma before_idle_pruning_same: "same_tables (prune_pending_handshakes e sv) (before_idle_pruning e sv)"
  by (rule same_tables_trans [OF same_tables_simple(5) same_tables_simple(8)])

lemma before_idle_pruning_ok:
  assumes "server_ok k sv"
  shows "server_ok k (before_idle_pruning e sv)"
proof -
  have "server_ok k (prune_pending_handshakes e sv)"
    unfolding prune_pending_handshakes_def Let_def
    by (rule same_tables_ok [OF same_tables_simple(6) foldl_ok [OF expire_handshake_ok assms]])
  then show ?thesis by (rule same_tables_ok [OF before_idle_pruning_same])
qed

lemma housekeeping_live:
  assumes ok: "server_ok k sv"
  shows "live_tables (housekeeping e sv pa) (e_now e) pa"
proof -
  have "keys_distinct (sv_sessions (before_idle_pruning e sv))"
    using server_ok_keys [OF before_idle_pruning_ok [OF ok]] by blast
  moreover have "e_now e < ph_expires_at p" if "map_of (sv_pending_handshakes (before_idle_pruning e sv)) a = Some p" for a p
    using that prune_pending_live [of sv e a p] server_ok_keys [OF ok] before_idle_pruning_same [of e sv]
    unfolding same_tables_def by metis
  ultimately show ?thesis unfolding housekeeping_def Let_def by (rule prune_idle_live)
qed

text \<open>An address whose handshake has its deadline ahead is left alone, unless it is connected and not protected.\<close>

lemma unexpired_kept:
  assumes ok: "server_ok k sv" and s: "map_of (sv_sessions sv) a = Some s" and p: "map_of (sv_pending_handshakes sv) a = Some p"
    and t: "e_now e < ph_expires_at p"
  shows "map_of (sv_sessions (before_idle_pruning e sv)) a = Some s" "map_of (sv_pending_handshakes (before_idle_pruning e sv)) a = Some p"
proof -
  let ?ex = "filter (\<lambda>(_, pending). ph_expires_at pending \<le> e_now e) (sv_pending_handshakes sv)"
  have "a \<notin> fst ` set ?ex"
  proof
    assume "a \<in> fst ` set ?ex"
    then obtain q where q: "(a, q) \<in> set (sv_pending_handshakes sv)" "ph_expires_at q \<le> e_now e" by auto
    then have "q = p" using p server_ok_keys [OF ok] by (auto dest!: map_of_is_SomeI)
    with q t show False by simp
  qed
  then have 1: "map_of (sv_sessions (foldl (expire_handshake e) sv ?ex)) a = Some s"
    "map_of (sv_pending_handshakes (foldl (expire_handshake e) sv ?ex)) a = Some p"
    using s p foldl_delete [of sv_sessions "expire_handshake e" fst sv ?ex a] foldl_delete [of sv_pending_handshakes "expire_handshake e" fst sv ?ex a]
      expire_handshake_tables by simp_all
  have "same_tables (foldl (expire_handshake e) sv ?ex) (before_idle_pruning e sv)"
    unfolding prune_pending_handshakes_def Let_def
    by (rule same_tables_trans [OF same_tables_trans [OF same_tables_simple(6) same_tables_simple(5)] same_tables_simple(8)])
  with 1 show "map_of (sv_sessions (before_idle_pruning e sv)) a = Some s"
    "map_of (sv_pending_handshakes (before_idle_pruning e sv)) a = Some p" by (simp_all add: same_tables_def)
qed

lemma housekeeping_keeps:
  assumes ok: "server_ok k sv" and s: "map_of (sv_sessions sv) a = Some s" and p: "map_of (sv_pending_handshakes sv) a = Some p"
    and t: "e_now e < ph_expires_at p" and pa: "pa = Some a \<or> ss_state s \<noteq> Connected"
  shows "map_of (sv_sessions (housekeeping e sv pa)) a = Some s" "map_of (sv_pending_handshakes (housekeeping e sv pa)) a = Some p"
proof -
  define sv1 where "sv1 = before_idle_pruning e sv"
  note 1 = unexpired_kept [OF ok s p t, folded sv1_def]
  let ?t = "tc_session_idle_timeout (sv_config sv1)"
  let ?stale = "map fst (filter (\<lambda>(addr, s). Some addr \<noteq> pa \<and> ss_state s = Connected \<and> idle_for s (e_now e) \<ge> ?t) (sv_sessions sv1))"
  let ?f = "\<lambda>sv addr. close_session e (tally ct_timed_out_sessions_update sv) addr"
  have f: "sv_sessions (?f sv x) = AList.delete x (sv_sessions sv)" "sv_pending_handshakes (?f sv x) = AList.delete x (sv_pending_handshakes sv)" for sv x
    by (simp_all add: close_session_tables tally_def)
  have "a \<notin> (\<lambda>x. x) ` set ?stale"
  proof
    assume "a \<in> (\<lambda>x. x) ` set ?stale"
    then obtain s' where s': "(a, s') \<in> set (sv_sessions sv1)" "Some a \<noteq> pa" "ss_state s' = Connected" by auto
    then have "s' = s" using 1(1) server_ok_keys [OF before_idle_pruning_ok [OF ok, of e, folded sv1_def]] by (auto dest!: map_of_is_SomeI)
    with s' pa show False by auto
  qed
  then show "map_of (sv_sessions (housekeeping e sv pa)) a = Some s" "map_of (sv_pending_handshakes (housekeeping e sv pa)) a = Some p"
    unfolding housekeeping_def Let_def sv1_def [symmetric] prune_idle_sessions_def
    using 1 foldl_delete [of sv_sessions ?f "\<lambda>x. x" sv1 ?stale a] foldl_delete [of sv_pending_handshakes ?f "\<lambda>x. x" sv1 ?stale a] f
    by simp_all
qed

section \<open>After a tick\<close>

lemma live_close: "live_tables sv now pa \<Longrightarrow> live_tables (close_session e sv a) now pa"
  by (auto simp: live_tables_def close_session_tables delete_map_of)

lemma live_foldl_close: "live_tables sv now pa \<Longrightarrow> live_tables (foldl (close_session e) sv xs) now pa"
  by (induction xs arbitrary: sv) (simp_all add: live_close)

lemma live_same: "same_tables sv sv' \<Longrightarrow> live_tables sv now pa \<Longrightarrow> live_tables sv' now pa"
  by (simp add: same_tables_def live_tables_def)

lemma live_map:
  assumes "live_tables sv now pa" "\<And>s. quiet s (f s)"
  shows "live_tables (sv\<lparr>sv_sessions := map (\<lambda>(a, s). (a, f s)) (sv_sessions sv), sv_counters := ct\<rparr>) now pa"
  using assms by (auto simp: live_tables_def map_of_map quiet_def idle_for_def)

lemma live_keepalive:
  assumes "live_tables sv now pa"
  shows "live_tables (queue_keepalive_pings e rnd sv) now pa"
proof -
  let ?f = "keepalive_session rnd (e_now e) (tc_session_keepalive_interval (sv_config sv)) (unix_timestamp_millis e)"
  have eq: "map (\<lambda>(addr, s, _, _). (addr, s)) (map (\<lambda>(addr, s). (addr, ?f s)) ss) = map (\<lambda>(a, s). (a, fst (?f s))) ss" for ss
    by (induction ss) (auto split: prod.splits)
  show ?thesis unfolding queue_keepalive_pings_def Let_def eq
    using assms live_map [OF assms keepalive_session_quiet] by (auto intro: live_foldl_close)
qed

lemma keepalive_keeps:
  assumes ok: "server_ok k sv" and s: "map_of (sv_sessions sv) a = Some s" "ss_state s \<noteq> Connected"
  shows "map_of (sv_sessions (queue_keepalive_pings e rnd sv)) a = Some s
    \<and> map_of (sv_pending_handshakes (queue_keepalive_pings e rnd sv)) a = map_of (sv_pending_handshakes sv) a"
proof -
  let ?f = "keepalive_session rnd (e_now e) (tc_session_keepalive_interval (sv_config sv)) (unix_timestamp_millis e)"
  have eq: "map (\<lambda>(addr, s, _, _). (addr, s)) (map (\<lambda>(addr, s). (addr, ?f s)) ss) = map (\<lambda>(a, s). (a, fst (?f s))) ss" for ss
    by (induction ss) (auto split: prod.splits)
  let ?asked = "map fst (filter (\<lambda>(_, _, _, asked). asked) (map (\<lambda>(addr, s). (addr, ?f s)) (sv_sessions sv)))"
  have f: "?f s = (s, False, False)" using s(2) by (simp add: keepalive_session_def should_send_keepalive_def)
  have "a \<notin> (\<lambda>x. x) ` set ?asked"
  proof
    assume "a \<in> (\<lambda>x. x) ` set ?asked"
    then obtain s' where s': "(a, s') \<in> set (sv_sessions sv)" "snd (snd (?f s'))"
      by (auto simp: image_iff) (metis snd_conv)
    then have "s' = s" using s(1) server_ok_keys [OF ok] by (auto dest!: map_of_is_SomeI)
    with s' f show False by simp
  qed
  moreover define sv1 where "sv1 = sv\<lparr>sv_sessions := map (\<lambda>(a, s). (a, fst (?f s))) (sv_sessions sv), sv_counters := ct_keepalive_pings_sent_update
     (\<lambda>n. sat_add n (length (filter (\<lambda>(_, _, pinged, _). pinged) (map (\<lambda>(addr, s). (addr, ?f s)) (sv_sessions sv))))) (sv_counters sv)\<rparr>"
  moreover have "map_of (sv_sessions sv1) a = Some s" "sv_pending_handshakes sv1 = sv_pending_handshakes sv"
    using s f by (simp_all add: sv1_def map_of_map)
  ultimately have "map_of (sv_sessions (foldl (close_session e) sv1 ?asked)) a = Some s"
    "map_of (sv_pending_handshakes (foldl (close_session e) sv1 ?asked)) a = map_of (sv_pending_handshakes sv) a"
    using foldl_delete [of sv_sessions "close_session e" "\<lambda>x. x" sv1 ?asked a] foldl_delete [of sv_pending_handshakes "close_session e" "\<lambda>x. x" sv1 ?asked a]
    by (simp_all add: close_session_tables)
  then show ?thesis unfolding queue_keepalive_pings_def Let_def eq sv1_def [symmetric] using s by simp
qed

text \<open>What a tick does to the sessions once the housekeeping and the pings are done.\<close>

lemma tick_outbound_sessions:
  assumes run: "tick_outbound e rnd sv n1 b1 n2 b2 = (r, sv')"
    and sv1: "sv1 = tick_limiter e (queue_keepalive_pings e rnd (housekeeping e sv None))"
  shows "same_tables (sv1\<lparr>sv_sessions := map (\<lambda>(addr, s). (addr, snd (on_tick rnd s (e_now e) n1 b1 n2 b2))) (sv_sessions sv1)\<rparr>) sv'"
proof -
  have eq: "map (\<lambda>(addr, _, s). (addr, s)) (map (\<lambda>(addr, s). (addr, on_tick rnd s (e_now e) n1 b1 n2 b2)) ss)
    = map (\<lambda>(addr, s). (addr, snd (on_tick rnd s (e_now e) n1 b1 n2 b2))) ss" for ss
    by (induction ss) (auto split: prod.splits)
  show ?thesis using run same_tables_sends snd_and_return unfolding tick_outbound_def Let_def sv1 [symmetric] eq by (metis snd_conv)
qed

lemma tick_keeps_handshake:
  assumes ok: "server_ok k sv" and run: "tick_outbound e rnd sv n1 b1 n2 b2 = (r, sv')"
    and s: "map_of (sv_sessions sv) a = Some s" "ss_state s \<noteq> Connected"
    and p: "map_of (sv_pending_handshakes sv) a = Some p" "e_now e < ph_expires_at p"
  shows "map_of (sv_pending_handshakes sv') a = Some p \<and> (\<exists>s'. map_of (sv_sessions sv') a = Some s' \<and> ss_state s' = ss_state s)"
proof -
  define sv1 where "sv1 = tick_limiter e (queue_keepalive_pings e rnd (housekeeping e sv None))"
  note 1 = housekeeping_keeps [OF ok s(1) p disjI2 [OF s(2)], of None]
  note 2 = keepalive_keeps [OF housekeeping_ok [OF ok] 1(1) s(2), of e rnd]
  have 3: "map_of (sv_sessions sv1) a = Some s" "map_of (sv_pending_handshakes sv1) a = Some p"
    using 1 2 tick_limiter_same [of _ e] by (simp_all add: sv1_def same_tables_def)
  let ?s = "snd (on_tick rnd s (e_now e) n1 b1 n2 b2)"
  have "ss_state ?s = ss_state s" using on_tick_snd_quiet [of s rnd] by (simp add: quiet_def)
  moreover have "map_of (sv_sessions sv') a = Some ?s" "map_of (sv_pending_handshakes sv') a = Some p"
    using tick_outbound_sessions [OF run sv1_def] 3 by (simp_all add: same_tables_def map_of_map)
  ultimately show ?thesis by blast
qed

text \<open>C14: after a tick at some instant every session is either in a handshake whose deadline is still ahead,
  or connected, and a connected session was active within the idle timeout.  On the other hand the tick drops
  no session whose handshake is still under way and has its deadline ahead: it keeps its state and its
  pending handshake.\<close>

theorem tick_leaves_live_sessions:
  assumes ok: "server_ok k sv" and timeout: "tc_session_idle_timeout (sv_config sv) \<noteq> 0"
    and run: "tick_outbound e rnd sv n1 b1 n2 b2 = (r, sv')"
  shows "(\<forall>s. map_of (sv_sessions sv') a = Some s \<longrightarrow>
        (case map_of (sv_pending_handshakes sv') a of Some p \<Rightarrow> e_now e < ph_expires_at p | None \<Rightarrow> ss_state s = Connected)
        \<and> (ss_state s = Connected \<longrightarrow> e_now e - ss_last_activity s < tc_session_idle_timeout (sv_config sv)))
    \<and> (\<forall>s p. map_of (sv_sessions sv) a = Some s \<and> ss_state s \<noteq> Connected
        \<and> map_of (sv_pending_handshakes sv) a = Some p \<and> e_now e < ph_expires_at p \<longrightarrow>
        map_of (sv_pending_handshakes sv') a = Some p \<and> (\<exists>s'. map_of (sv_sessions sv') a = Some s' \<and> ss_state s' = ss_state s))"
proof (intro conjI allI impI)
  fix s assume s: "map_of (sv_sessions sv') a = Some s"
  define sv1 where "sv1 = tick_limiter e (queue_keepalive_pings e rnd (housekeeping e sv None))"
  have 1: "live_tables sv1 (e_now e) None"
    unfolding sv1_def by (rule live_same [OF tick_limiter_same live_keepalive [OF housekeeping_live [OF ok]]])
  have t: "live_tables sv' (e_now e) None"
    by (rule live_same [OF tick_outbound_sessions [OF run sv1_def]])
       (use live_map [OF 1 on_tick_snd_quiet, of "sv_counters sv1"] in simp)
  have ok': "server_ok k sv'" using tick_outbound_fine [OF ok, of e rnd n1 b1 n2 b2] run by simp
  have "core_config (sv_config sv') = core_config (sv_config sv)" using ok ok' by (simp add: server_ok_def)
  then have c: "tc_session_idle_timeout (sv_config sv') = tc_session_idle_timeout (sv_config sv)"
    by (cases "sv_config sv"; cases "sv_config sv'"; simp add: core_config_def)
  show "case map_of (sv_pending_handshakes sv') a of Some p \<Rightarrow> e_now e < ph_expires_at p | None \<Rightarrow> ss_state s = Connected"
    using t s server_ok_session(1) [OF ok' s] by (auto simp: live_tables_def stage_ok_def split: option.splits)
  show "e_now e - ss_last_activity s < tc_session_idle_timeout (sv_config sv)" if "ss_state s = Connected"
    using t s timeout c that by (auto simp: live_tables_def idle_for_def)
next
  fix s p assume "map_of (sv_sessions sv) a = Some s \<and> ss_state s \<noteq> Connected
    \<and> map_of (sv_pending_handshakes sv) a = Some p \<and> e_now e < ph_expires_at p"
  then show "map_of (sv_pending_handshakes sv') a = Some p" "\<exists>s'. map_of (sv_sessions sv') a = Some s' \<and> ss_state s' = ss_state s"
    using tick_keeps_handshake [OF ok run] by blast+
qed

end
