(* ===== verification/ServerCookies.thy ===== *)
theory ServerCookies
  imports ServerRuns
begin

text \<open>
  With cookies switched on, an address gets past the first stage of the handshake only by a second
  request that carries a cookie the server accepts.  \<open>cleared\<close> says that an address has a session
  that is no longer waiting for the second request.
\<close>

section \<open>Addresses past the first stage\<close>

definition cleared :: "TransportServer \<Rightarrow> SocketAddr \<Rightarrow> bool" where
  "cleared sv a \<longleftrightarrow> map_of (sv_sessions sv) a \<noteq> None
     \<and> (case map_of (sv_pending_handshakes sv) a of Some p \<Rightarrow> ph_stage p = AwaitingConnectionRequest | None \<Rightarrow> True)"

definition no_gain :: "TransportServer \<Rightarrow> TransportServer \<Rightarrow> bool" where
  "no_gain sv sv' \<longleftrightarrow> (\<forall>a. cleared sv' a \<longrightarrow> cleared sv a)"

lemma no_gain_refl [simp]: "no_gain sv sv"
  by (simp add: no_gain_def)

lemma no_gain_trans [trans]: "no_gain sv sv1 \<Longrightarrow> no_gain sv1 sv2 \<Longrightarrow> no_gain sv sv2"
  by (simp add: no_gain_def)

lemma no_gain_same: "same_tables sv sv' \<Longrightarrow> no_gain sv sv'"
  by (simp add: no_gain_def cleared_def same_tables_def)

lemma no_gain_close: "no_gain sv (close_session e sv a)"
  by (auto simp: no_gain_def cleared_def close_session_tables delete_map_of split: if_splits)

lemma no_gain_foldl:
  assumes "\<And>sv x. no_gain sv (f sv x)"
  shows "no_gain sv (foldl f sv xs)"
proof (induction xs arbitrary: sv)
  case (Cons x xs)
  then show ?case using no_gain_trans [OF assms [of sv x] Cons] by simp
qed simp

lemmas no_gain_tally = no_gain_same [OF same_tables_simple(1)]

lemma no_gain_illegal: "no_gain sv (record_illegal_state_transition e sv a)"
  unfolding record_illegal_state_transition_def by (rule no_gain_trans [OF no_gain_tally no_gain_close])

lemma no_gain_expire: "no_gain sv (expire_handshake e sv x)"
proof -
  obtain a p where x: "x = (a, p)" by (cases x)
  let ?sv1 = "tally ct_handshake_stage_cancel_drops_update (count_timeout (ph_stage p) sv)"
  have "no_gain sv (snd (record_handshake_violation ?sv1 a (timeout_violation (ph_stage p)) (e_now e)))"
    by (intro no_gain_same same_tables_trans [OF same_tables_trans [OF same_tables_timeout same_tables_simple(1)] same_tables_records(2)])
  then show ?thesis
    by (auto simp: expire_handshake_def x Let_def split_beta intro: no_gain_trans [OF _ no_gain_close])
qed

lemma no_gain_housekeeping: "no_gain sv (housekeeping e sv pa)"
proof -
  have idle: "no_gain sv (prune_idle_sessions e sv pa)" for sv
    by (auto simp: prune_idle_sessions_def Let_def intro!: no_gain_foldl no_gain_trans [OF no_gain_tally no_gain_close])
  have pend: "no_gain sv (prune_pending_handshakes e sv)" for sv
    unfolding prune_pending_handshakes_def Let_def
    by (rule no_gain_trans [OF no_gain_foldl no_gain_same [OF same_tables_simple(6)]]) (rule no_gain_expire)
  show ?thesis unfolding housekeeping_def Let_def
    by (rule no_gain_trans [OF no_gain_trans [OF no_gain_trans [OF pend no_gain_same [OF same_tables_simple(5)]]
        no_gain_same [OF same_tables_simple(8)]] idle])
qed

text \<open>Replacing the session of an address that has one, and mapping all sessions.\<close>

lemma no_gain_update:
  "map_of (sv_sessions sv) a \<noteq> None \<Longrightarrow> no_gain sv (sv\<lparr>sv_sessions := AList.update a s (sv_sessions sv)\<rparr>)"
  "map_of (sv_sessions sv) a \<noteq> None \<Longrightarrow>
     no_gain sv (sv\<lparr>sv_sessions := AList.update a s (sv_sessions sv), sv_session_pipelines := ps\<rparr>)"
  by (auto simp: no_gain_def cleared_def update_map_of split: if_splits)

lemma no_gain_map: "no_gain sv (sv\<lparr>sv_sessions := map (\<lambda>(a, s). (a, f s)) (sv_sessions sv)\<rparr>)"
  by (auto simp: no_gain_def cleared_def map_of_map split: if_splits)

section \<open>Connected datagrams gain nothing\<close>

lemma no_gain_finish:
  assumes ok: "server_ok k sv \<or> ig_close_session ig" and run: "finish_connected e sv a ig = (r, sv')"
  shows "no_gain sv sv'"
proof (cases "ig_close_session ig")
  case True
  let ?sv1 = "close_session e (case lp_remote_reason (ig_loop ig) of Some r \<Rightarrow> record_remote_disconnect sv r | None \<Rightarrow> sv) a"
  have 1: "no_gain sv ?sv1"
    by (rule no_gain_trans [OF no_gain_same no_gain_close]) (simp add: same_tables_remote split: option.split)
  have "sv_sessions ?sv1 = AList.delete a (sv_sessions (case lp_remote_reason (ig_loop ig) of Some r \<Rightarrow> record_remote_disconnect sv r | None \<Rightarrow> sv))"
    by (rule close_session_tables(3))
  then have none: "map_of (sv_sessions ?sv1) a = None" by (simp add: delete_map_of)
  have "same_tables ?sv1 sv'"
    using run True none
    by (auto simp: finish_connected_def Let_def tally_def same_tables_def split: if_splits prod.splits option.splits)
  then show ?thesis by (rule no_gain_trans [OF 1 no_gain_same])
next
  case False
  with ok have ok: "server_ok k sv" by simp
  have "cleared sv a" if "some_and (map_of (sv_sessions sv) a) (\<lambda>s. ss_state s = Connected)"
    using that server_ok_session(1) [OF ok, of a]
    by (cases "map_of (sv_sessions sv) a") (auto simp: cleared_def stage_ok_def split: option.splits PendingHandshakeStage.splits)
  then have del: "no_gain sv (sv\<lparr>sv_pending_handshakes := AList.delete a (sv_pending_handshakes sv)\<rparr>)"
    if "some_and (map_of (sv_sessions sv) a) (\<lambda>s. ss_state s = Connected)"
    using that by (auto simp: no_gain_def cleared_def delete_map_of)
  have "same_tables (if some_and (map_of (sv_sessions sv) a) (\<lambda>s. ss_state s = Connected)
      then sv\<lparr>sv_pending_handshakes := AList.delete a (sv_pending_handshakes sv)\<rparr> else sv) sv'"
    using run False by (auto simp: finish_connected_def Let_def tally_def same_tables_def split: if_splits prod.splits)
  then show ?thesis by (rule no_gain_trans [OF _ no_gain_same, rotated]) (use del in simp)
qed

lemma no_gain_settle:
  assumes ok: "server_ok k sv" and run: "settle_ingested e sv a ig = (r, sv')" and known: "map_of (sv_sessions sv) a \<noteq> None"
    and ig: "receive_ok (ig_session ig)" "pipeline_fits (sv_config sv) (ig_pipeline ig)"
    and stage: "\<not> ig_close_session ig \<Longrightarrow> stage_ok (map_of (sv_pending_handshakes sv) a) (ss_state (ig_session ig))"
  shows "no_gain sv sv'"
proof -
  define sv1 where "sv1 = sv\<lparr>sv_sessions := AList.update a (ig_session ig) (sv_sessions sv),
    sv_session_pipelines := AList.update a (ig_pipeline ig) (sv_session_pipelines sv)\<rparr>"
  have g1: "no_gain sv sv1" unfolding sv1_def by (rule no_gain_update(2) [OF known])
  have good: "\<not> ig_close_session ig \<Longrightarrow> server_ok k sv1"
    unfolding sv1_def by (rule server_ok_update_both [OF ok known ig(1) _ ig(2)]) (rule stage)
  define send where "send = (if lp_illegal_transition (ig_loop ig) then (Inr (), tally ct_illegal_state_transitions_update sv1)
    else send_datagrams e sv1 (map (Pair a) (ig_datagrams ig)))"
  have same: "same_tables sv1 (snd send)" by (simp add: send_def same_tables_simple same_tables_sends)
  have run': "(case lp_decode_error (ig_loop ig) of Some err \<Rightarrow> (Inr (EvDecodeError a err), sv1)
      | None \<Rightarrow> (case send of (Inl fault, sv2) \<Rightarrow> (Inl fault, sv2) | (Inr _, sv2) \<Rightarrow> finish_connected e sv2 a ig)) = (r, sv')"
    using run unfolding settle_ingested_def Let_def sv1_def [symmetric] send_def [symmetric] .
  have fin: "no_gain sv sv'" if "finish_connected e (snd send) a ig = (r, sv')"
    using no_gain_trans [OF no_gain_trans [OF g1 no_gain_same [OF same]] no_gain_finish [OF _ that, of k]] good same_tables_ok [OF same] by blast
  show ?thesis
    using run' g1 fin no_gain_trans [OF g1 no_gain_same [OF same]] by (auto split: option.splits prod.splits sum.splits)
qed

lemma no_gain_connected:
  assumes ok: "server_ok k sv" and run: "handle_connected e rnd sv a d = (r, sv')" and known: "map_of (sv_sessions sv) a = Some s"
  shows "no_gain sv sv'"
  using ok run known
proof (cases rule: handle_connected_cases)
  case (refused err s1 p)
  then show ?thesis using no_gain_update(2) known by simp
next
  case (ingested ig)
  from no_gain_settle [OF ok ingested(1) _ ingested(2,3)] ingested(4) known show ?thesis by simp
qed

lemma no_gain_recv_connected:
  assumes ok: "server_ok k sv" and run: "recv_connected e rnd sv a raw = (r, sv')"
  shows "no_gain sv sv'"
proof -
  have known: "\<exists>s. map_of (sv_sessions sv) a = Some s"
    if "\<not> (map_of (sv_sessions sv) a = None \<and> map_of (sv_pending_handshakes sv) a = None)"
    using that ok by (cases "map_of (sv_sessions sv) a") (auto simp: server_ok_def tables_ok_def)
  have same: "server_ok k (sv\<lparr>sv_rate_limiter := rl\<rparr>)" "no_gain sv (sv\<lparr>sv_rate_limiter := rl\<rparr>)" for rl
    using same_tables_ok [OF same_tables_simple(2) ok] no_gain_same [OF same_tables_simple(2)] by auto
  have h: "no_gain sv sv'" if "handle_connected e rnd sv0 a d = (r, sv')" "sv0 = sv \<or> (\<exists>rl. sv0 = sv\<lparr>sv_rate_limiter := rl\<rparr>)"
    "\<not> (map_of (sv_sessions sv) a = None \<and> map_of (sv_pending_handshakes sv) a = None)" for sv0 d
    using that known no_gain_connected [OF _ that(1)] ok same no_gain_trans [of sv sv0 sv'] by fastforce
  show ?thesis
    using run h same unfolding recv_connected_def by (auto simp: Let_def split: sum.splits prod.splits if_splits)
qed

section \<open>Offline packets\<close>

lemmas no_gain_replies = no_gain_same [OF same_tables_replies(1)] no_gain_same [OF same_tables_replies(2)]
  no_gain_same [OF same_tables_replies(3)] no_gain_same [OF same_tables_replies(4)] no_gain_same [OF same_tables_replies(5)]

lemma no_gain_waiting:
  assumes "map_of (sv_pending_handshakes sv') a = Some p" "ph_stage p = AwaitingRequest2"
    and "\<And>b. b \<noteq> a \<Longrightarrow> map_of (sv_sessions sv') b = map_of (sv_sessions sv) b \<and> map_of (sv_pending_handshakes sv') b = map_of (sv_pending_handshakes sv) b"
  shows "no_gain sv sv'"
  unfolding no_gain_def
proof (intro allI impI)
  fix b assume "cleared sv' b"
  with assms show "cleared sv b" by (cases "b = a") (auto simp: cleared_def)
qed

lemma no_gain_start: "no_gain sv (snd (start_handshake e hmac rnd sv a requested))"
  unfolding start_handshake_def Let_def
  by (auto simp: update_map_of delete_map_of split: option.split prod.split bool.split
      intro!: no_gain_waiting [where a = a] no_gain_trans [OF no_gain_waiting [where a = a] no_gain_illegal]
        no_gain_trans [OF no_gain_waiting [where a = a] no_gain_replies(1)] simp del: apply_session_transitions.simps)

lemma no_gain_request_1: "no_gain sv (snd (handle_request_1 e hmac rnd sv a req))"
proof -
  obtain recent sv1 where r: "is_ip_recently_connected sv a (e_now e) = (recent, sv1)" by fastforce
  have 1: "no_gain sv sv1" using no_gain_same [OF same_tables_simple(9), of sv a "e_now e"] by (simp add: r)
  show ?thesis unfolding handle_request_1_def Let_def r
    by (auto intro!: no_gain_replies no_gain_trans [OF 1 no_gain_start] no_gain_trans [OF 1 no_gain_replies(5)]
        no_gain_trans [OF no_gain_trans [OF 1 no_gain_tally] no_gain_replies(4)]
        no_gain_trans [OF no_gain_trans [OF 1 no_gain_tally] no_gain_replies(3)])
qed

lemma no_gain_punish: "no_gain sv (snd (punish e sv a v))"
proof -
  obtain b sv1 where r: "record_handshake_violation sv a v (e_now e) = (b, sv1)" by fastforce
  have "no_gain sv sv1" using no_gain_same [OF same_tables_records(2), of sv a v "e_now e"] by (simp add: r)
  then show ?thesis by (auto simp: punish_def r intro: no_gain_trans [OF _ no_gain_replies(2)])
qed

lemma no_gain_expired: "no_gain sv (snd (request_2_expired e sv a p))"
proof -
  let ?sv1 = "tally ct_handshake_stage_cancel_drops_update (count_timeout (ph_stage p) sv)"
  have "no_gain sv (close_session e (snd (record_handshake_violation ?sv1 a (timeout_violation (ph_stage p)) (e_now e))) a)"
    by (intro no_gain_trans [OF no_gain_same no_gain_close] same_tables_trans [OF
        same_tables_trans [OF same_tables_timeout same_tables_simple(1)] same_tables_records(2)])
  then show ?thesis by (auto simp: request_2_expired_def Let_def split_beta intro: no_gain_trans [OF _ no_gain_replies(2)])
qed

lemma no_gain_mismatch: "no_gain sv (snd (request_2_cookie_mismatch e sv a))"
proof -
  let ?sv1 = "tally ct_handshake_stage_cancel_drops_update (tally ct_cookie_mismatch_drops_update sv)"
  let ?sv2 = "snd (record_cookie_mismatch ?sv1 (addr_ip a) (e_now e))"
  have "no_gain sv (snd (record_handshake_violation ?sv2 a CookieMismatch (e_now e)))"
    by (intro no_gain_same same_tables_trans [OF same_tables_trans [OF same_tables_trans [OF same_tables_simple(1) same_tables_simple(1)]
        same_tables_records(1)] same_tables_records(2)])
  then show ?thesis by (auto simp: request_2_cookie_mismatch_def Let_def split_beta intro: no_gain_trans [OF _ no_gain_replies(2)])
qed

lemma no_gain_retry: "no_gain sv (snd (retry_reply_2 e sv a p req))"
  by (auto simp: retry_reply_2_def send_reply_2_def Let_def split: option.split
      intro!: no_gain_illegal no_gain_trans [OF no_gain_update(1) no_gain_replies(1)])

lemma accept_gain:
  assumes "cleared (snd (accept_request_2 e sv a p req)) b" "b \<noteq> a"
  shows "cleared sv b"
proof -
  have upd: "cleared (sv\<lparr>sv_sessions := AList.update a s (sv_sessions sv), sv_pending_handshakes := AList.update a q (sv_pending_handshakes sv)\<rparr>) b = cleared sv b"
    "cleared (sv\<lparr>sv_sessions := AList.update a s (sv_sessions sv)\<rparr>) b = cleared sv b" for s q
    using assms(2) by (simp_all add: cleared_def update_map_of)
  have ill: "cleared (record_illegal_state_transition e sv1 a) b \<Longrightarrow> cleared sv1 b" for sv1
    using no_gain_illegal by (simp add: no_gain_def)
  have snt: "cleared (snd (send_reply_2 e sv1 a mtu)) b \<Longrightarrow> cleared sv1 b" for sv1 mtu
    unfolding send_reply_2_def using no_gain_replies(1) [unfolded no_gain_def, rule_format] .
  show ?thesis
    using assms(1) upd unfolding accept_request_2_def Let_def
    by (auto split: option.splits prod.splits bool.splits dest!: ill snt simp del: apply_session_transitions.simps)
qed

lemma verified_gain:
  assumes "cleared (snd (verified_request_2 e hmac sv a req)) b"
  shows "cleared sv b \<or> b = a \<and> (tc_send_cookie (sv_config sv) \<longrightarrow> verify_cookie hmac sv a (rq2_cookie req))"
proof (cases "map_of (sv_pending_handshakes sv) a")
  case None
  let ?sv1 = "tally ct_handshake_stage_cancel_drops_update (tally ct_handshake_missing_req1_drops_update sv)"
  have "no_gain sv (snd (punish e ?sv1 a MissingPendingReq1))"
    by (rule no_gain_trans [OF no_gain_trans [OF no_gain_tally no_gain_tally] no_gain_punish])
  then show ?thesis using assms None by (simp add: verified_request_2_def no_gain_def)
next
  case (Some p)
  let ?sv1 = "clear_cookie_mismatch_state sv (addr_ip a)"
  have 1: "no_gain sv ?sv1" by (rule no_gain_same [OF same_tables_simple(4)])
  define res where "res = verified_request_2 e hmac sv a req"
  let ?bad = "tc_send_cookie (sv_config sv) \<and> (ph_cookie p = None \<or> \<not> verify_cookie hmac sv a (rq2_cookie req))"
  consider "res = request_2_expired e sv a p" | "res = request_2_cookie_mismatch e sv a" | "res = retry_reply_2 e ?sv1 a p req"
    | "res = and_return (send_no_free_incoming_connections e ?sv1 a) (Some (EvSessionLimitReached a))"
    | "res = accept_request_2 e ?sv1 a p req" "\<not> ?bad"
    unfolding res_def verified_request_2_def Let_def Some option.case by argo
  then show ?thesis
  proof cases
    case 5
    then show ?thesis
      using assms accept_gain [of e ?sv1 a p req b] 1 unfolding res_def [symmetric] no_gain_def by blast
  qed (use assms no_gain_expired [of sv e a p] no_gain_mismatch [of sv e a] no_gain_trans [OF 1 no_gain_retry [of ?sv1 e a p req]]
      no_gain_trans [OF 1 no_gain_replies(5) [of ?sv1 e a "Some (EvSessionLimitReached a)"]] in
    \<open>unfold res_def [symmetric] no_gain_def, metis\<close>)+
qed

section \<open>The keys\<close>

text \<open>What the cookies depend on, and the router.\<close>

definition same_keys :: "TransportServer \<Rightarrow> TransportServer \<Rightarrow> bool" where
  "same_keys sv sv' \<longleftrightarrow> sv_config sv' = sv_config sv \<and> sv_cookie_key_current sv' = sv_cookie_key_current sv
     \<and> sv_cookie_key_previous sv' = sv_cookie_key_previous sv \<and> sv_next_cookie_rotation sv' = sv_next_cookie_rotation sv
     \<and> sv_proxy_router sv' = sv_proxy_router sv"

lemma same_keys_refl [simp]: "same_keys sv sv"
  by (simp add: same_keys_def)

lemma same_keys_trans: "same_keys sv sv1 \<Longrightarrow> same_keys sv1 sv2 \<Longrightarrow> same_keys sv sv2"
  by (simp add: same_keys_def)

lemma verify_cookie_keys: "same_keys sv sv' \<Longrightarrow> verify_cookie hmac sv' a c = verify_cookie hmac sv a c"
  by (simp add: same_keys_def verify_cookie_def compute_cookie_for_key_def split: option.split)

lemma same_keys_rotate: "same_keys sv sv' \<Longrightarrow> same_keys (rotate_cookie_keys_if_needed e sv) (rotate_cookie_keys_if_needed e sv')"
  by (simp add: same_keys_def rotate_cookie_keys_if_needed_def tally_def)

lemma same_keys_simple:
  "same_keys sv (tally f sv)" "same_keys sv (sv\<lparr>sv_rate_limiter := rl\<rparr>)"
  "same_keys sv (prune_cookie_mismatch_guard_states sv now)"
  "same_keys sv (prune_handshake_heuristic_states sv now)" "same_keys sv (prune_ip_recently_connected sv now)"
  "same_keys sv (snd (is_ip_recently_connected sv addr now))" "same_keys sv (snd (record_handshake_violation sv addr v now))"
  by (simp_all add: same_keys_def tally_def prune_cookie_mismatch_guard_states_def prune_handshake_heuristic_states_def
      prune_ip_recently_connected_def is_ip_recently_connected_def record_handshake_violation_def Let_def split_beta)

lemma same_keys_close: "same_keys sv (close_session e sv a)"
  by (simp add: same_keys_def close_session_def Let_def tally_def mark_ip_recently_connected_def split: option.split)

lemma same_keys_foldl:
  assumes "\<And>sv x. same_keys sv (f sv x)"
  shows "same_keys sv (foldl f sv xs)"
proof (induction xs arbitrary: sv)
  case (Cons x xs)
  then show ?case using same_keys_trans [OF assms [of sv x] Cons] by simp
qed simp

lemma same_keys_expire: "same_keys sv (expire_handshake e sv x)"
proof -
  obtain a p where x: "x = (a, p)" by (cases x)
  have "same_keys sv (count_timeout (ph_stage p) sv)" by (cases "ph_stage p") (simp_all add: same_keys_simple)
  then have "same_keys sv (close_session e (snd (record_handshake_violation
      (tally ct_handshake_stage_cancel_drops_update (count_timeout (ph_stage p) sv)) a (timeout_violation (ph_stage p)) (e_now e))) a)"
    by (rule same_keys_trans [OF same_keys_trans [OF same_keys_trans [OF _ same_keys_simple(1)] same_keys_simple(7)] same_keys_close])
  then show ?thesis by (simp add: expire_handshake_def x Let_def split_beta)
qed

lemma same_keys_housekeeping: "same_keys sv (housekeeping e sv pa)"
proof -
  have idle: "same_keys sv (prune_idle_sessions e sv pa)" for sv
    by (auto simp: prune_idle_sessions_def Let_def intro!: same_keys_foldl same_keys_trans [OF same_keys_simple(1) same_keys_close])
  have pend: "same_keys sv (prune_pending_handshakes e sv)" for sv
    unfolding prune_pending_handshakes_def Let_def
    by (rule same_keys_trans [OF same_keys_foldl same_keys_simple(4)]) (rule same_keys_expire)
  show ?thesis unfolding housekeeping_def Let_def
    by (rule same_keys_trans [OF same_keys_trans [OF same_keys_trans [OF pend same_keys_simple(3)] same_keys_simple(5)] idle])
qed

section \<open>One call\<close>

lemma request_2_gain:
  assumes "cleared (snd (handle_request_2 e hmac sv a req)) b"
  shows "cleared sv b \<or> b = a \<and> (tc_send_cookie (sv_config sv) \<longrightarrow> verify_cookie hmac sv a (rq2_cookie req))"
proof -
  obtain recent sv1 where r: "is_ip_recently_connected sv a (e_now e) = (recent, sv1)" by fastforce
  define sv2 where "sv2 = (case rq2_parse_path req of LegacyHeuristic \<Rightarrow> tally ct_request2_legacy_parse_hits_update sv1
    | AmbiguousPreferredNoCookie \<Rightarrow> tally ct_request2_ambiguous_parse_hits_update sv1
    | AmbiguousPreferredWithCookie \<Rightarrow> tally ct_request2_ambiguous_parse_hits_update sv1 | _ \<Rightarrow> sv1)"
  have 1: "no_gain sv sv1" "same_keys sv sv1"
    using no_gain_same [OF same_tables_simple(9), of sv a "e_now e"] same_keys_simple(6) [of sv a "e_now e"] by (simp_all add: r)
  have 2: "no_gain sv sv2" "same_keys sv sv2"
    using 1 no_gain_trans [OF 1(1) no_gain_tally] same_keys_trans [OF 1(2) same_keys_simple(1)]
    by (simp_all add: sv2_def split: Request2ParsePath.split)
  define res where "res = handle_request_2 e hmac sv a req"
  have "no_gain sv (snd res) \<or> res = verified_request_2 e hmac sv2 a req"
    unfolding res_def handle_request_2_def r Let_def prod.case sv2_def [symmetric]
    using no_gain_trans [OF no_gain_trans [OF 1(1) no_gain_tally] no_gain_replies(4)]
      no_gain_trans [OF no_gain_trans [OF 1(1) no_gain_tally] no_gain_replies(3)]
      no_gain_trans [OF no_gain_trans [OF no_gain_trans [OF 2(1) no_gain_tally] no_gain_tally] no_gain_punish]
      no_gain_trans [OF no_gain_trans [OF 2(1) no_gain_tally] no_gain_tally] by auto
  then show ?thesis
  proof
    assume "no_gain sv (snd res)"
    then show ?thesis using assms by (simp add: res_def no_gain_def)
  next
    assume eq: "res = verified_request_2 e hmac sv2 a req"
    have "cleared sv2 b \<or> b = a \<and> (tc_send_cookie (sv_config sv2) \<longrightarrow> verify_cookie hmac sv2 a (rq2_cookie req))"
      by (rule verified_gain) (use assms eq in \<open>simp add: res_def\<close>)
    with 2 show ?thesis using verify_cookie_keys [OF 2(2)] by (auto simp: no_gain_def same_keys_def)
  qed
qed

text \<open>An input that carries a second request for an address with a cookie the server accepts at that moment.\<close>

definition accepted_cookie :: "(bytes \<Rightarrow> bytes \<Rightarrow> bytes) \<Rightarrow> TransportServer \<Rightarrow> ServerEnv \<Rightarrow> ServerInput \<Rightarrow> SocketAddr \<Rightarrow> bool" where
  "accepted_cookie hmac sv e i a =
     (case i of
        RecvFrom observed raw \<Rightarrow>
          fst (route_inbound_addr e sv observed) = Some a
          \<and> (case offline_decode_with_magic (tc_unconnected_magic (sv_config sv)) raw of
               Inr (POpenConnectionRequest2 req, _) \<Rightarrow> verify_cookie hmac (rotate_cookie_keys_if_needed e sv) a (rq2_cookie req)
             | _ \<Rightarrow> False)
      | _ \<Rightarrow> False)"

lemma accepted_cookieE:
  assumes "accepted_cookie hmac sv e i a"
  obtains observed raw req rest where "i = RecvFrom observed raw" "fst (route_inbound_addr e sv observed) = Some a"
    "offline_decode_with_magic (tc_unconnected_magic (sv_config sv)) raw = Inr (POpenConnectionRequest2 req, rest)"
    "verify_cookie hmac (rotate_cookie_keys_if_needed e sv) a (rq2_cookie req)"
  using assms by (auto simp: accepted_cookie_def split: ServerInput.splits sum.splits prod.splits OfflinePacket.splits)

lemma offline_gain:
  assumes "handle_offline_packet e hmac rnd sv a packet = (r, sv')" "cleared sv' b"
  shows "cleared sv b \<or> (\<exists>req. packet = POpenConnectionRequest2 req \<and> b = a
    \<and> (tc_send_cookie (sv_config sv) \<longrightarrow> verify_cookie hmac sv a (rq2_cookie req)))"
proof -
  have ping: "no_gain sv (snd (handle_ping e sv a x))" for x unfolding handle_ping_def by (rule no_gain_replies(1))
  show ?thesis
  proof (cases packet)
    case (POpenConnectionRequest2 req)
    then show ?thesis using request_2_gain [of e hmac sv a req b] assms by auto
  next
    case (POpenConnectionRequest1 req)
    then show ?thesis using no_gain_request_1 [of sv e hmac rnd a req] assms by (simp add: no_gain_def)
  next
    case (PUnconnectedPing x)
    then show ?thesis using ping [of x] assms by (simp add: no_gain_def)
  next
    case (PUnconnectedPingOpenConnections x)
    then show ?thesis using ping [of x] assms by (simp add: no_gain_def)
  qed (use assms in auto)
qed

lemma recv_gain:
  assumes ok: "server_ok k sv" and cookie: "tc_send_cookie (sv_config sv)"
    and gain: "cleared (snd (recv_and_process e hmac rnd sv observed raw)) b" "\<not> cleared sv b"
  shows "accepted_cookie hmac sv e (RecvFrom observed raw) b"
proof -
  obtain to sv0 where r: "route_inbound_addr e sv observed = (to, sv0)" by fastforce
  have same0: "same_tables sv sv0" "same_keys sv sv0"
    using r by (auto simp: route_inbound_addr_def same_tables_simple same_keys_simple split: option.splits InboundProxyRoute.splits if_splits)
  then have none: "to \<noteq> None" using gain no_gain_same [of sv sv0] by (cases to) (auto simp: recv_and_process_def r no_gain_def)
  then obtain a where a: "to = Some a" by blast
  define sv1 where "sv1 = tick_limiter e (housekeeping e sv0 (Some a))"
  have 1: "no_gain sv sv1"
    unfolding sv1_def by (rule no_gain_trans [OF no_gain_trans [OF no_gain_same [OF same0(1)] no_gain_housekeeping] no_gain_same [OF tick_limiter_same]])
  have keys: "same_keys (rotate_cookie_keys_if_needed e sv) sv1"
    unfolding sv1_def tick_limiter_def
    by (intro same_keys_rotate same_keys_trans [OF same_keys_trans [OF same0(2) same_keys_housekeeping] same_keys_simple(2)])
  have ok1: "server_ok k sv1"
    unfolding sv1_def by (rule same_tables_ok [OF tick_limiter_same housekeeping_ok [OF same_tables_ok [OF same0(1) ok]]])
  have cfg: "sv_config sv1 = sv_config sv"
    using keys by (simp add: same_keys_def rotate_cookie_keys_if_needed_def tally_def)
  have rl: "no_gain sv (sv1\<lparr>sv_rate_limiter := l\<rparr>)" "same_keys (rotate_cookie_keys_if_needed e sv) (sv1\<lparr>sv_rate_limiter := l\<rparr>)"
    "server_ok k (sv1\<lparr>sv_rate_limiter := l\<rparr>)" for l
    using no_gain_trans [OF 1 no_gain_same [OF same_tables_simple(2)]] same_keys_trans [OF keys same_keys_simple(2)]
      same_tables_ok [OF same_tables_simple(2) ok1] by auto
  have con: "no_gain sv (snd (recv_connected e rnd (sv1\<lparr>sv_rate_limiter := l\<rparr>) a raw))" for l
    by (rule no_gain_trans [OF rl(1) no_gain_recv_connected [OF rl(3) prod.collapse [symmetric]]])
  have off: "cleared sv b \<or> (\<exists>req. packet = POpenConnectionRequest2 req \<and> b = a
      \<and> verify_cookie hmac (rotate_cookie_keys_if_needed e sv) a (rq2_cookie req))"
    if "handle_offline_packet e hmac rnd (sv1\<lparr>sv_rate_limiter := l\<rparr>) a packet = (x, sv')" "cleared sv' b" for l x packet sv'
    using offline_gain [OF that] rl(1) [of l] verify_cookie_keys [OF rl(2)] cookie cfg by (auto simp: no_gain_def)
  have ban: "no_gain sv (snd (and_return (send_connection_banned e (sv1\<lparr>sv_rate_limiter := l\<rparr>) a) x))" for l and x :: TransportEvent
    by (rule no_gain_trans [OF rl(1) no_gain_replies(2)])
  define res where "res = recv_and_process e hmac rnd sv observed raw"
  have "no_gain sv (snd res) \<or> (\<exists>packet rest x sv' l. offline_decode_with_magic (tc_unconnected_magic (sv_config sv)) raw = Inr (packet, rest)
      \<and> handle_offline_packet e hmac rnd (sv1\<lparr>sv_rate_limiter := l\<rparr>) a packet = (x, sv') \<and> snd res = sv')"
    unfolding res_def recv_and_process_def r a Let_def option.case prod.case sv1_def [symmetric]
    using 1 rl(1) con ban cfg
    by (auto split: list.split prod.split sum.split RateLimitDecision.split option.split)
  then obtain packet rest x sv' l where p: "offline_decode_with_magic (tc_unconnected_magic (sv_config sv)) raw = Inr (packet, rest)"
    and h: "handle_offline_packet e hmac rnd (sv1\<lparr>sv_rate_limiter := l\<rparr>) a packet = (x, sv')" "snd res = sv'"
    using gain by (auto simp: res_def no_gain_def)
  from off [OF h(1)] gain h(2) obtain req where "packet = POpenConnectionRequest2 req" "b = a"
    "verify_cookie hmac (rotate_cookie_keys_if_needed e sv) a (rq2_cookie req)" by (auto simp: res_def)
  then show ?thesis by (simp add: accepted_cookie_def r a p)
qed

section \<open>Runs\<close>

lemma no_gain_tick: "no_gain sv (snd (tick_outbound e rnd sv a b c d))"
proof -
  have keep: "no_gain sv (queue_keepalive_pings e rnd sv)" for sv
  proof -
    let ?f = "keepalive_session rnd (e_now e) (tc_session_keepalive_interval (sv_config sv)) (unix_timestamp_millis e)"
    have eq: "map (\<lambda>(addr, s, _, _). (addr, s)) (map (\<lambda>(addr, s). (addr, ?f s)) ss) = map (\<lambda>(a, s). (a, fst (?f s))) ss" for ss
      by (induction ss) (auto split: prod.splits)
    have "no_gain sv (sv\<lparr>sv_sessions := map (\<lambda>(a, s). (a, fst (?f s))) (sv_sessions sv), sv_counters := ct\<rparr>)" for ct
      using no_gain_map [of sv "\<lambda>s. fst (?f s)"] by (simp add: no_gain_def cleared_def)
    then show ?thesis unfolding queue_keepalive_pings_def Let_def eq
      by (auto intro!: no_gain_trans [OF _ no_gain_foldl] no_gain_close)
  qed
  define sv1 where "sv1 = tick_limiter e (queue_keepalive_pings e rnd (housekeeping e sv None))"
  have 1: "no_gain sv sv1"
    unfolding sv1_def by (rule no_gain_trans [OF no_gain_trans [OF no_gain_housekeeping keep] no_gain_same [OF tick_limiter_same]])
  have eq: "map (\<lambda>(addr, _, s). (addr, s)) (map (\<lambda>(addr, s). (addr, on_tick rnd s (e_now e) a b c d)) ss)
    = map (\<lambda>(addr, s). (addr, snd (on_tick rnd s (e_now e) a b c d))) ss" for ss
    by (induction ss) (auto split: prod.splits)
  show ?thesis
    unfolding tick_outbound_def Let_def sv1_def [symmetric] eq snd_and_return
    by (rule no_gain_trans [OF no_gain_trans [OF 1 no_gain_map] no_gain_same [OF same_tables_sends]])
qed

lemma no_gain_dispatch: "no_gain sv (snd (dispatch_payload e rnd sv a payload rel ch pr rid))"
proof (cases "map_of (sv_sessions sv) a")
  case (Some s)
  then show ?thesis
    using no_gain_update(1) [of sv a] no_gain_trans [OF no_gain_update(1) no_gain_close, of sv a]
    by (auto simp: dispatch_payload_def Let_def split: prod.splits)
qed (simp add: dispatch_payload_def)

lemma step_gain:
  assumes ok: "server_ok k sv" and cookie: "tc_send_cookie (sv_config sv)"
    and gain: "cleared (snd (server_step hmac rnd sv e i)) b" "\<not> cleared sv b"
  shows "accepted_cookie hmac sv e i b"
proof (cases i)
  case (RecvFrom observed raw)
  then show ?thesis using recv_gain [OF ok cookie] gain by (simp add: fault_of_def)
next
  case (TickOutbound a1 b1 c1 d1)
  then show ?thesis using no_gain_tick gain by (simp add: fault_of_def no_gain_def)
next
  case (QueuePayload a1 p1 r1 c1 p2 i1)
  then show ?thesis using no_gain_dispatch gain by (simp add: no_gain_def)
next
  case (DisconnectPeer a1)
  have "no_gain sv (snd (disconnect_peer e sv a1))"
    by (auto simp: disconnect_peer_def intro: no_gain_trans [OF no_gain_tally no_gain_close])
  then show ?thesis using DisconnectPeer gain by (simp add: no_gain_def)
next
  case (SendDatagram a1 d1)
  then show ?thesis using no_gain_same [OF same_tables_send] gain by (simp add: fault_of_def no_gain_def send_datagram_def)
qed (use gain in \<open>auto simp: settings_defs Let_def split_beta cleared_def\<close>)

lemma step_send_cookie:
  assumes "server_ok k sv"
  shows "tc_send_cookie (sv_config sv) = tc_send_cookie k" "tc_unconnected_magic (sv_config sv) = tc_unconnected_magic k"
  using assms by (cases "sv_config sv"; cases k; simp add: server_ok_def core_config_def)+

lemma run_cleared:
  assumes "server_ok k sv" "tc_send_cookie k" "cleared (server_run hmac rnd sv xs) a" "\<not> cleared sv a"
  shows "\<exists>ys e i zs. xs = ys @ (e, i) # zs \<and> accepted_cookie hmac (server_run hmac rnd sv ys) e i a"
  using assms
proof (induction xs arbitrary: sv)
  case (Cons x xs)
  obtain e i where x: "x = (e, i)" by (cases x)
  let ?sv1 = "snd (server_step hmac rnd sv e i)"
  show ?case
  proof (cases "cleared ?sv1 a")
    case True
    then have "accepted_cookie hmac sv e i a" using step_gain Cons.prems step_send_cookie by blast
    then have "x # xs = [] @ (e, i) # xs \<and> accepted_cookie hmac (server_run hmac rnd sv []) e i a" by (simp add: x)
    then show ?thesis by blast
  next
    case False
    have "server_ok k ?sv1" using server_step_ok Cons.prems(1) by blast
    from Cons.IH [OF this Cons.prems(2) _ False] Cons.prems(3) obtain ys e' i' zs
      where "xs = ys @ (e', i') # zs" "accepted_cookie hmac (server_run hmac rnd ?sv1 ys) e' i' a" by (auto simp: x)
    then have "x # xs = (x # ys) @ (e', i') # zs \<and> accepted_cookie hmac (server_run hmac rnd sv (x # ys)) e' i' a" by (simp add: x)
    then show ?thesis by blast
  qed
qed simp

text \<open>C11: with cookies switched on, whatever is sent to the server, a session is past the first reply, and in
  particular connected, only if an earlier datagram carried a second request for its address with a
  cookie that was, at that moment, the keyed hash of that address under the current or the previous key.\<close>

theorem cookie_before_connection:
  assumes "config_validate c = Inr ()" "cg_slow_start_threshold (resolved_congestion_settings (tc_session_tunables c)) \<noteq> NaN"
    and "tc_unhandled_queue_max_bytes c < U64_MAX" "tc_send_cookie c" and sv: "sv = server_run hmac rnd (with_socket e0 c) xs"
    and s: "map_of (sv_sessions sv) a = Some s" "ss_state s \<noteq> Reply1Sent"
  shows "\<exists>ys e observed raw zs req rest. xs = ys @ (e, RecvFrom observed raw) # zs
    \<and> fst (route_inbound_addr e (server_run hmac rnd (with_socket e0 c) ys) observed) = Some a
    \<and> offline_decode_with_magic (tc_unconnected_magic c) raw = Inr (POpenConnectionRequest2 req, rest)
    \<and> verify_cookie hmac (rotate_cookie_keys_if_needed e (server_run hmac rnd (with_socket e0 c) ys)) a (rq2_cookie req)"
proof -
  have ok: "server_ok c (server_run hmac rnd (with_socket e0 c) ys)" for ys
    by (rule server_run_ok [OF with_socket_ok [OF assms(1-3)]])
  have "stage_ok (map_of (sv_pending_handshakes sv) a) (ss_state s)"
    by (rule server_ok_session(1) [OF ok [of xs, folded sv] s(1)])
  with s have "cleared sv a" by (auto simp: cleared_def stage_ok_def split: option.splits PendingHandshakeStage.splits)
  moreover have "\<not> cleared (with_socket e0 c) a" by (simp add: cleared_def with_socket_def Let_def)
  ultimately obtain ys e i zs where run: "xs = ys @ (e, i) # zs" "accepted_cookie hmac (server_run hmac rnd (with_socket e0 c) ys) e i a"
    using run_cleared [OF ok [of "[]", simplified] assms(4), of hmac rnd xs a] sv by auto
  from run(2) show ?thesis
    by (rule accepted_cookieE) (use run(1) step_send_cookie(2) [OF ok [of ys]] in \<open>metis (full_types)\<close>)
qed

end
