(* ===== verification/ServerProgress.thy ===== *)
theory ServerProgress
  imports ServerPruning ServerCookies
begin

text \<open>
  A client that follows the protocol gets through: its first request is answered with a cookie, and its
  second request with that cookie, in time, takes its session past the reply to the second request.
\<close>

section \<open>Packets of the handshake\<close>

text \<open>The identifiers the server takes for offline packets are those the decoder knows.\<close>

lemma decoded_offline_id:
  assumes "offline_decode_with_magic m raw = Inr (packet, rest)"
  shows "\<exists>i body. raw = i # body \<and> is_offline_packet_id i"
proof (cases raw)
  case (Cons i body)
  then have "decode_offline_packet_with_registry i m body = Inr (packet, rest)"
    using assms by (simp add: offline_decode_with_magic_def dbind_def)
  then have "is_offline_packet_id i"
    by (auto simp: decode_offline_packet_with_registry_def dfail_def is_offline_packet_id_def offline_id_defs split: if_splits)
  with Cons show ?thesis by blast
qed (use assms in \<open>simp add: offline_decode_with_magic_def dbind_def\<close>)

lemma negotiate_mtu_ok: "mtu_ok (negotiate_mtu sv requested)"
proof -
  let ?cap = "of_nat (max (unat MINIMUM_MTU_SIZE) (min (tc_mtu (sv_config sv)) (unat MAXIMUM_MTU_SIZE))) :: u16"
  have "unat ?cap = max (unat MINIMUM_MTU_SIZE) (min (tc_mtu (sv_config sv)) (unat MAXIMUM_MTU_SIZE))"
    by (simp add: unat_of_nat MINIMUM_MTU_SIZE_def MAXIMUM_MTU_SIZE_def take_bit_nat_eq_self)
  then have "MINIMUM_MTU_SIZE \<le> ?cap" "?cap \<le> MAXIMUM_MTU_SIZE"
    by (simp_all add: word_le_nat_alt MINIMUM_MTU_SIZE_def MAXIMUM_MTU_SIZE_def)
  then show ?thesis by (auto simp: negotiate_mtu_def mtu_ok_def Let_def not_less)
qed

lemma send_offline_ok:
  assumes "sv_proxy_router sv = None" "\<And>out t. e_sends e out t" "offline_valid packet"
  shows "\<exists>bs. offline_encode packet = Inr bs
    \<and> and_return (send_offline_packet e sv a packet) x = (Inr x, sv\<lparr>sv_sent := sv_sent sv @ [(a, bs)]\<rparr>)"
  using assms offline_encode_iff [of packet]
  by (auto simp: send_offline_packet_def send_encoded_def route_outbound_target_def and_return_def)

section \<open>A request that is let in\<close>

text \<open>The server as the handler of an offline packet sees it.\<close>

definition arrived :: "ServerEnv \<Rightarrow> TransportServer \<Rightarrow> SocketAddr \<Rightarrow> TransportServer" where
  "arrived e sv a =
     (let sv1 = tick_limiter e (housekeeping e sv (Some a))
      in sv1\<lparr>sv_rate_limiter := snd (limiter_check (sv_rate_limiter sv1) (addr_ip a) (e_now e))\<rparr>)"

definition let_in :: "ServerEnv \<Rightarrow> TransportServer \<Rightarrow> SocketAddr \<Rightarrow> bool" where
  "let_in e sv a \<longleftrightarrow> sv_proxy_router sv = None \<and> (\<forall>out t. e_sends e out t)
     \<and> fst (limiter_check (sv_rate_limiter (tick_limiter e (housekeeping e sv (Some a)))) (addr_ip a) (e_now e)) = RlAllow"

lemma recv_offline:
  assumes "let_in e sv a" "offline_decode_with_magic (tc_unconnected_magic (sv_config (arrived e sv a))) raw = Inr (packet, rest)"
  shows "snd (recv_and_process e hmac rnd sv a raw) = snd (handle_offline_packet e hmac rnd (arrived e sv a) a packet)"
proof -
  obtain i body where raw: "raw = i # body" "is_offline_packet_id i" using decoded_offline_id [OF assms(2)] by blast
  define sv1 where "sv1 = tick_limiter e (housekeeping e sv (Some a))"
  obtain rl where l: "limiter_check (sv_rate_limiter sv1) (addr_ip a) (e_now e) = (RlAllow, rl)"
    using assms(1) by (metis let_in_def prod.collapse sv1_def)
  have arr: "arrived e sv a = sv1\<lparr>sv_rate_limiter := rl\<rparr>" by (simp add: arrived_def sv1_def [symmetric] Let_def l)
  have "route_inbound_addr e sv a = (Some a, sv)" using assms(1) by (simp add: route_inbound_addr_def let_in_def)
  then show ?thesis
    using raw assms(2) l unfolding recv_and_process_def arr
    by (simp add: sv1_def [symmetric] Let_def split: prod.split sum.split option.split)
qed

lemma arrived_same: "same_tables (housekeeping e sv (Some a)) (arrived e sv a)"
  unfolding arrived_def Let_def by (rule same_tables_trans [OF tick_limiter_same same_tables_simple(2)])

lemma arrived_keys: "same_keys (rotate_cookie_keys_if_needed e sv) (arrived e sv a)"
  unfolding arrived_def Let_def tick_limiter_def
  by (intro same_keys_trans [OF same_keys_rotate same_keys_simple(2)] same_keys_trans [OF same_keys_housekeeping same_keys_simple(2)])

lemma arrived_ok: "server_ok k sv \<Longrightarrow> server_ok k (arrived e sv a)"
  by (rule same_tables_ok [OF arrived_same housekeeping_ok])

lemma arrived_router: "sv_proxy_router (arrived e sv a) = sv_proxy_router sv"
  using arrived_keys [of e sv a] by (simp add: same_keys_def rotate_cookie_keys_if_needed_def tally_def)

lemma core_config_fields:
  assumes "server_ok k sv"
  shows "tc_send_cookie (sv_config sv) = tc_send_cookie k" "tc_unconnected_magic (sv_config sv) = tc_unconnected_magic k"
    "tc_ip_recently_connected_window (sv_config sv) = tc_ip_recently_connected_window k"
    "tc_supported_protocols (sv_config sv) = tc_supported_protocols k" "tc_max_sessions (sv_config sv) = tc_max_sessions k"
    "tc_server_guid (sv_config sv) = tc_server_guid k" "handshake_req1_req2_timeout (sv_config sv) = handshake_req1_req2_timeout k"
    "tc_request2_server_addr_policy (sv_config sv) = tc_request2_server_addr_policy k" "tc_bind_addr (sv_config sv) = tc_bind_addr k"
    "tc_session_idle_timeout (sv_config sv) = tc_session_idle_timeout k"
  using assms by (cases "sv_config sv"; cases k; simp add: server_ok_def core_config_def handshake_req1_req2_timeout_def)+

lemma never_recent:
  assumes "tc_ip_recently_connected_window (sv_config sv) = 0"
  shows "is_ip_recently_connected sv a now = (False, sv\<lparr>sv_ip_recently_connected_until := []\<rparr>)"
  using assms by (simp add: is_ip_recently_connected_def prune_ip_recently_connected_def)

lemma request_1_answered:
  assumes ok: "server_ok k sv" and l: "let_in e sv a" and w: "tc_ip_recently_connected_window k = 0"
    and d: "offline_decode_with_magic (tc_unconnected_magic k) raw = Inr (POpenConnectionRequest1 req, rest)"
    and prot: "supports_protocol (tc_supported_protocols k) (rq1_protocol_version req)"
    and new: "map_of (sv_sessions (arrived e sv a)) a = None" "length (sv_sessions (arrived e sv a)) < tc_max_sessions k"
    and sv1_def: "sv1 = arrived e sv a" and sv2_def: "sv2 = snd (recv_and_process e hmac rnd sv a raw)"
    and cookie_def: "cookie = (if tc_send_cookie k then Some (generate_cookie hmac sv1 a) else None)"
  shows "\<exists>s bs. map_of (sv_sessions sv2) a = Some s \<and> ss_state s = Reply1Sent
    \<and> map_of (sv_pending_handshakes sv2) a = Some \<lparr>ph_mtu = negotiate_mtu sv1 (rq1_mtu req), ph_cookie = cookie, ph_client_guid = None,
        ph_stage = AwaitingRequest2, ph_expires_at = e_now e + handshake_req1_req2_timeout k\<rparr>
    \<and> same_keys sv1 sv2 \<and> sv_rate_limiter sv2 = sv_rate_limiter sv1
    \<and> offline_encode (POpenConnectionReply1 \<lparr>rp1_server_guid = tc_server_guid k, rp1_mtu = negotiate_mtu sv1 (rq1_mtu req),
        rp1_cookie = cookie, rp1_magic = tc_unconnected_magic k\<rparr>) = Inr bs
    \<and> sv_sent sv2 = sv_sent sv1 @ [(a, bs)]"
proof -
  have ok1: "server_ok k sv1" unfolding sv1_def by (rule arrived_ok [OF ok])
  note c = core_config_fields [OF ok1]
  have ph: "map_of (sv_pending_handshakes sv1) a = None"
    using ok1 new(1) by (simp add: server_ok_def tables_ok_def sv1_def)
  let ?sv1 = "sv1\<lparr>sv_ip_recently_connected_until := []\<rparr>"
  have neg: "negotiate_mtu ?sv1 = negotiate_mtu sv1" "generate_cookie hmac ?sv1 a = generate_cookie hmac sv1 a"
    by (simp_all add: fun_eq_iff negotiate_mtu_def generate_cookie_def compute_cookie_for_key_def)
  have "sv2 = snd (handle_request_1 e hmac rnd sv1 a req)"
    using recv_offline [OF l] d c unfolding sv1_def [symmetric] sv2_def by simp
  also have "\<dots> = snd (start_handshake e hmac rnd ?sv1 a (rq1_mtu req))"
    using prot new ph c w by (simp add: handle_request_1_def Let_def never_recent has_active_session_for_offline_reject_def
        would_exceed_session_limit_def sv1_def [symmetric])
  finally have run: "sv2 = snd (start_handshake e hmac rnd ?sv1 a (rq1_mtu req))" .
  obtain s0 where s0: "with_tunables rnd (e_clock e) (unat (negotiate_mtu sv1 (rq1_mtu req))) (tc_session_tunables (sv_config sv1)) = Some s0"
    using ok1 by (auto simp: with_tunables_def server_ok_def)
  obtain b s where tr: "apply_session_transitions s0 [Req1Recv, Reply1Sent] = (b, s)" by fastforce
  note s = new_session [OF ok1 tr s0]
  define sv3 where "sv3 = ?sv1\<lparr>sv_pending_handshakes := AList.update a \<lparr>ph_mtu = negotiate_mtu sv1 (rq1_mtu req), ph_cookie = cookie,
      ph_client_guid = None, ph_stage = AwaitingRequest2, ph_expires_at = e_now e + handshake_req1_req2_timeout k\<rparr> (sv_pending_handshakes sv1),
    sv_session_pipelines := AList.delete a (sv_session_pipelines sv1), sv_sessions := AList.update a s (AList.delete a (sv_sessions sv1))\<rparr>"
  let ?reply = "POpenConnectionReply1 \<lparr>rp1_server_guid = tc_server_guid k, rp1_mtu = negotiate_mtu sv1 (rq1_mtu req),
    rp1_cookie = cookie, rp1_magic = tc_unconnected_magic k\<rparr>"
  have "sv2 = snd (and_return (send_offline_packet e sv3 a ?reply) (None :: TransportEvent option))"
    using s unfolding run start_handshake_def Let_def neg
    by (simp add: s0 tr ph c cookie_def sv3_def del: apply_session_transitions.simps)
  moreover obtain bs where "offline_encode ?reply = Inr bs"
    "and_return (send_offline_packet e sv3 a ?reply) (None :: TransportEvent option) = (Inr None, sv3\<lparr>sv_sent := sv_sent sv3 @ [(a, bs)]\<rparr>)"
    using send_offline_ok [of sv3 e ?reply a "None :: TransportEvent option"] l arrived_router [of e sv a] negotiate_mtu_ok [of sv1]
    by (auto simp: sv3_def sv1_def let_in_def)
  ultimately show ?thesis using s by (auto simp: sv3_def update_map_of same_keys_def)
qed

text \<open>An address excepted from the rate limits stays excepted, and is always let in.\<close>

lemma expire_handshake_exceptions:
  "rl_exceptions (sv_rate_limiter (expire_handshake e sv x)) = rl_exceptions (sv_rate_limiter sv)"
proof -
  have t: "rl_exceptions (sv_rate_limiter (count_timeout g sv)) = rl_exceptions (sv_rate_limiter sv)" for g sv
    by (cases g) (simp_all add: tally_def)
  have v: "rl_exceptions (sv_rate_limiter (snd (record_handshake_violation sv a v now))) = rl_exceptions (sv_rate_limiter sv)" for sv a v now
    by (simp add: record_handshake_violation_def block_address_for_with_reason_def insert_block_def tally_def Let_def split: prod.split)
  have c: "sv_rate_limiter (close_session e sv a) = sv_rate_limiter sv" for sv a
    by (simp add: close_session_def mark_ip_recently_connected_def tally_def Let_def split: option.split)
  show ?thesis
    using v by (simp add: expire_handshake_def c t tally_def case_prod_unfold Let_def)
qed

lemma housekeeping_exceptions:
  "rl_exceptions (sv_rate_limiter (housekeeping e sv keep)) = rl_exceptions (sv_rate_limiter sv)"
proof -
  have ex: "rl_exceptions (sv_rate_limiter (foldl (expire_handshake e) sv xs)) = rl_exceptions (sv_rate_limiter sv)" for xs
    by (induction xs arbitrary: sv) (simp_all add: expire_handshake_exceptions)
  have c: "sv_rate_limiter (close_session e sv a) = sv_rate_limiter sv" for sv a
    by (simp add: close_session_def mark_ip_recently_connected_def tally_def Let_def split: option.split)
  have cl: "sv_rate_limiter (foldl (\<lambda>sv addr. close_session e (tally ct_timed_out_sessions_update sv) addr) sv xs) = sv_rate_limiter sv" for sv xs
    by (induction xs arbitrary: sv) (simp_all add: c tally_def)
  have h: "sv_rate_limiter (prune_handshake_heuristic_states sv now) = sv_rate_limiter sv" for sv now
    by (simp add: prune_handshake_heuristic_states_def Let_def)
  have "rl_exceptions (sv_rate_limiter (prune_pending_handshakes e sv)) = rl_exceptions (sv_rate_limiter sv)"
    unfolding prune_pending_handshakes_def Let_def by (simp add: h ex)
  moreover have "sv_rate_limiter (prune_idle_sessions e sv keep) = sv_rate_limiter sv" for sv
    by (simp add: prune_idle_sessions_def Let_def cl)
  moreover have "sv_rate_limiter (prune_cookie_mismatch_guard_states sv now) = sv_rate_limiter sv"
    "sv_rate_limiter (prune_ip_recently_connected sv now) = sv_rate_limiter sv" for sv now
    by (simp_all add: prune_cookie_mismatch_guard_states_def prune_ip_recently_connected_def Let_def)
  ultimately show ?thesis by (simp add: housekeeping_def Let_def)
qed

lemma exception_let_in:
  assumes "sv_proxy_router sv = None" "\<And>out t. e_sends e out t" "addr_ip a \<in> set (rl_exceptions (sv_rate_limiter sv))"
  shows "let_in e sv a"
proof -
  have t: "rl_exceptions (limiter_tick rl now) = rl_exceptions rl" for rl now
    using limiter_tick_fields(1) [of rl now] by (simp add: same_limits_def)
  have "sv_rate_limiter (tick_limiter e sv) = limiter_tick (sv_rate_limiter sv) (e_now e)" for sv
    by (simp add: tick_limiter_def rotate_cookie_keys_if_needed_def tally_def)
  then show ?thesis using assms by (simp add: let_in_def limiter_check_def Let_def t housekeeping_exceptions)
qed

lemma arrived_exceptions: "rl_exceptions (sv_rate_limiter (arrived e sv a)) = rl_exceptions (sv_rate_limiter sv)"
proof -
  define sv1 where "sv1 = tick_limiter e (housekeeping e sv (Some a))"
  have "rl_exceptions (sv_rate_limiter sv1) = rl_exceptions (sv_rate_limiter sv)"
    using limiter_tick_fields(1) [of "sv_rate_limiter (housekeeping e sv (Some a))" "e_now e"]
    by (simp add: sv1_def tick_limiter_def rotate_cookie_keys_if_needed_def tally_def same_limits_def housekeeping_exceptions)
  moreover have "same_limits (sv_rate_limiter sv1) (snd (limiter_check (sv_rate_limiter sv1) (addr_ip a) (e_now e)))"
    by (rule check_limits [OF prod.collapse [symmetric]])
  ultimately show ?thesis by (simp add: arrived_def sv1_def [symmetric] Let_def same_limits_def)
qed

text \<open>The cookie is still accepted when the second request arrives, since a call replaces the key at most once.\<close>

lemma cookie_still_accepted:
  assumes "same_keys sv1 sv2"
  shows "verify_cookie hmac (arrived e sv2 a) a (Some (generate_cookie hmac sv1 a))"
proof -
  have "verify_cookie hmac (rotate_cookie_keys_if_needed e sv2) a (Some (generate_cookie hmac sv1 a))"
    using assms by (auto simp: verify_cookie_def rotate_cookie_keys_if_needed_def tally_def generate_cookie_def compute_cookie_for_key_def
        same_keys_def split: option.split)
  then show ?thesis using verify_cookie_keys [OF arrived_keys] by simp
qed

lemma request_2_answered:
  assumes ok: "server_ok k sv" and l: "let_in e sv a" and w: "tc_ip_recently_connected_window k = 0"
    and d: "offline_decode_with_magic (tc_unconnected_magic k) raw = Inr (POpenConnectionRequest2 req, rest)"
    and path: "rq2_parse_path req \<in> {StrictNoCookie, StrictWithCookie}"
    and addr: "is_request2_server_addr_allowed sv1 (rq2_server_addr req) (server_addr e sv1)"
    and s: "map_of (sv_sessions sv) a = Some s" and p: "map_of (sv_pending_handshakes sv) a = Some p"
    and stage: "ph_stage p = AwaitingRequest2" "e_now e < ph_expires_at p"
    and cookie: "tc_send_cookie k \<longrightarrow> ph_cookie p \<noteq> None \<and> verify_cookie hmac sv1 a (rq2_cookie req)"
    and sv1_def: "sv1 = arrived e sv a" and sv2_def: "sv2 = snd (recv_and_process e hmac rnd sv a raw)"
    and mtu: "mtu = negotiate_mtu sv1 (min (rq2_mtu req) (ph_mtu p))"
  shows "\<exists>s' p' bs. map_of (sv_sessions sv2) a = Some s' \<and> ss_state s' = Reply2Sent \<and> ss_mtu s' = unat mtu
    \<and> map_of (sv_pending_handshakes sv2) a = Some p' \<and> ph_stage p' = AwaitingConnectionRequest \<and> ph_client_guid p' = Some (rq2_client_guid req)
    \<and> offline_encode (POpenConnectionReply2 \<lparr>rp2_server_guid = tc_server_guid k, rp2_server_addr = server_addr e sv1,
        rp2_mtu = mtu, rp2_use_encryption = False, rp2_magic = tc_unconnected_magic k\<rparr>) = Inr bs
    \<and> sv_sent sv2 = sv_sent sv1 @ [(a, bs)]"
proof -
  have ok1: "server_ok k sv1" unfolding sv1_def by (rule arrived_ok [OF ok])
  note c = core_config_fields [OF ok1]
  have s1: "map_of (sv_sessions sv1) a = Some s" and p1: "map_of (sv_pending_handshakes sv1) a = Some p"
    using housekeeping_keeps [OF ok s p stage(2), of "Some a"] arrived_same [of e sv a] by (simp_all add: sv1_def same_tables_def)
  let ?sv = "clear_cookie_mismatch_state (sv1\<lparr>sv_ip_recently_connected_until := []\<rparr>) (addr_ip a)"
  have same: "negotiate_mtu ?sv = negotiate_mtu sv1" "sv_sessions ?sv = sv_sessions sv1" "sv_pending_handshakes ?sv = sv_pending_handshakes sv1"
    "sv_config ?sv = sv_config sv1" "server_addr e ?sv = server_addr e sv1" "sv_sent ?sv = sv_sent sv1"
    by (simp_all add: clear_cookie_mismatch_state_def negotiate_mtu_def fun_eq_iff server_addr_def split: option.split)
  have ver: "verify_cookie hmac (sv1\<lparr>sv_ip_recently_connected_until := []\<rparr>) a (rq2_cookie req) = verify_cookie hmac sv1 a (rq2_cookie req)"
    by (rule verify_cookie_keys) (simp add: same_keys_def)
  have "sv2 = snd (handle_request_2 e hmac sv1 a req)"
    using recv_offline [OF l] d c unfolding sv1_def [symmetric] sv2_def by simp
  also have "\<dots> = snd (verified_request_2 e hmac (sv1\<lparr>sv_ip_recently_connected_until := []\<rparr>) a req)"
  proof -
    have "server_addr e (sv1\<lparr>sv_ip_recently_connected_until := []\<rparr>) = server_addr e sv1" by (simp add: server_addr_def split: option.split)
    with addr have "is_request2_server_addr_allowed (sv1\<lparr>sv_ip_recently_connected_until := []\<rparr>) (rq2_server_addr req)
        (server_addr e (sv1\<lparr>sv_ip_recently_connected_until := []\<rparr>))"
      by (simp add: is_request2_server_addr_allowed_def)
    moreover have "\<not> has_active_session_for_offline_reject (sv1\<lparr>sv_ip_recently_connected_until := []\<rparr>) a"
      by (simp add: has_active_session_for_offline_reject_def p1 split: option.split)
    moreover have "is_ip_recently_connected sv1 a (e_now e) = (False, sv1\<lparr>sv_ip_recently_connected_until := []\<rparr>)"
      using w c by (simp add: never_recent)
    moreover have "rq2_parse_path req = StrictNoCookie \<or> rq2_parse_path req = StrictWithCookie" using path by simp
    ultimately show ?thesis unfolding handle_request_2_def Let_def by (elim disjE) simp_all
  qed
  also have "\<dots> = snd (accept_request_2 e ?sv a p req)"
  proof -
    have "\<not> would_exceed_session_limit ?sv a" by (simp add: would_exceed_session_limit_def same s1)
    moreover have "map_of (sv_pending_handshakes (sv1\<lparr>sv_ip_recently_connected_until := []\<rparr>)) a = Some p" by (simp add: p1)
    moreover have "\<not> (tc_send_cookie (sv_config (sv1\<lparr>sv_ip_recently_connected_until := []\<rparr>)) \<and> (ph_cookie p = None
        \<or> \<not> verify_cookie hmac (sv1\<lparr>sv_ip_recently_connected_until := []\<rparr>) a (rq2_cookie req)))"
      using cookie c ver by auto
    ultimately show ?thesis using stage unfolding verified_request_2_def Let_def by auto
  qed
  finally have run: "sv2 = snd (accept_request_2 e ?sv a p req)" .
  let ?s = "touch_activity (set_mtu s (unat mtu)) (e_now e)"
  obtain b s' where tr: "apply_session_transitions ?s [Req2Recv, Reply2Sent] = (b, s')" by fastforce
  have s': "b" "ss_state s' = Reply2Sent" "ss_mtu s' = unat mtu"
    using tr server_ok_session [OF ok1 s1] p1 stage transitions_kept [of ?s "[Req2Recv, Reply2Sent]"]
    by (auto simp: transition_to_def can_transition_to_def stage_ok_def session_kept_def touch_activity_def set_mtu_def)
  let ?p = "\<lparr>ph_mtu = mtu, ph_cookie = ph_cookie p, ph_client_guid = Some (rq2_client_guid req), ph_stage = AwaitingConnectionRequest,
    ph_expires_at = e_now e + handshake_reply2_connect_timeout (sv_config sv1)\<rparr>"
  define sv3 where "sv3 = ?sv\<lparr>sv_sessions := AList.update a s' (sv_sessions sv1), sv_pending_handshakes := AList.update a ?p (sv_pending_handshakes sv1)\<rparr>"
  let ?reply = "POpenConnectionReply2 \<lparr>rp2_server_guid = tc_server_guid k, rp2_server_addr = server_addr e sv1, rp2_mtu = mtu,
    rp2_use_encryption = False, rp2_magic = tc_unconnected_magic k\<rparr>"
  have f3: "sv_config sv3 = sv_config sv1" "server_addr e sv3 = server_addr e sv1" by (simp_all add: sv3_def server_addr_def clear_cookie_mismatch_state_def split: option.split)
  have "accept_request_2 e ?sv a p req = send_reply_2 e sv3 a mtu"
    using s'(1) unfolding accept_request_2_def Let_def same s1 option.case mtu [symmetric] tr prod.case by (simp add: sv3_def)
  then have "sv2 = snd (and_return (send_offline_packet e sv3 a ?reply) (None :: TransportEvent option))"
    by (simp add: run send_reply_2_def f3 c)
  moreover obtain bs where "offline_encode ?reply = Inr bs"
    "and_return (send_offline_packet e sv3 a ?reply) (None :: TransportEvent option) = (Inr None, sv3\<lparr>sv_sent := sv_sent sv3 @ [(a, bs)]\<rparr>)"
    using send_offline_ok [of sv3 e ?reply a "None :: TransportEvent option"] l arrived_router [of e sv a] negotiate_mtu_ok [of sv1] mtu
    by (auto simp: sv3_def sv1_def let_in_def clear_cookie_mismatch_state_def)
  ultimately show ?thesis using s' same by (auto simp: sv3_def update_map_of)
qed


end
