(* ===== verification/ServerExample.thy ===== *)
theory ServerExample
  imports ServerProgress
begin

text \<open>
  A server with one client: concrete requests, the run that answers them, and the theorems about the
  handshake and the tick applied to it.
\<close>

section \<open>A client and its requests\<close>

definition peer :: SocketAddr where "peer = V4 10 0 0 1 4711"

text \<open>A keyed hash that is always the same tag stands in for the HMAC.\<close>

definition same_tag :: "bytes \<Rightarrow> bytes \<Rightarrow> bytes" where "same_tag key m = replicate 32 7"

definition first_request :: bytes where
  "first_request = [0x05] @ DEFAULT_UNCONNECTED_MAGIC @ [11]"

definition second_request :: bytes where
  "second_request = [0x07] @ DEFAULT_UNCONNECTED_MAGIC @ [7, 7, 7, 7, 0] @ [4, 255, 255, 255, 255, 0x4A, 0xBC]
     @ [0x04, 0xB0] @ [0, 0, 0, 0, 0, 0, 0, 5]"

lemma decode_first_request:
  "\<exists>req rest. offline_decode_with_magic DEFAULT_UNCONNECTED_MAGIC first_request = Inr (POpenConnectionRequest1 req, rest)
    \<and> rq1_protocol_version req = 11"
proof -
  have "(case offline_decode_with_magic DEFAULT_UNCONNECTED_MAGIC first_request of
     Inr (POpenConnectionRequest1 r, _) \<Rightarrow> rq1_protocol_version r = 11 | _ \<Rightarrow> False)" by code_simp
  then show ?thesis by (auto split: sum.splits prod.splits OfflinePacket.splits)
qed

lemma decode_second_request:
  "\<exists>req rest. offline_decode_with_magic DEFAULT_UNCONNECTED_MAGIC second_request = Inr (POpenConnectionRequest2 req, rest)
    \<and> rq2_cookie req = Some 0x07070707 \<and> addr_port (rq2_server_addr req) = 19132 \<and> rq2_parse_path req = StrictWithCookie"
proof -
  have "(case offline_decode_with_magic DEFAULT_UNCONNECTED_MAGIC second_request of Inr (POpenConnectionRequest2 r, _) \<Rightarrow>
    rq2_cookie r = Some 0x07070707 \<and> addr_port (rq2_server_addr r) = 19132 \<and> rq2_parse_path r = StrictWithCookie | _ \<Rightarrow> False)"
    by code_simp
  then show ?thesis by (auto split: sum.splits prod.splits OfflinePacket.splits)
qed

lemma same_tag_cookie: "generate_cookie same_tag sv a = 0x07070707"
  by (simp add: generate_cookie_def compute_cookie_for_key_def same_tag_def Let_def of_be_def)

section \<open>A server that lets it in\<close>

definition open_config :: TransportConfig where
  "open_config = transport_config_default\<lparr>tc_rate_limit_exceptions := [addr_ip peer]\<rparr>"

definition open_server :: TransportServer where "open_server = with_socket (quiet_env 0) open_config"

lemma open_config_valid: "config_validate open_config = Inr ()"
  by (simp add: config_valid_iff config_checks_defs open_config_def transport_config_default_def tunables_default_valid
      MINIMUM_MTU_SIZE_def MAXIMUM_MTU_SIZE_def handshake_req1_req2_timeout_def handshake_reply2_connect_timeout_def
      secs_def millis_def budget_default_def socket_tuning_default_def heuristics_default_def guard_default_def
      MAX_UNCONNECTED_PONG_MOTD_BYTES_def u32_sat_add_def)

lemma open_config_fields:
  "tc_unconnected_magic open_config = DEFAULT_UNCONNECTED_MAGIC" "tc_ip_recently_connected_window open_config = 0"
  "tc_send_cookie open_config" "tc_supported_protocols open_config = [RAKNET_PROTOCOL_VERSION]" "tc_max_sessions open_config = 20000"
  "tc_request2_server_addr_policy open_config = PortOnly" "tc_bind_addr open_config = V4 0 0 0 0 19132"
  "handshake_req1_req2_timeout open_config = secs 10" "tc_rate_limit_exceptions open_config = [addr_ip peer]"
  "tc_unhandled_queue_max_bytes open_config < U64_MAX" "tc_session_idle_timeout open_config = secs 30"
  "cg_slow_start_threshold (resolved_congestion_settings (tc_session_tunables open_config)) \<noteq> NaN"
  by (simp_all add: open_config_def transport_config_default_def handshake_req1_req2_timeout_def secs_def U64_MAX_def
      resolved_congestion_settings_def tunables_default_def Let_def)

lemma open_server_ok: "server_ok open_config open_server"
  unfolding open_server_def by (rule with_socket_ok [OF open_config_valid open_config_fields(12,10)])

lemma open_server_fields:
  "sv_sessions open_server = []" "sv_pending_handshakes open_server = []" "sv_proxy_router open_server = None"
  "sv_config open_server = open_config" "addr_ip peer \<in> set (rl_exceptions (sv_rate_limiter open_server))"
  using add_exceptions_fields [of _ "tc_rate_limit_exceptions open_config"]
  by (simp_all add: open_server_def with_socket_def Let_def open_config_fields(9))

lemma quiet_env_sends: "e_sends (quiet_env t) out target" by (simp add: quiet_env_def)

lemma quiet_env_local: "e_local_addr (quiet_env t) = None" by (simp add: quiet_env_def)

lemma quiet_env_now: "e_now (quiet_env t) = t" by (simp add: quiet_env_def)

section \<open>The run of the handshake\<close>

abbreviation after_first :: TransportServer where
  "after_first \<equiv> snd (recv_and_process (quiet_env 5) same_tag id open_server peer first_request)"

abbreviation after_second :: TransportServer where
  "after_second \<equiv> snd (recv_and_process (quiet_env 6) same_tag id after_first peer second_request)"

lemma open_arrived_empty: "sv_sessions (arrived e open_server peer) = []"
proof -
  have p: "sv_sessions (prune_handshake_heuristic_states sv now) = sv_sessions sv"
    "sv_sessions (prune_cookie_mismatch_guard_states sv now) = sv_sessions sv"
    "sv_sessions (prune_ip_recently_connected sv now) = sv_sessions sv" for sv now
    by (simp_all add: prune_handshake_heuristic_states_def prune_cookie_mismatch_guard_states_def prune_ip_recently_connected_def Let_def)
  have "sv_sessions (prune_pending_handshakes e open_server) = []"
    by (simp add: prune_pending_handshakes_def open_server_fields p)
  moreover have "sv_sessions sv = [] \<Longrightarrow> sv_sessions (prune_idle_sessions e sv keep) = []" for sv keep
    by (simp add: prune_idle_sessions_def Let_def)
  ultimately have "sv_sessions (housekeeping e open_server (Some peer)) = []"
    by (simp add: housekeeping_def p Let_def)
  then show ?thesis using arrived_same [of e open_server peer] by (simp add: same_tables_def)
qed

lemma first_let_in: "let_in (quiet_env 5) open_server peer"
  by (rule exception_let_in [OF open_server_fields(3) quiet_env_sends open_server_fields(5)])

lemma supported: "supports_protocol (tc_supported_protocols open_config) 11"
  by (simp add: supports_protocol_def open_config_fields RAKNET_PROTOCOL_VERSION_def)

text \<open>After the first request the address waits for the second one, and is let in again.\<close>

lemma after_first_request:
  "\<exists>s p. map_of (sv_sessions after_first) peer = Some s \<and> map_of (sv_pending_handshakes after_first) peer = Some p
    \<and> ph_stage p = AwaitingRequest2 \<and> ph_expires_at p = 5 + secs 10 \<and> ph_cookie p = Some 0x07070707"
  "let_in (quiet_env 6) after_first peer" "same_keys (arrived (quiet_env 5) open_server peer) after_first"
  "server_ok open_config after_first"
proof -
  obtain req rest where d: "offline_decode_with_magic (tc_unconnected_magic open_config) first_request = Inr (POpenConnectionRequest1 req, rest)"
    and v: "rq1_protocol_version req = 11"
    using decode_first_request by (auto simp: open_config_fields)
  have "map_of (sv_sessions (arrived (quiet_env 5) open_server peer)) peer = None"
    "length (sv_sessions (arrived (quiet_env 5) open_server peer)) < tc_max_sessions open_config"
    by (simp_all add: open_arrived_empty open_config_fields)
  note 1 = request_1_answered [OF open_server_ok first_let_in open_config_fields(2) d supported [folded v] this
      HOL.refl HOL.refl HOL.refl, where ?hmac = same_tag and ?rnd = id]
  from 1 show k: "same_keys (arrived (quiet_env 5) open_server peer) after_first" by blast
  from 1 show "\<exists>s p. map_of (sv_sessions after_first) peer = Some s \<and> map_of (sv_pending_handshakes after_first) peer = Some p
    \<and> ph_stage p = AwaitingRequest2 \<and> ph_expires_at p = 5 + secs 10 \<and> ph_cookie p = Some 0x07070707"
    by (elim exE conjE, intro exI conjI) (assumption | simp add: same_tag_cookie open_config_fields quiet_env_now)+
  have "rl_exceptions (sv_rate_limiter after_first) = rl_exceptions (sv_rate_limiter open_server)"
    using 1 arrived_exceptions [of "quiet_env 5" open_server peer] by metis
  moreover have "sv_proxy_router after_first = None"
    using k arrived_router [of "quiet_env 5" open_server peer] by (simp add: same_keys_def open_server_fields)
  ultimately show "let_in (quiet_env 6) after_first peer"
    by (intro exception_let_in) (simp_all add: quiet_env_sends open_server_fields)
  show "server_ok open_config after_first" using recv_and_process_fine [OF open_server_ok] by (simp add: fine_def)
qed

text \<open>The second request carries the cookie of the first reply and names the port of the server.\<close>

lemma second_request_fits:
  "is_request2_server_addr_allowed (arrived (quiet_env 6) after_first peer) a (server_addr (quiet_env 6) (arrived (quiet_env 6) after_first peer))
    \<longleftrightarrow> addr_port a = 19132"
proof -
  note c = core_config_fields [OF arrived_ok [OF after_first_request(4)], of "quiet_env 6" peer]
  have "server_addr (quiet_env 6) (arrived (quiet_env 6) after_first peer) = V4 0 0 0 0 19132"
    by (simp add: server_addr_def quiet_env_local c open_config_fields)
  then show ?thesis by (simp add: is_request2_server_addr_allowed_def c open_config_fields)
qed

lemma after_second_request: "\<exists>s. map_of (sv_sessions after_second) peer = Some s \<and> ss_state s = Reply2Sent"
proof -
  obtain req rest where d: "offline_decode_with_magic (tc_unconnected_magic open_config) second_request = Inr (POpenConnectionRequest2 req, rest)"
    and r: "rq2_cookie req = Some 0x07070707" "addr_port (rq2_server_addr req) = 19132" "rq2_parse_path req = StrictWithCookie"
    using decode_second_request by (auto simp: open_config_fields)
  obtain s p where p: "map_of (sv_sessions after_first) peer = Some s" "map_of (sv_pending_handshakes after_first) peer = Some p"
    "ph_stage p = AwaitingRequest2" "ph_expires_at p = 5 + secs 10" "ph_cookie p = Some 0x07070707"
    using after_first_request(1) by blast
  have t: "e_now (quiet_env 6) < ph_expires_at p" by (simp add: p quiet_env_now secs_def)
  have c: "tc_send_cookie open_config \<longrightarrow> ph_cookie p \<noteq> None \<and> verify_cookie same_tag (arrived (quiet_env 6) after_first peer) peer (rq2_cookie req)"
    using cookie_still_accepted [OF after_first_request(3), of same_tag "quiet_env 6" peer] by (simp add: p r same_tag_cookie)
  have path: "rq2_parse_path req \<in> {StrictNoCookie, StrictWithCookie}" by (simp add: r)
  note 2 = request_2_answered [OF after_first_request(4,2) open_config_fields(2) d path second_request_fits [THEN iffD2, OF r(2)]
      p(1,2,3) t c HOL.refl HOL.refl HOL.refl, where ?rnd = id]
  then show ?thesis by blast
qed

section \<open>The theorems on this run\<close>


theorem cookie_before_connection_witness:
  "\<exists>ys e observed raw zs req rest. [(quiet_env 5, RecvFrom peer first_request), (quiet_env 6, RecvFrom peer second_request)]
      = ys @ (e, RecvFrom observed raw) # zs
    \<and> fst (route_inbound_addr e (server_run same_tag id open_server ys) observed) = Some peer
    \<and> offline_decode_with_magic (tc_unconnected_magic open_config) raw = Inr (POpenConnectionRequest2 req, rest)
    \<and> verify_cookie same_tag (rotate_cookie_keys_if_needed e (server_run same_tag id open_server ys)) peer (rq2_cookie req)"
proof -
  have run: "server_run same_tag id (with_socket (quiet_env 0) open_config)
      [(quiet_env 5, RecvFrom peer first_request), (quiet_env 6, RecvFrom peer second_request)] = after_second"
    by (simp add: open_server_def fault_of_def split: prod.split)
  obtain s where s: "map_of (sv_sessions after_second) peer = Some s" "ss_state s = Reply2Sent" using after_second_request by blast
  then have "ss_state s \<noteq> Reply1Sent" by simp
  from cookie_before_connection [OF open_config_valid open_config_fields(12,10,3) run [symmetric] s(1) this]
  show ?thesis by (simp add: open_server_def)
qed

theorem tick_leaves_live_sessions_witness:
  "\<exists>s p. map_of (sv_sessions (snd (tick_outbound (quiet_env 7) id after_first 4 4096 4 4096))) peer = Some s
    \<and> map_of (sv_pending_handshakes (snd (tick_outbound (quiet_env 7) id after_first 4 4096 4 4096))) peer = Some p
    \<and> ph_stage p = AwaitingRequest2 \<and> 7 < ph_expires_at p"
proof -
  obtain s p where p: "map_of (sv_sessions after_first) peer = Some s" "map_of (sv_pending_handshakes after_first) peer = Some p"
    "ph_stage p = AwaitingRequest2" "ph_expires_at p = 5 + secs 10"
    using after_first_request(1) by blast
  have "stage_ok (Some p) (ss_state s)"
    using server_ok_session(1) [OF after_first_request(4) p(1)] p(2) by simp
  with p(3) have s: "ss_state s \<noteq> Connected" by (auto simp: stage_ok_def)
  have t: "7 < ph_expires_at p" by (simp add: p secs_def)
  have i: "tc_session_idle_timeout (sv_config after_first) \<noteq> 0"
    by (simp add: core_config_fields(10) [OF after_first_request(4)] open_config_fields secs_def)
  from tick_leaves_live_sessions [OF after_first_request(4) i prod.collapse [symmetric], of "quiet_env 7" id 4 4096 4 4096 peer] p s t
  show ?thesis by (metis quiet_env_now)
qed

end
