(* ===== verification/Spec2Isabelle.thy ===== *)
theory Spec2Isabelle
  imports ServerExample
begin

text \<open>
  A verification development of the RakNet implementation in this repository.  Paths are those of
  \<^verbatim>\<open>src/src\<close>.  The program has four layers, and the theories follow them from the bottom up.

  \<^bold>\<open>The wire format\<close> (\<^verbatim>\<open>protocol/\<close>, \<^verbatim>\<open>handshake/\<close>).  \<open>Primitives\<close> has the scalar codecs and the
  constants, \<open>Sequence24\<close> the 24-bit sequence numbers with their cyclic order, \<open>Framing\<close> the reliabilities,
  frame headers and frames, \<open>Datagrams\<close> the ranges, acknowledgements and datagrams, \<open>Connected\<close> the control
  packets of a session and \<open>Handshake\<close> the packets exchanged before there is a session.  A decoder takes bytes
  to an error or a value and the rest.  Shown: whatever can be encoded decodes to itself (to what the peer is meant
  to read, for datagrams), sizes are announced exactly, foreign magics are refused.  The locale \<open>raknet_codec\<close>
  states the round trip of a prefix-free code once; the codecs of scalars, addresses, headers, frames and ranges interpret it.

  \<^bold>\<open>The session\<close> (\<^verbatim>\<open>session/\<close>).  \<open>AckQueue\<close>, \<open>ReliableTracker\<close>, \<open>OrderingChannels\<close> and \<open>SplitAssembler\<close>
  are the parts a session is built from; \<open>SessionState\<close> has its states and \<open>Tunables\<close> its parameters with their
  validation.  \<open>Session\<close> has the record of \<^verbatim>\<open>session/mod.rs\<close> and its construction, \<open>SessionControl\<close> the
  round-trip estimate, the congestion window and the pacing, \<open>SessionReceive\<close> what a received datagram does,
  \<open>SessionQueue\<close> the outgoing queue with its limits, \<open>SessionTransmit\<close> acknowledgements, packing,
  retransmission and the tick.  \<open>SessionInFlight\<close>, \<open>SessionTick\<close> and \<open>SessionQuiet\<close> hold what is proved about
  datagrams in flight, about the tick, and about what operations leave alone.  Shown: ordered streams and split
  payloads arrive completely, once and in order whatever the network does to them within the windows; limits,
  controllers and buffers stay within their bounds; acknowledgements, negative acknowledgements and
  retransmissions act on exactly the datagrams named; a receipt is reported once; and, as theorems too, the cases
  in which a frame is delivered twice, dropped or kept for ever.

  \<^bold>\<open>The parts of the transport\<close> (\<^verbatim>\<open>transport/\<close>).  \<open>TransportConfig\<close> has the configuration with its validation
  and the proxy routes, \<open>RateLimiter\<close> the packet limits, blocks and processing budget, \<open>SessionPipeline\<close> the
  frames that wait for a connection.  Shown: no address and no set of addresses gets more through than the limits
  and budgets allow; a block lasts until it ends; waiting frames are handed on in order.

  \<^bold>\<open>The transport server\<close> (\<^verbatim>\<open>transport/server.rs\<close>).  \<open>TransportServer\<close> has the state, sending, cookies,
  scores, pruning and settings, \<open>ServerHandshake\<close> the handlers of the offline packets, \<open>ServerReceive\<close> the path of
  a received datagram (\<^verbatim>\<open>recv_and_process\<close>, \<^verbatim>\<open>handle_connected_datagram\<close>, \<^verbatim>\<open>apply_connected_control\<close>) and
  the tick.  \<open>ServerInvariant\<close>, \<open>ServerFrames\<close> and \<open>ServerHandlers\<close> prove that every call keeps the invariant
  \<open>server_ok\<close> and does not panic; \<open>ServerRuns\<close> lifts this to any sequence of calls.  \<open>ServerCookies\<close> shows
  that nobody gets past the first reply without a cookie the server accepted, \<open>ServerPruning\<close> that a tick leaves
  only live sessions and drops no handshake that is in time, \<open>ServerProgress\<close> that a client following the protocol
  gets its two replies, and \<open>ServerExample\<close> runs a concrete client through these theorems.

  \<^bold>\<open>Conventions.\<close>  \<open>Prelude\<close> has the shared vocabulary.  Fixed-width integers are words; \<^verbatim>\<open>usize\<close>, instants
  and durations (in nanoseconds) are natural numbers with the saturation of the source written out.  Structs are
  records whose fields carry a prefix, \<^verbatim>\<open>Result\<close> is a sum with the error on the left, and methods on
  \<^verbatim>\<open>&mut self\<close> return the new state.  \<open>BTreeMap\<close>, \<open>BinaryHeap\<close> and \<open>HashMap\<close> model the collections of the standard
  library, the heap with its sifting so that the order of equal keys is the real one; the session's queue is an
  interpretation of the locale \<open>priority_queue\<close>, the ordered maps of \<open>key_order\<close> and the tracker of
  \<open>exactly_once\<close>.  Floating point is real arithmetic followed by a rounding function that is a parameter; a
  theorem about exact arithmetic says so by taking the identity.  What comes from outside a call (the clocks, the
  local address, whether a send succeeds, random bytes) is the record \<open>ServerEnv\<close> the call gets, the HMAC is an
  argument, and what the server sends is appended to the log \<open>sv_sent\<close>.

  \<^bold>\<open>Bounds and termination.\<close>  No definition uses fuel: loops recurse over lists or ranges, and those that do not
  (draining a reorder buffer, popping a heap, walking a range of sequence numbers) have termination proofs on the
  size of what is left.  The numbers in flight are assumed to lie within half the sequence space where their order
  matters, since it is total only there.

  \<^bold>\<open>Not modelled.\<close>  The asynchronous code around the server: \<^verbatim>\<open>transport/runtime.rs\<close> (tasks and channels that
  drive it), \<^verbatim>\<open>server.rs\<close>, \<^verbatim>\<open>listener.rs\<close>, \<^verbatim>\<open>connection.rs\<close> and \<^verbatim>\<open>event.rs\<close> (handles for applications),
  \<^verbatim>\<open>client.rs\<close> (a loop over a socket and timers, using the packets and the session modelled here),
  \<^verbatim>\<open>proxy.rs\<close> (a relay between the two), \<^verbatim>\<open>telemetry.rs\<close> (metrics as text), and \<^verbatim>\<open>lib.rs\<close> and
  \<^verbatim>\<open>concurrency.rs\<close> (re-exports and type aliases).  Of \<^verbatim>\<open>transport/server.rs\<close> the binding and tuning of sockets
  and the metrics snapshot are left out, of \<^verbatim>\<open>error.rs\<close> the messages.  The socket, the operating system's clocks
  and the HMAC are parameters.

  This theory adds what spans the two ends of a connection: a large payload from the queue of one session to the
  assembler of another.
\<close>

section \<open>A large payload, from the queue to the peer\<close>


lemma nth_part_part_of:
  assumes "i < n" "n < 2 ^ 32"
  shows "part_of pid n (part m payload) i (nth_part rel ch si oi m n pid payload base i)"
  using assms by (simp add: part_of_def nth_part_def split_part_frame_def frame_header_new_def)

lemma large_payload_queued:
  assumes ok: "queue_ok s" "limits_ok s" and large: "\<not> length payload \<le> max_payload_for s rel False"
    and run: "queue_payload_with_receipt rnd s payload rel ch pr rid = (Enqueued rb, s')"
    and n: "n = div_ceil (length payload) (split_capacity s rel)"
  shows "\<exists>si oi. queued s (map (nth_part (normalize_reliability_for_split rel) ch si oi (split_capacity s rel) n
       (ss_split_write_index s) payload (ss_reliable_write_index s)) [0..<n]) s'"
proof -
  obtain frames bytes rel' where est: "estimate_queue_impact s (length payload) rel = (frames, bytes, rel')"
    by (metis prod_cases3)
  have allow: "evaluate_backpressure rnd s frames bytes rel' pr = BpAllow"
    using run by (auto simp: queue_payload_with_receipt_def est split: BackpressureAction.splits)
  note lim = queue_allowed [OF allow ok(2) est]
  have small: "bytes < U64_MAX" using lim(3) by simp
  note e = estimate_split [OF large est small]
  have m: "split_capacity s rel < 8192"
    using max_payload_small [of s] ok(2) by (simp add: split_capacity_def limits_ok_def)
  have "enqueue_split_frames s payload rel ch pr rid = (rb, s')"
    using run large allow by (auto simp: queue_payload_with_receipt_def est split: prod.splits)
  from enqueue_split_frames_queued [OF this ok(1) e(2) HOL.refl m e(1)] lim(3) e n
  show ?thesis by (auto simp: pending_outgoing_bytes_def)
qed

text \<open>Frames arriving at given instants: an arrival names the frame it brings; every frame arrives, the last
  arrival brings one that has not arrived before, and all come within the time to live.\<close>

definition arrivals_of :: "Frame list \<Rightarrow> Duration \<Rightarrow> (nat \<times> Instant) list \<Rightarrow> bool" where
  "arrivals_of fs ttl as \<longleftrightarrow>
     as \<noteq> [] \<and> fst ` set as = {..<length fs} \<and> fst (last as) \<notin> fst ` set (butlast as) \<and>
     (\<forall>a \<in> set as. snd (hd as) \<le> snd a \<and> snd a < snd (hd as) + ttl)"

lemma arrivals_reassembled:
  assumes sa: "assembler_ok sa" "map_of (sa_entries sa) pid = None" "length (sa_entries sa) < sa_max_concurrent sa"
      "length fs \<le> unat (sa_max_parts sa)"
    and parts: "\<And>i. i < length fs \<Longrightarrow> part_of pid (length fs) p i (fs ! i)" and as: "arrivals_of fs (sa_ttl sa) as"
  shows "\<exists>f sa'. add_all sa (map (\<lambda>(i, t). (fs ! i, t)) as) = (replicate (length as - 1) (Inr None) @ [Inr (Some f)], sa')
      \<and> fr_payload f = concat (map p [0..<length fs]) \<and> fr_header f = (fr_header (fs ! fst (hd as)))\<lparr>fh_is_split := False\<rparr>"
proof -
  obtain i0 t0 rest where hd: "as = (i0, t0) # rest" using as by (cases as) (auto simp: arrivals_of_def)
  define as' where "as' = map (\<lambda>(i, t). (i, fs ! i, t)) as"
  have snd: "map snd as' = map (\<lambda>(i, t). (fs ! i, t)) as" and len: "length as' = length as"
    and fst: "map fst as' = map fst as" by (auto simp: as'_def)
  have all: "fst ` set as' = {..<length fs}" using as arg_cong [OF fst, of set] by (simp add: arrivals_of_def)
  have ne: "as \<noteq> []" "as' \<noteq> []" by (simp_all add: hd as'_def)
  have last: "fst (last as') \<notin> fst ` set (butlast as')"
    using as ne fst by (simp add: arrivals_of_def last_map [symmetric] map_butlast flip: set_map)
  have cons: "as' = (i0, fs ! i0, t0) # map (\<lambda>(i, t). (i, fs ! i, t)) rest" by (simp add: as'_def hd)
  have "part_of pid (length fs) p i (fs ! i)" if "(i, t) \<in> set as" for i t
    using as that by (intro parts) (force simp: arrivals_of_def)
  then have time: "in_time pid (length fs) p t0 (sa_ttl sa) as'"
    unfolding in_time_def using as hd by (fastforce simp: as'_def arrivals_of_def)
  obtain rs sa' where run: "add_all sa (map snd as') = (rs, sa')" by (cases "add_all sa (map snd as')")
  from add_all_reassembles(1) [OF sa(1,4,2,3) cons time all last run] run show ?thesis
    unfolding snd len by (auto simp: hd)
qed


lemma default_queue_large:
  "fst (queue_payload_with_receipt id default_session (replicate 1500 7) ReliableOrdered 0 Normal None) =
     Enqueued (fst (enqueue_split_frames default_session (replicate 1500 7) ReliableOrdered 0 Normal None))"
  by (simp add: queue_payload_with_receipt_def estimate_queue_impact_def max_payload_for_def frame_overhead_def
      evaluate_backpressure_def soft_limit_def sat_add_def sat_mul_def U64_MAX_def pending_outgoing_frames_def pending_outgoing_bytes_def
      RAKNET_DATAGRAM_HEADER_SIZE_def split_capacity_def div_ceil_def split_beta)


end
